(* ===== verification/Prelude.thy ===== *)
theory Prelude
  imports Main "HOL-Library.Word"
begin

unbundle bit_operations_syntax

text \<open>
  Types, abbreviations, lemma collections and generic facts shared by every component of the
  development: the C integer types as words, C strings as lists of bytes, early-return loops,
  and the facts on words and on folds of memory updates that the components use.
\<close>

section \<open>Integer types of the source\<close>

type_synonym u8 = "8 word"
type_synonym u16 = "16 word"
type_synonym u32 = "32 word"
type_synonym u64 = "64 word"

text \<open>
  Plain \<^verbatim>\<open>char\<close> values are bytes; a C string is the list of bytes that the source reads or
  writes, its terminating zero byte included where the source stores it.
\<close>

type_synonym cstring = "u8 list"

definition cstr :: "string \<Rightarrow> cstring" where
  "cstr s = map of_char s"

text \<open>The range of a 32-bit signed \<^verbatim>\<open>int\<close>; arithmetic outside of it is undefined in C.\<close>

definition in_int32 :: "int \<Rightarrow> bool" where
  "in_int32 z \<longleftrightarrow> - (2 ^ 31) \<le> z \<and> z < 2 ^ 31"

section \<open>Lemma collections\<close>

named_theorems frame \<open>rules for triples over machine programs\<close>
named_theorems run \<open>unfolding rules that execute a machine program\<close>

section \<open>Loops with an early return\<close>

text \<open>
  \<^verbatim>\<open>for (x in xs) if (body returns r) return r;\<close> as a fold that stops at the first \<open>Some\<close>.
\<close>

primrec first_return :: "('i \<Rightarrow> 'r option) \<Rightarrow> 'i list \<Rightarrow> 'r option" where
  "first_return f [] = None"
| "first_return f (x # xs) = (case f x of Some r \<Rightarrow> Some r | None \<Rightarrow> first_return f xs)"

lemma first_return_hit:
  "f x = Some r \<Longrightarrow> (\<And>y. y \<in> set ys \<Longrightarrow> f y = None) \<Longrightarrow> first_return f (ys @ x # zs) = Some r"
  by (induction ys) auto

lemma first_return_SomeE:
  assumes "first_return f xs = Some r"
  obtains ys x zs where "xs = ys @ x # zs" "f x = Some r" "\<forall>y \<in> set ys. f y = None"
  using assms
proof (induction xs arbitrary: thesis)
  case Nil
  then show ?case by simp
next
  case (Cons x xs)
  show ?case
  proof (cases "f x")
    case None
    with Cons.prems obtain ys x' zs
      where "xs = ys @ x' # zs" "f x' = Some r" "\<forall>y \<in> set ys. f y = None"
      by (auto elim: Cons.IH)
    with None show ?thesis by (intro Cons.prems(1) [of "x # ys" x' zs]) auto
  next
    case (Some r')
    with Cons.prems show ?thesis by (intro Cons.prems(1) [of "[]" x xs]) auto
  qed
qed

lemma first_return_SomeD:
  "first_return f xs = Some r \<Longrightarrow> \<exists>x \<in> set xs. f x = Some r"
  by (auto elim: first_return_SomeE)

lemma first_return_None_iff:
  "first_return f xs = None \<longleftrightarrow> (\<forall>x \<in> set xs. f x = None)"
  by (induction xs) (auto split: option.splits)

lemma first_return_cong [fundef_cong]:
  "xs = ys \<Longrightarrow> (\<And>x. x \<in> set ys \<Longrightarrow> f x = g x) \<Longrightarrow> first_return f xs = first_return g ys"
  by (induction xs arbitrary: ys) (auto split: option.splits)

section \<open>Words\<close>

lemma unat_le_2p: "unat (w :: 'a::len word) < 2 ^ LENGTH('a)"
  by (rule unsigned_less)

lemma word_offset_eq_iff: "(a :: 'a::len word) - p = c - p \<longleftrightarrow> a = c"
  by simp

lemma unat_of_nat_small: "n < 2 ^ LENGTH('a) \<Longrightarrow> unat (of_nat n :: 'a::len word) = n"
  by (simp add: unat_of_nat take_bit_nat_eq_self)

lemma uint_of_int_small: "0 \<le> z \<Longrightarrow> z < 2 ^ LENGTH('a) \<Longrightarrow> uint (of_int z :: 'a::len word) = z"
  by (simp add: uint_word_of_int_eq take_bit_int_eq_self)

lemma of_nat_inj_small:
  "i < 2 ^ LENGTH('a) \<Longrightarrow> j < 2 ^ LENGTH('a) \<Longrightarrow>
     (of_nat i :: 'a::len word) = of_nat j \<longleftrightarrow> i = j"
  by (metis unat_of_nat_small)

lemma bit_iff_and_push_bit:
  "bit (w :: 'a::len word) n \<longleftrightarrow> n < LENGTH('a) \<and> w AND push_bit n 1 \<noteq> 0"
proof (cases "n < LENGTH('a)")
  case True
  have "w AND push_bit n 1 = (if bit w n then push_bit n 1 else 0)"
    by (rule bit_word_eqI) (auto simp: bit_simps)
  moreover have "push_bit n (1 :: 'a word) \<noteq> 0"
    using True by (metis bit_push_bit_iff_nat bit_1_iff diff_self_eq_0 bit_0_eq bot_apply
        bit_push_bit_iff possible_bit_word le_refl order_refl bot_bool_def)
  ultimately show ?thesis using True by auto
next
  case False
  then show ?thesis by (auto dest: bit_imp_le_length)
qed

text \<open>
  The simplifier reads the bits of a word numeral through the integer of the same value;
  these are the masks the source uses.
\<close>

lemma bit_low_masks:
  "bit (0xF :: int) n \<longleftrightarrow> n < 4"
  "bit (0xFF :: int) n \<longleftrightarrow> n < 8"
  "bit (0xFFF :: int) n \<longleftrightarrow> n < 12"
  "bit (0xFFFF :: int) n \<longleftrightarrow> n < 16"
proof -
  have m: "0xF = (mask 4 :: int)" "0xFF = (mask 8 :: int)"
    "0xFFF = (mask 12 :: int)" "0xFFFF = (mask 16 :: int)"
    by (simp_all add: mask_eq_exp_minus_1)
  show "bit (0xF :: int) n \<longleftrightarrow> n < 4" "bit (0xFF :: int) n \<longleftrightarrow> n < 8"
    "bit (0xFFF :: int) n \<longleftrightarrow> n < 12" "bit (0xFFFF :: int) n \<longleftrightarrow> n < 16"
    unfolding m bit_mask_iff by auto
qed

section \<open>Folds of point updates\<close>

text \<open>
  A loop that stores \<open>h i\<close> at address \<open>g i\<close> for every \<open>i\<close> of a list: an address keeps its
  old value when no iteration writes it, and otherwise holds what the iterations write there.
\<close>

lemma fold_upd_notin:
  "(\<And>i. i \<in> set xs \<Longrightarrow> g i \<noteq> a) \<Longrightarrow> fold (\<lambda>i r. r(g i := h i r)) xs r a = r a"
  by (induction xs arbitrary: r) auto

lemma fold_upd_in:
  assumes "i \<in> set xs" "g i = a" "\<And>j. j \<in> set xs \<Longrightarrow> g j = a \<Longrightarrow> h j = h i"
  shows "fold (\<lambda>i r. r(g i := h i)) xs r a = h i"
  using assms
proof (induction xs rule: rev_induct)
  case Nil
  then show ?case by simp
next
  case (snoc x xs)
  show ?case
  proof (cases "g x = a")
    case True
    have "h x = h i" by (rule snoc.prems(3)) (simp_all add: True)
    with True show ?thesis by simp
  next
    case False
    with snoc.prems have "i \<in> set xs" by auto
    then have "fold (\<lambda>i r. r(g i := h i)) xs r a = h i"
      by (rule snoc.IH) (simp_all add: snoc.prems)
    with False show ?thesis by (simp add: fun_upd_other del: fun_upd_apply)
  qed
qed

end
