(* ===== verification/Memory.thy ===== *)
theory Memory
  imports Prelude
begin

text \<open>
  Physical memory as a function from 32-bit addresses to bytes, with the little-endian 16-bit
  and 32-bit accesses of the CPU and the byte loops \<^verbatim>\<open>memset\<close> and \<^verbatim>\<open>memcpy\<close> of
  \<^verbatim>\<open>arch/x86/lib/string.S\<close>.  Addresses wrap around at \<open>2 ^ 32\<close>, so a region of \<open>n\<close> bytes at
  \<open>p\<close> is the set of the addresses \<open>a\<close> with \<open>unat (a - p) < n\<close>.
\<close>

type_synonym memory = "u32 \<Rightarrow> u8"

section \<open>Definitions\<close>

definition load32 :: "memory \<Rightarrow> u32 \<Rightarrow> u32" where
  "load32 r a = ucast (r a) OR push_bit 8 (ucast (r (a + 1)))
     OR push_bit 16 (ucast (r (a + 2))) OR push_bit 24 (ucast (r (a + 3)))"

definition store32 :: "u32 \<Rightarrow> u32 \<Rightarrow> memory \<Rightarrow> memory" where
  "store32 a w r = r(a := ucast w, a + 1 := ucast (drop_bit 8 w),
     a + 2 := ucast (drop_bit 16 w), a + 3 := ucast (drop_bit 24 w))"

definition load16 :: "memory \<Rightarrow> u32 \<Rightarrow> u16" where
  "load16 r a = ucast (r a) OR push_bit 8 (ucast (r (a + 1)))"

definition store16 :: "u32 \<Rightarrow> u16 \<Rightarrow> memory \<Rightarrow> memory" where
  "store16 a w r = r(a := ucast w, a + 1 := ucast (drop_bit 8 w))"

text \<open>\<^verbatim>\<open>rep stosb\<close>: store the byte at \<open>p\<close>, \<open>p + 1\<close>, \<dots>, counting \<open>n\<close> down.\<close>

definition memset :: "u32 \<Rightarrow> u8 \<Rightarrow> nat \<Rightarrow> memory \<Rightarrow> memory" where
  "memset p v n r = fold (\<lambda>i r. r(p + of_nat i := v)) [0..<n] r"

text \<open>\<^verbatim>\<open>rep movsb\<close>: ascending byte copies, each reading what the earlier ones left.\<close>

definition memcpy :: "u32 \<Rightarrow> u32 \<Rightarrow> nat \<Rightarrow> memory \<Rightarrow> memory" where
  "memcpy dst src n r = fold (\<lambda>i r. r(dst + of_nat i := r (src + of_nat i))) [0..<n] r"

definition in_region :: "u32 \<Rightarrow> nat \<Rightarrow> u32 \<Rightarrow> bool" where
  "in_region p n a \<longleftrightarrow> unat (a - p) < n"

section \<open>Lemmas\<close>

lemma bit_load32:
  "bit (load32 r a) n \<longleftrightarrow> n < 32 \<and> bit (r (a + of_nat (n div 8))) (n mod 8)"
proof -
  consider "n < 8" | "8 \<le> n" "n < 16" | "16 \<le> n" "n < 24" | "24 \<le> n" "n < 32" | "32 \<le> n"
    by linarith
  then show ?thesis
  proof cases
    case 1
    then show ?thesis by (auto simp: load32_def bit_simps dest: bit_imp_le_length)
  next
    case 2
    then have "n div 8 = 1" "n mod 8 = n - 8" by presburger+
    with 2 show ?thesis by (auto simp: load32_def bit_simps dest: bit_imp_le_length)
  next
    case 3
    then have "n div 8 = 2" "n mod 8 = n - 16" by presburger+
    with 3 show ?thesis by (auto simp: load32_def bit_simps dest: bit_imp_le_length)
  next
    case 4
    then have "n div 8 = 3" "n mod 8 = n - 24" by presburger+
    with 4 show ?thesis by (auto simp: load32_def bit_simps dest: bit_imp_le_length)
  next
    case 5
    then show ?thesis by (auto dest: bit_imp_le_length)
  qed
qed

lemma small_add_neq [simp]:
  "a + 1 \<noteq> (a :: u32)" "a + 2 \<noteq> a" "a + 3 \<noteq> a"
  "a \<noteq> a + 1" "a \<noteq> a + 2" "a \<noteq> a + 3"
  by simp_all

lemma store32_apply:
  "store32 a w r b = (if in_region a 4 b then ucast (drop_bit (8 * unat (b - a)) w) else r b)"
proof -
  have eq: "b = a + k \<longleftrightarrow> b - a = k" for k :: u32
    by (auto simp: algebra_simps)
  have lt: "unat (b - a) < 4 \<longleftrightarrow> b - a = 0 \<or> b - a = 1 \<or> b - a = 2 \<or> b - a = 3"
  proof -
    have "unat (b - a) < 4 \<longleftrightarrow> unat (b - a) = 0 \<or> unat (b - a) = 1 \<or> unat (b - a) = 2
        \<or> unat (b - a) = 3" by linarith
    moreover have "unat (b - a) = unat (k :: u32) \<longleftrightarrow> b - a = k" for k
      by (simp add: word_unat_eq_iff)
    from this [of 0] this [of 1] this [of 2] this [of 3] show ?thesis
      using calculation by simp
  qed
  show ?thesis
    unfolding in_region_def lt
    by (auto simp: store32_def eq)
qed

lemma load32_store32_same [simp]: "load32 (store32 a w r) a = w"
proof (rule bit_word_eqI)
  fix n
  assume n: "n < LENGTH(32)"
  then have d: "n div 8 < 4" by (simp add: less_mult_imp_div_less)
  then have u: "unat (of_nat (n div 8) :: u32) = n div 8"
    by (simp add: unat_of_nat_small)
  have "bit (load32 (store32 a w r) a) n \<longleftrightarrow> bit w (8 * (n div 8) + n mod 8)"
    using n d by (simp add: bit_load32 store32_apply in_region_def u bit_simps)
  then show "bit (load32 (store32 a w r) a) n \<longleftrightarrow> bit w n" by simp
qed

lemma load32_cong:
  "(\<And>k. k < 4 \<Longrightarrow> r (a + of_nat k) = r' (a + of_nat k)) \<Longrightarrow> load32 r a = load32 r' a"
proof -
  assume h: "\<And>k. k < 4 \<Longrightarrow> r (a + of_nat k) = r' (a + of_nat k)"
  show ?thesis
    using h [of 0] h [of 1] h [of 2] h [of 3] by (simp add: load32_def)
qed

text \<open>Regions, for addresses written as offsets from a common base.\<close>

lemma in_region_offset:
  "i < 2 ^ 32 \<Longrightarrow> in_region p n (p + of_nat i) \<longleftrightarrow> i < n"
  by (simp add: in_region_def unat_of_nat_small)

lemma in_region_self [simp]: "in_region p n p \<longleftrightarrow> 0 < n"
  by (simp add: in_region_def)

lemma in_region_ex:
  "in_region p n a \<Longrightarrow> \<exists>i < n. a = p + of_nat i"
  by (rule exI [of _ "unat (a - p)"]) (simp add: in_region_def)

lemma addr_eq_iff:
  assumes "n < 2 ^ 32"
  shows "(a :: u32) = p + of_nat n \<longleftrightarrow> unat (a - p) = n"
proof -
  have "a = p + of_nat n \<longleftrightarrow> a - p = of_nat n" by (auto simp: algebra_simps)
  also have "\<dots> \<longleftrightarrow> unat (a - p) = unat (of_nat n :: u32)"
    by (simp only: word_unat_eq_iff)
  also have "unat (of_nat n :: u32) = n" using assms by (simp add: unat_of_nat_small)
  finally show ?thesis .
qed

lemma memset_apply:
  assumes "n \<le> 2 ^ 32"
  shows "memset p v n r a = (if in_region p n a then v else r a)"
proof (cases "in_region p n a")
  case True
  then obtain i where "i < n" "a = p + of_nat i" by (blast dest: in_region_ex)
  then have "fold (\<lambda>i r. r(p + of_nat i := v)) [0..<n] r a = v"
    by (intro fold_upd_in [where g = "\<lambda>i. p + of_nat i" and h = "\<lambda>_. v" and i = i]) auto
  with True show ?thesis by (simp add: memset_def)
next
  case False
  have "p + of_nat i \<noteq> a" if "i \<in> set [0..<n]" for i
    using that False assms by (auto simp: in_region_offset)
  then have "fold (\<lambda>i r. r(p + of_nat i := v)) [0..<n] r a = r a"
    by (rule fold_upd_notin [where g = "\<lambda>i. p + of_nat i" and h = "\<lambda>_ _. v"])
  with False show ?thesis by (simp add: memset_def)
qed

lemma load32_memset_zero:
  assumes "n \<le> 2 ^ 32" and "\<And>k. k < 4 \<Longrightarrow> in_region p n (a + of_nat k)"
  shows "load32 (memset p 0 n r) a = 0"
proof (rule bit_word_eqI)
  fix m
  assume "m < LENGTH(32)"
  then have "m div 8 < 4" by (simp add: less_mult_imp_div_less)
  then show "bit (load32 (memset p 0 n r) a) m \<longleftrightarrow> bit (0 :: u32) m"
    using assms by (simp add: bit_load32 memset_apply)
qed

section \<open>Lemmas: accesses that do not overlap\<close>

lemma in_region_inside:
  assumes "in_region (p + of_nat k) j a" "k + j \<le> n" "n < 2 ^ 32"
  shows "in_region p n a"
proof -
  obtain i where "i < j" "a = p + of_nat (k + i)" using in_region_ex [OF assms(1)] by (auto simp: add.assoc)
  then show ?thesis using assms(2,3) by (simp add: in_region_offset del: of_nat_add)
qed

lemma load16_store16_same [simp]: "load16 (store16 a w r) a = w"
proof (rule bit_word_eqI)
  fix n
  assume "n < LENGTH(16)"
  then consider "n < 8" | "8 \<le> n" "n < 16" by fastforce
  then show "bit (load16 (store16 a w r) a) n \<longleftrightarrow> bit w n"
    by cases (auto simp: load16_def store16_def bit_simps dest: bit_imp_le_length)
qed

lemma region_apart:
  assumes "n \<le> unat (b - a)" "j \<le> unat (a - b)" "k < j" "0 < n"
  shows "\<not> in_region a n (b + of_nat k)"
proof -
  have "unat (a - b) = 2 ^ 32 - unat (b - a)"
  proof -
    have "(of_nat (2 ^ 32 - unat (b - a)) :: u32) = of_nat (2 ^ 32) - of_nat (unat (b - a))"
      using unsigned_less [of "b - a", where ?'a = nat] by (intro of_nat_diff) simp
    then have "a - b = of_nat (2 ^ 32 - unat (b - a))" by simp
    moreover have "2 ^ 32 - unat (b - a) < 2 ^ 32" using assms(1,4) by (intro diff_less) simp_all
    ultimately show ?thesis by (simp add: unat_of_nat_small)
  qed
  then have "unat (b - a) + k < 2 ^ 32" using assms(2,3) by linarith
  then have "unat (b - a + of_nat k) = unat (b - a) + k"
    by (simp add: unat_word_ariths unat_of_nat)
  then show ?thesis
    using assms(1) by (simp add: in_region_def algebra_simps)
qed

lemma store16_other: "\<not> in_region a 2 b \<Longrightarrow> store16 a w r b = r b"
  by (auto simp: store16_def in_region_def)

lemma load_apart:
  "4 \<le> unat (b - a) \<Longrightarrow> 4 \<le> unat (a - b) \<Longrightarrow> load32 (store32 a w r) b = load32 r b"
  "2 \<le> unat (b - a) \<Longrightarrow> 4 \<le> unat (a - b) \<Longrightarrow> load32 (store16 a v r) b = load32 r b"
  "4 \<le> unat (b - a) \<Longrightarrow> 2 \<le> unat (a - b) \<Longrightarrow> load16 (store32 a w r) b = load16 r b"
proof -
  assume "4 \<le> unat (b - a)" "4 \<le> unat (a - b)"
  then show "load32 (store32 a w r) b = load32 r b"
    by (intro load32_cong) (simp add: store32_apply region_apart)
next
  assume "2 \<le> unat (b - a)" "4 \<le> unat (a - b)"
  then show "load32 (store16 a v r) b = load32 r b"
    by (intro load32_cong) (simp add: store16_other region_apart)
next
  assume h: "4 \<le> unat (b - a)" "2 \<le> unat (a - b)"
  show "load16 (store32 a w r) b = load16 r b"
    using region_apart [OF h, of 0] region_apart [OF h, of 1] by (simp add: load16_def store32_apply)
qed

text \<open>Offsets from a common base.\<close>

lemma load_offset_apart:
  assumes "k + 4 \<le> j \<or> j + 4 \<le> k" "k < 2 ^ 31" "j < 2 ^ 31"
  shows "load32 (store32 (p + of_nat k) w r) (p + of_nat j) = load32 r (p + of_nat j)"
proof -
  have d: "unat (of_nat a - of_nat b :: u32) = (if b \<le> a then a - b else 2 ^ 32 + a - b)"
    if "a < 2 ^ 31" "b < 2 ^ 31" for a b
  proof (cases "b \<le> a")
    case True
    then have "(of_nat a - of_nat b :: u32) = of_nat (a - b)" by (simp only: of_nat_diff)
    moreover have "unat (of_nat (a - b) :: u32) = a - b" using that by (intro unat_of_nat_small) simp
    ultimately show ?thesis using True by simp
  next
    case False
    have "(of_nat (2 ^ 32 + a - b) :: u32) = of_nat (2 ^ 32 + a) - of_nat b"
      using that by (intro of_nat_diff) simp
    then have "(of_nat a - of_nat b :: u32) = of_nat (2 ^ 32 + a - b)" by simp
    moreover have "2 ^ 32 + a - b < 2 ^ 32" using False by simp
    ultimately show ?thesis using False by (simp add: unat_of_nat_small)
  qed
  show ?thesis
    using d [OF assms(3,2)] d [OF assms(2,3)] assms by (intro load_apart(1)) auto
qed

end
