(* ===== verification/Ring_Buffer.thy ===== *)
theory Ring_Buffer
  imports Prelude "HOL-Library.Sublist"
begin

text \<open>
  The scancode ring buffer of \<^verbatim>\<open>drivers/ps2.c\<close>: a 16-byte array with an 8-bit head (next
  slot to write) and tail (next slot to read).  The keyboard interrupt handler pushes,
  \<^verbatim>\<open>PS2_get_scancode\<close> pops.  The operations are shown to implement a FIFO queue that holds
  at most fifteen elements.
\<close>

section \<open>The ring buffer\<close>

definition PS2_RING_BUFFER_SIZE :: nat where
  "PS2_RING_BUFFER_SIZE = 16"

record ring_buf_t =
  buf :: "u8 list"
  head :: u8
  tail :: u8

text \<open>A static object: all bytes zero at start.\<close>

definition ring_buf_init :: ring_buf_t where
  "ring_buf_init = \<lparr>buf = replicate PS2_RING_BUFFER_SIZE 0, head = 0, tail = 0\<rparr>"

text \<open>\<^verbatim>\<open>(head + 1) % PS2_RING_BUFFER_SIZE\<close> is computed in \<^verbatim>\<open>int\<close> and stored in 8 bits.\<close>

definition ring_next :: "u8 \<Rightarrow> u8" where
  "ring_next i = of_nat ((unat i + 1) mod PS2_RING_BUFFER_SIZE)"

definition PS2_ring_buf_empty :: "ring_buf_t \<Rightarrow> bool" where
  "PS2_ring_buf_empty q \<longleftrightarrow> head q = tail q"

definition PS2_ring_buf_full :: "ring_buf_t \<Rightarrow> bool" where
  "PS2_ring_buf_full q \<longleftrightarrow> (unat (head q) + 1) mod PS2_RING_BUFFER_SIZE = unat (tail q)"

definition PS2_ring_buf_push :: "u8 \<Rightarrow> ring_buf_t \<Rightarrow> ring_buf_t" where
  "PS2_ring_buf_push scancode q =
     (if PS2_ring_buf_full q then q
      else q\<lparr>buf := (buf q)[unat (head q) := scancode], head := ring_next (head q)\<rparr>)"

text \<open>
  The result is the return value with the byte stored through \<^verbatim>\<open>pScancode\<close>; the only
  caller passes the address of a local variable, so the \<^verbatim>\<open>NULL\<close> test never fires.
\<close>

definition PS2_ring_buf_pop :: "ring_buf_t \<Rightarrow> u8 option \<times> ring_buf_t" where
  "PS2_ring_buf_pop q =
     (if PS2_ring_buf_empty q then (None, q)
      else (Some (buf q ! unat (tail q)), q\<lparr>tail := ring_next (tail q)\<rparr>))"

section \<open>Well-formed buffers and the queue they hold\<close>

definition ring_wf :: "ring_buf_t \<Rightarrow> bool" where
  "ring_wf q \<longleftrightarrow> length (buf q) = PS2_RING_BUFFER_SIZE \<and> unat (head q) < PS2_RING_BUFFER_SIZE
     \<and> unat (tail q) < PS2_RING_BUFFER_SIZE"

definition ring_count :: "ring_buf_t \<Rightarrow> nat" where
  "ring_count q = (unat (head q) + PS2_RING_BUFFER_SIZE - unat (tail q)) mod PS2_RING_BUFFER_SIZE"

definition ring_list :: "ring_buf_t \<Rightarrow> u8 list" where
  "ring_list q = map (\<lambda>k. buf q ! ((unat (tail q) + k) mod PS2_RING_BUFFER_SIZE)) [0..<ring_count q]"

lemma unat_ring_next [simp]: "unat (ring_next i) = (unat i + 1) mod 16"
proof -
  have "(unat i + 1) mod 16 < 2 ^ LENGTH(8)"
    by (rule less_trans [of _ 16]) simp_all
  then show ?thesis
    by (simp add: ring_next_def PS2_RING_BUFFER_SIZE_def unat_of_nat_small)
qed

lemma ring_wf_init: "ring_wf ring_buf_init"
  by (simp add: ring_wf_def ring_buf_init_def PS2_RING_BUFFER_SIZE_def)

lemma ring_list_init: "ring_list ring_buf_init = []"
  by (simp add: ring_list_def ring_count_def ring_buf_init_def PS2_RING_BUFFER_SIZE_def)

lemma ring_wf_push: "ring_wf q \<Longrightarrow> ring_wf (PS2_ring_buf_push x q)"
  by (simp add: ring_wf_def PS2_ring_buf_push_def PS2_RING_BUFFER_SIZE_def)

lemma ring_wf_pop: "ring_wf q \<Longrightarrow> ring_wf (snd (PS2_ring_buf_pop q))"
  by (simp add: ring_wf_def PS2_ring_buf_pop_def PS2_RING_BUFFER_SIZE_def)

lemma length_ring_list: "length (ring_list q) = ring_count q"
  by (simp add: ring_list_def)

text \<open>The modular arithmetic of the indices as case distinctions.\<close>

lemma succ_mod16: "i < 16 \<Longrightarrow> Suc i mod 16 = (if i = 15 then 0 else Suc i)"
  by auto

lemma add_mod16:
  "i < 16 \<Longrightarrow> k < 16 \<Longrightarrow> (i + k) mod 16 = (if i + k < 16 then i + k else i + k - (16 :: nat))"
  by (simp add: mod_if)

lemma sub_mod16:
  "h < 16 \<Longrightarrow> t < 16 \<Longrightarrow> (h + 16 - t) mod 16 = (if t \<le> h then h - t else h + 16 - (t :: nat))"
  by (auto simp: mod_if)

lemma ring_count_cases:
  "ring_wf q \<Longrightarrow> ring_count q = (if unat (tail q) \<le> unat (head q)
     then unat (head q) - unat (tail q) else unat (head q) + 16 - unat (tail q))"
  by (simp add: ring_count_def ring_wf_def PS2_RING_BUFFER_SIZE_def sub_mod16)

lemma ring_count_le: "ring_count q \<le> 15"
  by (simp add: ring_count_def PS2_RING_BUFFER_SIZE_def less_Suc_eq_le [symmetric])

lemma ring_empty_iff: "ring_wf q \<Longrightarrow> PS2_ring_buf_empty q \<longleftrightarrow> ring_list q = []"
  by (auto simp: PS2_ring_buf_empty_def ring_list_def ring_count_cases word_unat_eq_iff
      ring_wf_def PS2_RING_BUFFER_SIZE_def)

lemma ring_full_iff: "ring_wf q \<Longrightarrow> PS2_ring_buf_full q \<longleftrightarrow> length (ring_list q) = 15"
  by (auto simp: PS2_ring_buf_full_def length_ring_list ring_count_cases succ_mod16
      ring_wf_def PS2_RING_BUFFER_SIZE_def)

lemma ring_list_nth:
  assumes "ring_wf q" "k < ring_count q"
  shows "ring_list q ! k = buf q ! (if unat (tail q) + k < 16 then unat (tail q) + k
           else unat (tail q) + k - 16)"
proof -
  have "k < 16" using assms(2) ring_count_le [of q] by simp
  with assms show ?thesis
    by (simp add: ring_list_def PS2_RING_BUFFER_SIZE_def ring_wf_def add_mod16)
qed

lemma ring_count_push:
  "ring_wf q \<Longrightarrow> \<not> PS2_ring_buf_full q \<Longrightarrow> ring_count (PS2_ring_buf_push x q) = Suc (ring_count q)"
  using ring_wf_push [of q x]
  by (auto simp: ring_count_cases PS2_ring_buf_full_def PS2_ring_buf_push_def succ_mod16
      ring_wf_def PS2_RING_BUFFER_SIZE_def)

lemma ring_count_pop:
  "ring_wf q \<Longrightarrow> \<not> PS2_ring_buf_empty q \<Longrightarrow> ring_count (snd (PS2_ring_buf_pop q)) = ring_count q - 1"
  using ring_wf_pop [of q]
  by (auto simp: ring_count_cases PS2_ring_buf_empty_def PS2_ring_buf_pop_def succ_mod16
      ring_wf_def PS2_RING_BUFFER_SIZE_def word_unat_eq_iff)

lemma buf_push: "\<not> PS2_ring_buf_full q \<Longrightarrow> buf (PS2_ring_buf_push x q) = (buf q)[unat (head q) := x]"
  by (simp add: PS2_ring_buf_push_def)

lemma tail_push [simp]: "tail (PS2_ring_buf_push x q) = tail q"
  by (simp add: PS2_ring_buf_push_def)

lemma ring_list_push:
  assumes wf: "ring_wf q" and nf: "\<not> PS2_ring_buf_full q"
  shows "ring_list (PS2_ring_buf_push x q) = ring_list q @ [x]"
proof (rule nth_equalityI)
  show "length (ring_list (PS2_ring_buf_push x q)) = length (ring_list q @ [x])"
    by (simp add: length_ring_list ring_count_push [OF wf nf])
next
  fix k
  assume "k < length (ring_list (PS2_ring_buf_push x q))"
  then have k: "k \<le> ring_count q" by (simp add: length_ring_list ring_count_push [OF wf nf])
  let ?i = "if unat (tail q) + k < 16 then unat (tail q) + k else unat (tail q) + k - 16"
  from k have "k < ring_count (PS2_ring_buf_push x q)"
    by (simp add: ring_count_push [OF wf nf])
  from ring_list_nth [OF ring_wf_push [OF wf] this]
  have "ring_list (PS2_ring_buf_push x q) ! k = ((buf q)[unat (head q) := x]) ! ?i"
    by (simp only: buf_push [OF nf] tail_push)
  moreover have "?i = unat (head q) \<longleftrightarrow> k = ring_count q"
    using k wf ring_count_le [of q]
    by (auto simp: ring_count_cases ring_wf_def PS2_RING_BUFFER_SIZE_def split: if_splits)
  moreover have "unat (head q) < length (buf q)"
    using wf by (simp add: ring_wf_def)
  ultimately show "ring_list (PS2_ring_buf_push x q) ! k = (ring_list q @ [x]) ! k"
    using k by (auto simp: nth_append length_ring_list ring_list_nth [OF wf])
qed

lemma ring_list_pop:
  assumes wf: "ring_wf q" and ne: "\<not> PS2_ring_buf_empty q"
  shows "fst (PS2_ring_buf_pop q) = Some (hd (ring_list q))"
    and "ring_list (snd (PS2_ring_buf_pop q)) = tl (ring_list q)"
proof -
  have pos: "0 < ring_count q"
    using ring_empty_iff [OF wf] ne by (simp add: length_ring_list [symmetric])
  then have "hd (ring_list q) = ring_list q ! 0"
    by (metis hd_conv_nth length_ring_list length_greater_0_conv)
  then show "fst (PS2_ring_buf_pop q) = Some (hd (ring_list q))"
    using pos wf ne
    by (simp add: ring_list_nth PS2_ring_buf_pop_def ring_wf_def PS2_RING_BUFFER_SIZE_def)
  show "ring_list (snd (PS2_ring_buf_pop q)) = tl (ring_list q)"
  proof (rule nth_equalityI)
    show "length (ring_list (snd (PS2_ring_buf_pop q))) = length (tl (ring_list q))"
      by (simp add: length_ring_list ring_count_pop [OF wf ne])
  next
    fix k
    assume "k < length (ring_list (snd (PS2_ring_buf_pop q)))"
    then have k: "Suc k < ring_count q"
      by (simp add: length_ring_list ring_count_pop [OF wf ne])
    then have "k < ring_count (snd (PS2_ring_buf_pop q))"
      by (simp add: ring_count_pop [OF wf ne])
    from ring_list_nth [OF ring_wf_pop [OF wf] this] ring_list_nth [OF wf k]
    show "ring_list (snd (PS2_ring_buf_pop q)) ! k = tl (ring_list q) ! k"
      using k wf ne ring_count_le [of q]
      by (auto simp: nth_tl length_ring_list PS2_ring_buf_pop_def succ_mod16 ring_wf_def
          PS2_RING_BUFFER_SIZE_def)
  qed
qed

section \<open>The contract of a bounded queue\<close>

text \<open>
  What the keyboard path needs of its buffer: \<open>push\<close> appends when there is room and does
  nothing otherwise, \<open>pop\<close> removes the oldest element.
\<close>

datatype 'a queue_op = Push 'a | Pop

primrec pushed :: "'a queue_op list \<Rightarrow> 'a list" where
  "pushed [] = []"
| "pushed (x # xs) = (case x of Push a \<Rightarrow> a # pushed xs | Pop \<Rightarrow> pushed xs)"

text \<open>Run a sequence of operations, collecting what the pops return.\<close>

primrec queue_run :: "('a \<Rightarrow> 'q \<Rightarrow> 'q) \<Rightarrow> ('q \<Rightarrow> 'a option \<times> 'q) \<Rightarrow> 'a queue_op list \<Rightarrow> 'q
    \<Rightarrow> 'a list \<times> 'q" where
  "queue_run push pop [] q = ([], q)"
| "queue_run push pop (x # xs) q =
     (case x of
        Push a \<Rightarrow> queue_run push pop xs (push a q)
      | Pop \<Rightarrow> (let (r, q1) = pop q; (out, q2) = queue_run push pop xs q1
               in (case r of None \<Rightarrow> out | Some a \<Rightarrow> a # out, q2)))"

locale bounded_queue =
  fixes push :: "'a \<Rightarrow> 'q \<Rightarrow> 'q"
    and pop :: "'q \<Rightarrow> 'a option \<times> 'q"
    and contents :: "'q \<Rightarrow> 'a list"
    and wf :: "'q \<Rightarrow> bool"
    and cap :: nat
  assumes wf_push: "wf q \<Longrightarrow> wf (push x q)"
    and wf_pop: "wf q \<Longrightarrow> wf (snd (pop q))"
    and push_room: "wf q \<Longrightarrow> length (contents q) < cap \<Longrightarrow> contents (push x q) = contents q @ [x]"
    and push_full: "wf q \<Longrightarrow> cap \<le> length (contents q) \<Longrightarrow> push x q = q"
    and pop_empty: "wf q \<Longrightarrow> contents q = [] \<Longrightarrow> pop q = (None, q)"
    and pop_some: "wf q \<Longrightarrow> contents q \<noteq> [] \<Longrightarrow>
           fst (pop q) = Some (hd (contents q)) \<and> contents (snd (pop q)) = tl (contents q)"
begin

lemma push_cases:
  "wf q \<Longrightarrow> contents (push x q) = contents q @ [x] \<or> push x q = q"
  using push_room push_full by (cases "length (contents q) < cap") auto

lemma pop_step:
  assumes "wf q"
  shows "(case fst (pop q) of None \<Rightarrow> [] | Some a \<Rightarrow> [a]) @ contents (snd (pop q)) = contents q"
  using pop_empty [OF assms] pop_some [OF assms] by (cases "contents q") auto

lemma run_fifo:
  "wf q \<Longrightarrow> queue_run push pop ops q = (out, q') \<Longrightarrow>
     wf q' \<and> (\<exists>acc. subseq acc (pushed ops) \<and> out @ contents q' = contents q @ acc)"
proof (induction ops arbitrary: q out)
  case Nil
  then show ?case by auto
next
  case (Cons x ops)
  show ?case
  proof (cases x)
    case (Push a)
    with Cons.prems(2) have "queue_run push pop ops (push a q) = (out, q')" by simp
    from Cons.IH [OF wf_push [OF Cons.prems(1)] this]
    obtain acc where acc: "wf q'" "subseq acc (pushed ops)" "out @ contents q' = contents (push a q) @ acc"
      by blast
    from push_cases [OF Cons.prems(1), of a] show ?thesis
    proof
      assume "contents (push a q) = contents q @ [a]"
      with acc Push show ?thesis by (intro conjI exI [of _ "a # acc"]) auto
    next
      assume "push a q = q"
      with acc Push show ?thesis by (intro conjI exI [of _ acc]) (auto intro: list_emb_Cons)
    qed
  next
    case Pop
    obtain r q1 where p: "pop q = (r, q1)" by fastforce
    obtain out1 where r1: "queue_run push pop ops q1 = (out1, q')"
      and out: "out = (case r of None \<Rightarrow> out1 | Some a \<Rightarrow> a # out1)"
      using Cons.prems(2) Pop p by (auto split: prod.splits)
    from Cons.IH [OF _ r1] wf_pop [OF Cons.prems(1)] p
    obtain acc where "wf q'" "subseq acc (pushed ops)" "out1 @ contents q' = contents q1 @ acc"
      by auto
    then show ?thesis
      using pop_step [OF Cons.prems(1)] Pop out p by (auto split: option.splits)
  qed
qed

lemma run_push_room:
  "wf q \<Longrightarrow> length (contents q) + length xs \<le> cap \<Longrightarrow> contents (fold push xs q) = contents q @ xs"
  by (induction xs arbitrary: q) (simp_all add: push_room wf_push)

lemma wf_fold_push: "wf q \<Longrightarrow> wf (fold push xs q)"
  by (induction xs arbitrary: q) (simp_all add: wf_push)

lemma fold_push_prefix: "wf q \<Longrightarrow> \<exists>ys. contents (fold push xs q) = contents q @ ys"
proof (induction xs arbitrary: q)
  case Nil
  then show ?case by simp
next
  case (Cons x xs)
  from Cons.IH [OF wf_push [OF Cons.prems], of x] push_cases [OF Cons.prems, of x]
  show ?case by auto
qed

end

interpretation ring: bounded_queue PS2_ring_buf_push PS2_ring_buf_pop ring_list ring_wf 15
proof unfold_locales
  fix q :: ring_buf_t and x :: u8
  assume wf: "ring_wf q"
  show "ring_wf (PS2_ring_buf_push x q)" by (rule ring_wf_push [OF wf])
  show "ring_wf (snd (PS2_ring_buf_pop q))" by (rule ring_wf_pop [OF wf])
  show "ring_list (PS2_ring_buf_push x q) = ring_list q @ [x]" if "length (ring_list q) < 15"
    using that by (simp add: ring_list_push wf ring_full_iff)
  show "PS2_ring_buf_push x q = q" if "15 \<le> length (ring_list q)"
    using that ring_count_le [of q] wf
    by (simp add: PS2_ring_buf_push_def ring_full_iff length_ring_list)
  show "PS2_ring_buf_pop q = (None, q)" if "ring_list q = []"
    using that wf by (simp add: PS2_ring_buf_pop_def ring_empty_iff)
  show "fst (PS2_ring_buf_pop q) = Some (hd (ring_list q)) \<and>
      ring_list (snd (PS2_ring_buf_pop q)) = tl (ring_list q)" if "ring_list q \<noteq> []"
    using that ring_list_pop [OF wf] by (simp add: ring_empty_iff [OF wf])
qed


section \<open>The reader interrupted by the writer\<close>

text \<open>
  \<^verbatim>\<open>PS2_get_scancode\<close> pops with interrupts enabled, so the handler may push before the
  test for emptiness (\<open>xs\<close>), between the test and the read of the slot (\<open>ys\<close>), and between
  the read and the store of the new tail (\<open>zs\<close>).
\<close>

definition pop_interrupted :: "u8 list \<Rightarrow> u8 list \<Rightarrow> u8 list \<Rightarrow> ring_buf_t \<Rightarrow> u8 option \<times> ring_buf_t" where
  "pop_interrupted xs ys zs q =
     (let q0 = fold PS2_ring_buf_push xs q in
      if PS2_ring_buf_empty q0 then (None, q0)
      else let q1 = fold PS2_ring_buf_push ys q0;
               v = buf q1 ! unat (tail q1);
               q2 = fold PS2_ring_buf_push zs q1
        in (Some v, q2\<lparr>tail := ring_next (tail q2)\<rparr>))"

lemma hd_fold_push:
  "ring_wf q \<Longrightarrow> \<not> PS2_ring_buf_empty q \<Longrightarrow>
     \<not> PS2_ring_buf_empty (fold PS2_ring_buf_push xs q)
     \<and> hd (ring_list (fold PS2_ring_buf_push xs q)) = hd (ring_list q)"
  using ring.fold_push_prefix [of q xs] by (auto simp: ring_empty_iff ring.wf_fold_push)

lemma hd_ring_list:
  "ring_wf q \<Longrightarrow> \<not> PS2_ring_buf_empty q \<Longrightarrow> hd (ring_list q) = buf q ! unat (tail q)"
  using ring_list_pop(1) [of q] by (simp add: PS2_ring_buf_pop_def)

section \<open>Properties\<close>

text \<open>
  C23. The buffer is a FIFO queue of at most fifteen scancodes: a push appends while there is
  room and is dropped otherwise, a pop removes the oldest scancode, the two tests say what
  they are named for, and every operation keeps the buffer well formed.
\<close>

theorem ring_refines_queue:
  assumes "ring_wf q"
  shows "ring_wf (PS2_ring_buf_push x q) \<and> ring_wf (snd (PS2_ring_buf_pop q))
    \<and> ring_list (PS2_ring_buf_push x q)
        = (if length (ring_list q) < 15 then ring_list q @ [x] else ring_list q)
    \<and> PS2_ring_buf_pop q = (case ring_list q of [] \<Rightarrow> None | y # _ \<Rightarrow> Some y, snd (PS2_ring_buf_pop q))
    \<and> ring_list (snd (PS2_ring_buf_pop q)) = tl (ring_list q)
    \<and> PS2_ring_buf_empty q = (ring_list q = []) \<and> PS2_ring_buf_full q = (length (ring_list q) = 15)"
  using assms ring.wf_push ring.wf_pop ring.push_room ring.push_full ring.pop_empty ring.pop_some
    ring_empty_iff ring_full_iff
  by (cases "ring_list q") (auto simp: prod_eq_iff not_less)

theorem ring_refines_queue_witness:
  "ring_list (PS2_ring_buf_push 0x1C ring_buf_init) = [0x1C]"
  using ring_refines_queue [OF ring_wf_init, of "0x1C"] by (simp add: ring_list_init)

text \<open>
  C22. Whatever sequence of pushes and pops runs from the initial buffer, the scancodes read
  and those still held are, in order, a subsequence of the scancodes pushed.
\<close>

theorem ring_fifo:
  "\<exists>out q acc. queue_run PS2_ring_buf_push PS2_ring_buf_pop ops ring_buf_init = (out, q)
     \<and> ring_wf q \<and> subseq acc (pushed ops) \<and> out @ ring_list q = acc"
proof -
  obtain out q where r: "queue_run PS2_ring_buf_push PS2_ring_buf_pop ops ring_buf_init = (out, q)"
    by fastforce
  from ring.run_fifo [OF ring_wf_init r] show ?thesis
    using r by (auto simp: ring_list_init)
qed

text \<open>
  C11. A pop that the keyboard interrupt cuts into is linearizable: it returns exactly what an
  undisturbed pop after all the pushes returns, or finds the buffer empty at its test.
\<close>

theorem pop_linearizable:
  assumes "ring_wf q"
  shows "pop_interrupted xs ys zs q =
    (if ring_list (fold PS2_ring_buf_push xs q) = [] then (None, fold PS2_ring_buf_push xs q)
     else PS2_ring_buf_pop (fold PS2_ring_buf_push (xs @ ys @ zs) q))"
proof -
  let ?q0 = "fold PS2_ring_buf_push xs q"
  let ?q1 = "fold PS2_ring_buf_push ys ?q0"
  let ?q2 = "fold PS2_ring_buf_push zs ?q1"
  have wf: "ring_wf ?q0" "ring_wf ?q1" "ring_wf ?q2" by (simp_all add: ring.wf_fold_push assms)
  show ?thesis
  proof (cases "PS2_ring_buf_empty ?q0")
    case True
    then show ?thesis by (simp add: pop_interrupted_def ring_empty_iff wf)
  next
    case False
    note e1 = hd_fold_push [OF wf(1) False, of ys]
    note e2 = hd_fold_push [OF wf(2) conjunct1 [OF e1], of zs]
    have "buf ?q1 ! unat (tail ?q1) = buf ?q2 ! unat (tail ?q2)"
      using e1 e2 hd_ring_list wf by metis
    with False e1 e2 show ?thesis
      by (simp add: pop_interrupted_def ring_empty_iff wf PS2_ring_buf_pop_def Let_def)
  qed
qed

theorem pop_linearizable_witness:
  "fst (pop_interrupted [1] [2] [3] ring_buf_init) = Some 1"
proof -
  have "fst (PS2_ring_buf_pop (fold PS2_ring_buf_push [1, 2, 3] ring_buf_init)) = Some 1"
    "ring_list (fold PS2_ring_buf_push [1] ring_buf_init) \<noteq> []"
    using ring.run_push_room [OF ring_wf_init, of "[1, 2, 3]"]
      ring.run_push_room [OF ring_wf_init, of "[1]"] ring.wf_fold_push [OF ring_wf_init, of "[1, 2, 3]"]
      ring.pop_some by (simp_all add: ring_list_init)
  then show ?thesis using pop_linearizable [OF ring_wf_init, of "[1]" "[2]" "[3]"] by simp
qed

end
