(* ===== verification/Descriptor_Tables.thy ===== *)
theory Descriptor_Tables
  imports Prelude
begin

text \<open>
  The data of \<^verbatim>\<open>arch/x86/descriptors.{h,c}\<close>: segment descriptors, interrupt gates, the
  static GDT and the functions that fill in a descriptor.  The hardware's reading of a
  descriptor, as the comments of \<^verbatim>\<open>descriptors.h\<close> document it, is given by the functions
  \<open>seg_base\<close>, \<open>seg_limit\<close>, \<open>gate_offset\<close> and their kin.  Loading the tables is in the
  theory of the machine's interrupts.
\<close>

section \<open>Descriptors\<close>

record GDT_descriptor_t =
  limit :: u16
  base_lo :: u16
  base_mi :: u8
  attr :: u8
  limit_attr :: u8
  base_hi :: u8

record IDT_descriptor_t =
  g_base_lo :: u16
  selector :: u16
  reserved :: u8
  flags :: u8
  g_base_hi :: u16

record DT_register_t =
  dt_size :: u16
  dt_offset :: u32

definition MAX_GDT_DESCRIPTORS :: nat where
  "MAX_GDT_DESCRIPTORS = 6"

definition MAX_INTERRUPTS :: nat where
  "MAX_INTERRUPTS = 256"

definition sizeof_TSS_t :: nat where
  "sizeof_TSS_t = 0x68"

definition sizeof_GDT_descriptor_t :: nat where
  "sizeof_GDT_descriptor_t = 8"

definition sizeof_IDT_descriptor_t :: nat where
  "sizeof_IDT_descriptor_t = 8"

text \<open>The attribute macros; the values are computed in \<^verbatim>\<open>int\<close> and stored in one byte.\<close>

definition GDT_CODE_ATTR_READABLE :: u8 where "GDT_CODE_ATTR_READABLE = push_bit 1 1"
definition GDT_CODE_ATTR :: u8 where "GDT_CODE_ATTR = push_bit 3 3"
definition GDT_CODE_ATTR_DPL :: "u8 \<Rightarrow> u8" where "GDT_CODE_ATTR_DPL x = push_bit 5 (x AND 3)"
definition GDT_CODE_ATTR_PRESENT :: u8 where "GDT_CODE_ATTR_PRESENT = push_bit 7 1"
definition GDT_CODE_DEFAULT32 :: u8 where "GDT_CODE_DEFAULT32 = push_bit 6 1"
definition GDT_CODE_GRANULARITY :: u8 where "GDT_CODE_GRANULARITY = push_bit 7 1"
definition GDT_DATA_ATTR_WRITABLE :: u8 where "GDT_DATA_ATTR_WRITABLE = push_bit 1 1"
definition GDT_DATA_ATTR :: u8 where "GDT_DATA_ATTR = push_bit 3 2"
definition GDT_DATA_BIG :: u8 where "GDT_DATA_BIG = push_bit 6 1"
definition GDT_TASK_ATTR_TYPE :: u8 where "GDT_TASK_ATTR_TYPE = 0x9"

text \<open>The static table; fields that the initialiser leaves out are zero.\<close>

definition gdtd_init :: "GDT_descriptor_t list" where
  "gdtd_init =
    [\<lparr>limit = 0, base_lo = 0, base_mi = 0, attr = 0, limit_attr = 0, base_hi = 0\<rparr>,
     \<lparr>limit = 0xFFFF, base_lo = 0, base_mi = 0,
       attr = GDT_CODE_ATTR_READABLE OR GDT_CODE_ATTR OR GDT_CODE_ATTR_DPL 0 OR GDT_CODE_ATTR_PRESENT,
       limit_attr = 0xF OR GDT_CODE_DEFAULT32 OR GDT_CODE_GRANULARITY, base_hi = 0\<rparr>,
     \<lparr>limit = 0xFFFF, base_lo = 0, base_mi = 0,
       attr = GDT_DATA_ATTR_WRITABLE OR GDT_DATA_ATTR OR GDT_CODE_ATTR_DPL 0 OR GDT_CODE_ATTR_PRESENT,
       limit_attr = 0xF OR GDT_DATA_BIG OR GDT_CODE_GRANULARITY, base_hi = 0\<rparr>,
     \<lparr>limit = 0xFFFF, base_lo = 0, base_mi = 0,
       attr = GDT_CODE_ATTR_READABLE OR GDT_CODE_ATTR OR GDT_CODE_ATTR_DPL 3 OR GDT_CODE_ATTR_PRESENT,
       limit_attr = 0xF OR GDT_CODE_DEFAULT32 OR GDT_CODE_GRANULARITY, base_hi = 0\<rparr>,
     \<lparr>limit = 0xFFFF, base_lo = 0, base_mi = 0,
       attr = GDT_DATA_ATTR_WRITABLE OR GDT_DATA_ATTR OR GDT_CODE_ATTR_DPL 3 OR GDT_CODE_ATTR_PRESENT,
       limit_attr = 0xF OR GDT_DATA_BIG OR GDT_CODE_GRANULARITY, base_hi = 0\<rparr>,
     \<lparr>limit = of_nat (sizeof_TSS_t - 1), base_lo = 0, base_mi = 0,
       attr = GDT_TASK_ATTR_TYPE OR GDT_CODE_ATTR_PRESENT, limit_attr = 0, base_hi = 0\<rparr>]"

text \<open>A selector is the byte offset of its descriptor in the table.\<close>

definition GDT_KERNEL_CODE_SEL :: u16 where
  "GDT_KERNEL_CODE_SEL = of_nat (1 * sizeof_GDT_descriptor_t)"

definition GDT_KERNEL_DATA_SEL :: u16 where
  "GDT_KERNEL_DATA_SEL = of_nat (2 * sizeof_GDT_descriptor_t)"

definition GDT_TSS_SEL :: u16 where
  "GDT_TSS_SEL = of_nat (5 * sizeof_GDT_descriptor_t)"

definition IDT_GATE_INT32 :: u8 where "IDT_GATE_INT32 = 0xE"
definition IDT_DPL_RING0 :: u8 where "IDT_DPL_RING0 = 0"

section \<open>Filling in descriptors\<close>

text \<open>The TSS base, which \<^verbatim>\<open>GDT_init\<close> stores into the last entry at run time.\<close>

definition GDT_set_tss_base :: "u32 \<Rightarrow> GDT_descriptor_t list \<Rightarrow> GDT_descriptor_t list" where
  "GDT_set_tss_base ptr gdtd = gdtd[5 := (gdtd ! 5)\<lparr>base_lo := ucast (ptr AND 0xFFFF),
     base_mi := ucast (drop_bit 16 ptr AND 0xFF), base_hi := ucast (drop_bit 24 ptr AND 0xFF)\<rparr>]"

definition IDT_set_IDT_handler :: "u8 \<Rightarrow> u8 \<Rightarrow> u16 \<Rightarrow> u32 \<Rightarrow> IDT_descriptor_t" where
  "IDT_set_IDT_handler gate_type dpl sel base =
     \<lparr>g_base_lo = ucast (base AND 0xFFFF), selector = sel, reserved = 0,
      flags = gate_type OR push_bit 5 dpl OR push_bit 7 1,
      g_base_hi = ucast (drop_bit 16 base AND 0xFFFF)\<rparr>"

definition idt_descriptor_zero :: IDT_descriptor_t where
  "idt_descriptor_zero = \<lparr>g_base_lo = 0, selector = 0, reserved = 0, flags = 0, g_base_hi = 0\<rparr>"

section \<open>The hardware's reading of a descriptor\<close>

definition seg_base :: "GDT_descriptor_t \<Rightarrow> u32" where
  "seg_base d = ucast (base_lo d) OR push_bit 16 (ucast (base_mi d)) OR push_bit 24 (ucast (base_hi d))"

definition seg_granularity :: "GDT_descriptor_t \<Rightarrow> bool" where
  "seg_granularity d = bit (limit_attr d) 7"

text \<open>The offset of the last addressable byte: in bytes or in 4 KiB units.\<close>

definition seg_limit :: "GDT_descriptor_t \<Rightarrow> u32" where
  "seg_limit d = (let l = ucast (limit d) OR push_bit 16 (ucast (limit_attr d AND 0xF)) in
     if seg_granularity d then push_bit 12 l OR 0xFFF else l)"

definition seg_dpl :: "GDT_descriptor_t \<Rightarrow> u8" where
  "seg_dpl d = drop_bit 5 (attr d) AND 3"

definition seg_present :: "GDT_descriptor_t \<Rightarrow> bool" where
  "seg_present d = bit (attr d) 7"

text \<open>Bits 3 and 4 of the attribute byte: code or data segment, and which of the two.\<close>

definition seg_is_code :: "GDT_descriptor_t \<Rightarrow> bool" where
  "seg_is_code d \<longleftrightarrow> bit (attr d) 4 \<and> bit (attr d) 3"

definition seg_is_data :: "GDT_descriptor_t \<Rightarrow> bool" where
  "seg_is_data d \<longleftrightarrow> bit (attr d) 4 \<and> \<not> bit (attr d) 3"

definition seg_type :: "GDT_descriptor_t \<Rightarrow> u8" where
  "seg_type d = attr d AND 0xF"

definition gate_offset :: "IDT_descriptor_t \<Rightarrow> u32" where
  "gate_offset d = ucast (g_base_lo d) OR push_bit 16 (ucast (g_base_hi d))"

definition gate_present :: "IDT_descriptor_t \<Rightarrow> bool" where
  "gate_present d = bit (flags d) 7"

definition gate_dpl :: "IDT_descriptor_t \<Rightarrow> u8" where
  "gate_dpl d = drop_bit 5 (flags d) AND 3"

definition gate_type :: "IDT_descriptor_t \<Rightarrow> u8" where
  "gate_type d = flags d AND 0x1F"

lemmas gdt_macros = GDT_CODE_ATTR_READABLE_def GDT_CODE_ATTR_def GDT_CODE_ATTR_DPL_def
  GDT_CODE_ATTR_PRESENT_def GDT_CODE_DEFAULT32_def GDT_CODE_GRANULARITY_def
  GDT_DATA_ATTR_WRITABLE_def GDT_DATA_ATTR_def GDT_DATA_BIG_def GDT_TASK_ATTR_TYPE_def

lemmas seg_defs = seg_base_def seg_limit_def seg_granularity_def seg_dpl_def seg_present_def
  seg_is_code_def seg_is_data_def seg_type_def

section \<open>Lemmas\<close>

lemma gate_offset_IDT_set [simp]: "gate_offset (IDT_set_IDT_handler t d s base) = base"
proof (rule bit_word_eqI)
  fix n
  assume "n < LENGTH(32)"
  then consider "n < 16" | "16 \<le> n" "n < 32" by fastforce
  then show "bit (gate_offset (IDT_set_IDT_handler t d s base)) n \<longleftrightarrow> bit base n"
    by cases (auto simp: gate_offset_def IDT_set_IDT_handler_def bit_simps bit_low_masks)
qed

lemma seg_base_tss:
  assumes "length g = 6"
  shows "seg_base (GDT_set_tss_base ptr g ! 5) = ptr"
proof (rule bit_word_eqI)
  fix n
  assume "n < LENGTH(32)"
  then consider "n < 16" | "16 \<le> n" "n < 24" | "24 \<le> n" "n < 32" by fastforce
  then show "bit (seg_base (GDT_set_tss_base ptr g ! 5)) n \<longleftrightarrow> bit ptr n"
    using assms by cases (auto simp: seg_base_def GDT_set_tss_base_def bit_simps bit_low_masks)
qed

lemma GDT_set_tss_base_other: "i \<noteq> 5 \<Longrightarrow> GDT_set_tss_base ptr g ! i = g ! i"
  by (simp add: GDT_set_tss_base_def)

lemma length_gdtd_init [simp]: "length gdtd_init = 6"
  by (simp add: gdtd_init_def)

section \<open>Properties\<close>

text \<open>
  C40. The GDT that the kernel loads, read as the hardware reads it: a null descriptor, four
  flat 4 GiB segments (code and data for ring 0, code and data for ring 3), and an available
  32-bit TSS of \<^verbatim>\<open>0x68\<close> bytes at the address of \<^verbatim>\<open>g_tss\<close>.
\<close>

theorem gdt_segments:
  "let g = GDT_set_tss_base ptr gdtd_init in
     map seg_base (take 4 (tl g)) = [0, 0, 0, 0]
   \<and> map seg_limit (take 4 (tl g)) = [0xFFFFFFFF, 0xFFFFFFFF, 0xFFFFFFFF, 0xFFFFFFFF]
   \<and> map seg_is_code g = [False, True, False, True, False, False]
   \<and> map seg_is_data g = [False, False, True, False, True, False]
   \<and> map seg_dpl g = [0, 0, 0, 3, 3, 0]
   \<and> map seg_present g = [False, True, True, True, True, True]
   \<and> seg_base (g ! 5) = ptr \<and> seg_limit (g ! 5) = 0x67 \<and> seg_type (g ! 5) = 9"
proof -
  have "seg_base (GDT_set_tss_base ptr gdtd_init ! 5) = ptr" by (rule seg_base_tss) simp
  moreover obtain t where t: "GDT_set_tss_base ptr gdtd_init = take 5 gdtd_init @ [t]"
    "limit t = 0x67" "attr t = 0x89" "limit_attr t = 0"
    by (simp add: GDT_set_tss_base_def gdtd_init_def gdt_macros sizeof_TSS_t_def)
  moreover have "\<not> bit (0x89 :: u8) 4" "bit (0x89 :: u8) 7" by simp_all
  ultimately show ?thesis
    by (simp add: Let_def gdtd_init_def seg_defs gdt_macros)
qed

end
