(* ===== verification/Machine.thy ===== *)
theory Machine
  imports Memory Ring_Buffer Descriptor_Tables
begin

text \<open>
  The state the kernel runs on and the programs over it.  A \<open>machine\<close> holds the physical
  memory, the CPU state the source touches, every static variable of the kernel (one record per
  source file), the trace of port accesses and privileged instructions, and two descriptions of
  the environment that no operation changes except by consuming them: the answers of the
  devices (\<open>hw\<close>, a function of the history) and the interrupts to come (\<open>irq_sched\<close>).
  A program \<open>'a K\<close> maps a machine to a result and the machine after it, or to the reason it
  stopped.
\<close>

section \<open>The environment\<close>

datatype event =
    In8 u16 u8 | Out8 u16 u8 | In16 u16 u16 | Out16 u16 u16
  | Cli | Sti | Hlt | Pushfd | Popfd
  | Lgdt DT_register_t | Lidt DT_register_t | Reload_segments u16 u16
  | Set_CR0 u32 | Set_CR3 u32

text \<open>The addresses the linker assigns.\<close>

datatype symbol =
    ISR_INT nat | IRQ_INT nat | Sym_IDT_default_handler | Sym_start | Sym_end
  | Sym_g_tss | Sym_gdtd | Sym_idtd

text \<open>The stack frame that the interrupt stubs build (\<^verbatim>\<open>ISR_IRQ.h\<close>).\<close>

record ISR_registers_t =
  r_ds :: u16
  r_edi :: u32
  r_esi :: u32
  r_ebp :: u32
  r_esp :: u32
  r_ebx :: u32
  r_edx :: u32
  r_ecx :: u32
  r_eax :: u32
  int_no :: u32
  err_code :: u32
  r_eip :: u32
  r_cs :: u32
  r_eflags :: u32
  r_useresp :: u32
  r_ss :: u32

text \<open>The functions whose addresses the kernel registers as handlers.\<close>

datatype handler =
  Timer_callback | Keyboard_handler | Mouse_handler | Fdc_handler | Page_fault_handler

section \<open>Static variables\<close>

record console =
  con_attr :: u8
  curX :: u8
  curY :: u8

record VGA_char_t =
  vch :: u8
  vcol :: u8

record mouse_state =
  mouse_x :: "16 word"
  mouse_y :: "16 word"
  old_mouse_x :: "16 word"
  old_mouse_y :: "16 word"
  saved_char :: VGA_char_t

record key_mod_t =
  lshift :: bool
  rshift :: bool
  lctrl :: bool
  rctrl :: bool
  lalt :: bool
  ralt :: bool

record pmm_state =
  total_frames :: u32
  used_frames :: u32
  frames_map :: u32

record vmm_state =
  kernel_directory :: u32
  current_directory :: u32

record fdc_state =
  fdc_irq :: bool
  dma_buf :: u32

record boot_MEM_MAP_Info_Entry_t =
  base_addr_lo :: u32
  base_addr_hi :: u32
  length_lo :: u32
  length_hi :: u32
  mtype :: u32
  acpi :: u32

record boot_SYS_Info_t =
  begin_marker :: u32
  tot_mem :: u32
  kernel_size :: u32
  boot_drive :: u8
  num_mem_map_entries :: u8
  mem_map_entries :: "boot_MEM_MAP_Info_Entry_t list"
  end_marker :: u32

section \<open>Machines\<close>

record machine =
  hw :: "event list \<Rightarrow> u16 \<Rightarrow> u8"
  hw16 :: "event list \<Rightarrow> u16 \<Rightarrow> u16"
  symaddr :: "symbol \<Rightarrow> u32"
  irq_sched :: "ISR_registers_t list list"
  trace :: "event list"
  ram :: memory
  iflag :: bool
  eflags_stack :: "bool list"
  cr0 :: u32
  cr2 :: u32
  cr3 :: u32
  con :: console
  gdtd :: "GDT_descriptor_t list"
  idtd :: "IDT_descriptor_t list"
  isr_handlers :: "handler option list"
  ticks :: u32
  pmm :: pmm_state
  vmm :: vmm_state
  ring :: ring_buf_t
  mouse :: mouse_state
  key_mod :: key_mod_t
  fdc :: fdc_state
  sys_info :: boot_SYS_Info_t

section \<open>Programs\<close>

text \<open>
  Why a program does not return: \<^verbatim>\<open>KERNEL_PANIC\<close> (message, file, line), behaviour that C
  leaves undefined (with the reason), or a wait for an interrupt that never comes.
\<close>

datatype stop = Panic cstring cstring nat | Undefined string | Hang

datatype 'a outcome = Done 'a machine | Stop stop machine

type_synonym 'a K = "machine \<Rightarrow> 'a outcome"

definition ret :: "'a \<Rightarrow> 'a K" where
  "ret x m = Done x m"

definition stop :: "stop \<Rightarrow> 'a K" where
  "stop r m = Stop r m"

definition bind :: "'a K \<Rightarrow> ('a \<Rightarrow> 'b K) \<Rightarrow> 'b K" where
  "bind k f m = (case k m of Done x m1 \<Rightarrow> f x m1 | Stop r m1 \<Rightarrow> Stop r m1)"

text \<open>A sequence of statements, run in order.\<close>

primrec exec :: "unit K list \<Rightarrow> unit K" where
  "exec [] = ret ()"
| "exec (k # ks) = bind k (\<lambda>_. exec ks)"

text \<open>A counted loop, as the list of the values its variable takes.\<close>

primrec for_each :: "('i \<Rightarrow> unit K) \<Rightarrow> 'i list \<Rightarrow> unit K" where
  "for_each f [] = ret ()"
| "for_each f (x # xs) = bind (f x) (\<lambda>_. for_each f xs)"

definition k_when :: "bool \<Rightarrow> unit K \<Rightarrow> unit K" where
  "k_when b k = (if b then k else ret ())"

definition modify :: "(machine \<Rightarrow> machine) \<Rightarrow> unit K" where
  "modify f m = Done () (f m)"

definition gets :: "(machine \<Rightarrow> 'a) \<Rightarrow> 'a K" where
  "gets f m = Done (f m) m"

definition undefined_if :: "bool \<Rightarrow> string \<Rightarrow> unit K" where
  "undefined_if b s = (if b then stop (Undefined s) else ret ())"

definition log :: "event \<Rightarrow> unit K" where
  "log e = modify (\<lambda>m. m\<lparr>trace := trace m @ [e]\<rparr>)"

section \<open>Port access and privileged instructions\<close>

text \<open>\<^verbatim>\<open>arch/x86/io.c\<close>: the device's answer depends on everything done before.\<close>

definition inb :: "u16 \<Rightarrow> u8 K" where
  "inb port m = (let v = hw m (trace m) port in Done v (m\<lparr>trace := trace m @ [In8 port v]\<rparr>))"

definition outb :: "u16 \<Rightarrow> u8 \<Rightarrow> unit K" where
  "outb port data = log (Out8 port data)"

definition inw :: "u16 \<Rightarrow> u16 K" where
  "inw port m = (let v = hw16 m (trace m) port in Done v (m\<lparr>trace := trace m @ [In16 port v]\<rparr>))"

definition outw :: "u16 \<Rightarrow> u16 \<Rightarrow> unit K" where
  "outw port data = log (Out16 port data)"

definition cli :: "unit K" where
  "cli = exec [log Cli, modify (iflag_update (\<lambda>_. False))]"

definition sti :: "unit K" where
  "sti = exec [log Sti, modify (iflag_update (\<lambda>_. True))]"

definition hlt :: "unit K" where
  "hlt = log Hlt"

definition pushfd :: "unit K" where
  "pushfd = exec [log Pushfd, modify (\<lambda>m. m\<lparr>eflags_stack := iflag m # eflags_stack m\<rparr>)]"

definition popfd :: "unit K" where
  "popfd m = (case eflags_stack m of
       [] \<Rightarrow> Stop (Undefined ''popfd on an empty stack'') m
     | f # fs \<Rightarrow> exec [log Popfd, modify (\<lambda>m. m\<lparr>iflag := f, eflags_stack := fs\<rparr>)] m)"

definition store8 :: "u32 \<Rightarrow> u8 \<Rightarrow> unit K" where
  "store8 a v = modify (ram_update (\<lambda>r. r(a := v)))"

section \<open>Lemmas: execution\<close>

lemmas machine_run [run] = ret_def stop_def bind_def modify_def gets_def k_when_def undefined_if_def
  log_def inb_def outb_def cli_def sti_def hlt_def store8_def

lemma ram_update_eq: "ram_update f m = m\<lparr>ram := f (ram m)\<rparr>"
  by (cases m) simp

lemma closed_ram_update: "(\<And>m f. I m \<Longrightarrow> I (m\<lparr>ram := f\<rparr>)) \<Longrightarrow> I m \<Longrightarrow> I (ram_update g m)"
  by (subst ram_update_eq) blast

lemma bind_assoc: "bind (bind k f) g = bind k (\<lambda>x. bind (f x) g)"
  by (rule ext) (simp add: bind_def split: outcome.splits)

lemma bind_ret [simp]: "bind k ret = k"
  by (rule ext) (simp add: bind_def ret_def split: outcome.splits)

lemma ret_bind [simp]: "bind (ret x) f = f x"
  by (rule ext) (simp add: bind_def ret_def)

lemma stop_bind [simp]: "bind (stop r) f = stop r"
  by (rule ext) (simp add: bind_def stop_def)

lemma bind_modify [simp]: "bind (modify g) k m = k () (g m)"
  by (simp add: bind_def modify_def)

lemma bind_gets [simp]: "bind (gets g) k m = k (g m) m"
  by (simp add: bind_def gets_def)

lemma exec_append: "exec (xs @ ys) = bind (exec xs) (\<lambda>_. exec ys)"
  by (induction xs) (simp_all add: bind_assoc)

lemma for_each_append: "for_each f (xs @ ys) = bind (for_each f xs) (\<lambda>_. for_each f ys)"
  by (induction xs) (simp_all add: bind_assoc)

section \<open>Lemmas: triples\<close>

text \<open>
  \<open>triple P k Q E\<close>: started in a machine with \<open>P\<close>, the program \<open>k\<close> either returns \<open>x\<close> in a
  machine with \<open>Q x\<close> or stops for a reason \<open>r\<close> in a machine with \<open>E r\<close>.
\<close>

definition triple :: "(machine \<Rightarrow> bool) \<Rightarrow> 'a K \<Rightarrow> ('a \<Rightarrow> machine \<Rightarrow> bool)
    \<Rightarrow> (stop \<Rightarrow> machine \<Rightarrow> bool) \<Rightarrow> bool" where
  "triple P k Q E \<longleftrightarrow>
     (\<forall>m. P m \<longrightarrow> (case k m of Done x m1 \<Rightarrow> Q x m1 | Stop r m1 \<Rightarrow> E r m1))"

text \<open>\<open>I\<close> is kept by the program, whether it returns or stops.\<close>

definition preserves :: "(machine \<Rightarrow> bool) \<Rightarrow> 'a K \<Rightarrow> bool" where
  "preserves I k \<longleftrightarrow> triple I k (\<lambda>_. I) (\<lambda>_. I)"

text \<open>Under \<open>I\<close>, which it keeps, the program returns or stops for one of the reasons in \<open>R\<close>.\<close>

definition stops_only :: "(stop \<Rightarrow> bool) \<Rightarrow> 'a K \<Rightarrow> bool" where
  "stops_only R k \<longleftrightarrow> triple (\<lambda>_. True) k (\<lambda>_ _. True) (\<lambda>r _. R r)"

lemma tripleD_Done: "triple P k Q E \<Longrightarrow> P m \<Longrightarrow> k m = Done x m1 \<Longrightarrow> Q x m1"
  by (auto simp: triple_def split: outcome.splits)

lemma tripleD_Stop: "triple P k Q E \<Longrightarrow> P m \<Longrightarrow> k m = Stop r m1 \<Longrightarrow> E r m1"
  by (auto simp: triple_def split: outcome.splits)

lemma triple_bind:
  "triple P k Q E \<Longrightarrow> (\<And>x. triple (Q x) (f x) R E) \<Longrightarrow> triple P (bind k f) R E"
  unfolding triple_def bind_def by (fastforce split: outcome.splits)

lemma triple_weaken:
  "triple P k Q E \<Longrightarrow> (\<And>m. P' m \<Longrightarrow> P m) \<Longrightarrow> (\<And>x m. Q x m \<Longrightarrow> Q' x m)
     \<Longrightarrow> (\<And>r m. E r m \<Longrightarrow> E' r m) \<Longrightarrow> triple P' k Q' E'"
  unfolding triple_def by (fastforce split: outcome.splits)

lemma preserves_ret [frame]: "preserves I (ret x)"
  by (simp add: preserves_def triple_def ret_def)

lemma preserves_stop [frame]: "preserves I (stop r)"
  by (simp add: preserves_def triple_def stop_def)

lemma preserves_gets [frame]: "preserves I (gets f)"
  by (simp add: preserves_def triple_def gets_def)

lemma preserves_modify [frame]: "(\<And>m. I m \<Longrightarrow> I (f m)) \<Longrightarrow> preserves I (modify f)"
  by (simp add: preserves_def triple_def modify_def)

lemma preserves_bind [frame]:
  "preserves I k \<Longrightarrow> (\<And>x. preserves I (f x)) \<Longrightarrow> preserves I (bind k f)"
  unfolding preserves_def by (rule triple_bind)

lemma preserves_exec [frame]: "(\<And>k. k \<in> set ks \<Longrightarrow> preserves I k) \<Longrightarrow> preserves I (exec ks)"
  by (induction ks) (auto intro: preserves_ret preserves_bind)

lemma preserves_for_each [frame]:
  "(\<And>x. x \<in> set xs \<Longrightarrow> preserves I (f x)) \<Longrightarrow> preserves I (for_each f xs)"
  by (induction xs) (auto intro: preserves_ret preserves_bind)

lemma preserves_if [frame]:
  "(b \<Longrightarrow> preserves I k) \<Longrightarrow> (\<not> b \<Longrightarrow> preserves I l) \<Longrightarrow> preserves I (if b then k else l)"
  by simp

lemma preserves_when [frame]: "(b \<Longrightarrow> preserves I k) \<Longrightarrow> preserves I (k_when b k)"
  by (simp add: k_when_def preserves_ret)

lemma preserves_undefined_if [frame]: "preserves I (undefined_if b s)"
  by (simp add: undefined_if_def preserves_ret preserves_stop)

lemma preserves_case_option [frame]:
  "preserves I k \<Longrightarrow> (\<And>x. preserves I (f x)) \<Longrightarrow> preserves I (case y of None \<Rightarrow> k | Some x \<Rightarrow> f x)"
  by (simp split: option.splits)

lemma preserves_case_prod [frame]:
  "(\<And>a b. preserves I (f a b)) \<Longrightarrow> preserves I (case y of (a, b) \<Rightarrow> f a b)"
  by (simp split: prod.splits)

lemma preserves_inb [frame]: "(\<And>m t. I m \<Longrightarrow> I (m\<lparr>trace := t\<rparr>)) \<Longrightarrow> preserves I (inb p)"
  by (simp add: preserves_def triple_def inb_def Let_def)

lemma preserves_log [frame]: "(\<And>m t. I m \<Longrightarrow> I (m\<lparr>trace := t\<rparr>)) \<Longrightarrow> preserves I (log e)"
  by (simp add: preserves_def triple_def log_def modify_def)

lemma preserves_outb [frame]: "(\<And>m t. I m \<Longrightarrow> I (m\<lparr>trace := t\<rparr>)) \<Longrightarrow> preserves I (outb p v)"
  by (simp add: outb_def preserves_log)

lemma preserves_Done: "preserves I k \<Longrightarrow> I m \<Longrightarrow> k m = Done x m1 \<Longrightarrow> I m1"
  unfolding preserves_def by (erule tripleD_Done)

lemma preserves_Stop: "preserves I k \<Longrightarrow> I m \<Longrightarrow> k m = Stop r m1 \<Longrightarrow> I m1"
  unfolding preserves_def by (erule tripleD_Stop)

lemma preserves_conj:
  "preserves I k \<Longrightarrow> preserves J k \<Longrightarrow> preserves (\<lambda>m. I m \<and> J m) k"
  unfolding preserves_def triple_def
proof (intro allI impI)
  fix m
  assume "\<forall>m. I m \<longrightarrow> (case k m of Done x m1 \<Rightarrow> I m1 | Stop r m1 \<Rightarrow> I m1)"
    "\<forall>m. J m \<longrightarrow> (case k m of Done x m1 \<Rightarrow> J m1 | Stop r m1 \<Rightarrow> J m1)" "I m \<and> J m"
  then show "case k m of Done x m1 \<Rightarrow> I m1 \<and> J m1 | Stop r m1 \<Rightarrow> I m1 \<and> J m1"
    by (cases "k m") (metis outcome.case)+
qed

text \<open>The same rules for the reasons a program may stop.\<close>

lemma stops_only_ret [frame]: "stops_only R (ret x)"
  by (simp add: stops_only_def triple_def ret_def)

lemma stops_only_stop [frame]: "R r \<Longrightarrow> stops_only R (stop r)"
  by (simp add: stops_only_def triple_def stop_def)

lemma stops_only_gets [frame]: "stops_only R (gets f)"
  by (simp add: stops_only_def triple_def gets_def)

lemma stops_only_modify [frame]: "stops_only R (modify f)"
  by (simp add: stops_only_def triple_def modify_def)

lemma stops_only_bind [frame]:
  "stops_only R k \<Longrightarrow> (\<And>x. stops_only R (f x)) \<Longrightarrow> stops_only R (bind k f)"
  unfolding stops_only_def by (rule triple_bind)

lemma stops_only_exec [frame]: "(\<And>k. k \<in> set ks \<Longrightarrow> stops_only R k) \<Longrightarrow> stops_only R (exec ks)"
  by (induction ks) (auto intro: stops_only_ret stops_only_bind)

lemma stops_only_for_each [frame]:
  "(\<And>x. x \<in> set xs \<Longrightarrow> stops_only R (f x)) \<Longrightarrow> stops_only R (for_each f xs)"
  by (induction xs) (auto intro: stops_only_ret stops_only_bind)

lemma stops_only_if [frame]:
  "(b \<Longrightarrow> stops_only R k) \<Longrightarrow> (\<not> b \<Longrightarrow> stops_only R l) \<Longrightarrow> stops_only R (if b then k else l)"
  by simp

lemma stops_only_when [frame]: "(b \<Longrightarrow> stops_only R k) \<Longrightarrow> stops_only R (k_when b k)"
  by (simp add: k_when_def stops_only_ret)

lemma stops_only_log [frame]: "stops_only R (log e)"
  by (simp add: log_def stops_only_modify)

lemma stops_only_outb [frame]: "stops_only R (outb p v)"
  by (simp add: outb_def stops_only_log)

lemma stops_only_inb [frame]: "stops_only R (inb p)"
  by (simp add: stops_only_def triple_def inb_def Let_def)

lemma stops_onlyD: "stops_only R k \<Longrightarrow> k m = Stop r m1 \<Longrightarrow> R r"
  by (auto simp: stops_only_def triple_def split: outcome.splits)

end
