(* ===== verification/Bitset.thy ===== *)
theory Bitset
  imports Memory
begin

text \<open>
  \<^verbatim>\<open>lib/bitset.c\<close>: a bitset over an array of 32-bit words in memory.  The pointer is the
  address of the array.  Word-level operations are shown to act on single bits of single bytes,
  and the bitset is shown to satisfy the laws of an abstract array of bits.
\<close>

section \<open>Operations\<close>

definition BITSET_SIZE :: u32 where
  "BITSET_SIZE = 32"

definition BITSET_INDEX :: "u32 \<Rightarrow> u32" where
  "BITSET_INDEX x = x div BITSET_SIZE"

definition BITSET_OFFSET :: "u32 \<Rightarrow> u32" where
  "BITSET_OFFSET x = x mod BITSET_SIZE"

text \<open>The address of \<^verbatim>\<open>bitset[i]\<close>.\<close>

definition bitset_word :: "u32 \<Rightarrow> u32 \<Rightarrow> u32" where
  "bitset_word bitset i = bitset + 4 * i"

definition bitset_set :: "u32 \<Rightarrow> u32 \<Rightarrow> memory \<Rightarrow> memory" where
  "bitset_set bitset b r = (let a = bitset_word bitset (BITSET_INDEX b) in
     store32 a (load32 r a OR push_bit (unat (BITSET_OFFSET b)) 1) r)"

definition bitset_clear :: "u32 \<Rightarrow> u32 \<Rightarrow> memory \<Rightarrow> memory" where
  "bitset_clear bitset b r = (let a = bitset_word bitset (BITSET_INDEX b) in
     store32 a (load32 r a AND NOT (push_bit (unat (BITSET_OFFSET b)) 1)) r)"

definition bitset_test :: "u32 \<Rightarrow> u32 \<Rightarrow> memory \<Rightarrow> bool" where
  "bitset_test bitset b r \<longleftrightarrow>
     load32 r (bitset_word bitset (BITSET_INDEX b)) AND push_bit (unat (BITSET_OFFSET b)) 1 \<noteq> 0"

text \<open>
  The innermost loop of \<^verbatim>\<open>bitset_find\<close>: count the clear bits among \<open>startPos + k\<close>, and
  succeed as soon as the count is \<open>size\<close>.
\<close>

primrec count_free :: "u32 \<Rightarrow> memory \<Rightarrow> u32 \<Rightarrow> u32 \<Rightarrow> nat list \<Rightarrow> u32 \<Rightarrow> bool" where
  "count_free bitset r startPos sz [] free = False"
| "count_free bitset r startPos sz (k # ks) free =
     (let free' = (if \<not> bitset_test bitset (startPos + of_nat k) r then free + 1 else free)
      in if free' = sz then True else count_free bitset r startPos sz ks free')"

text \<open>
  The body of the two outer loops.  \<open>None\<close> continues with the next bit, \<open>Some res\<close> returns:
  \<open>Some (Some pos)\<close> is \<^verbatim>\<open>return true\<close> with \<^verbatim>\<open>*pos\<close> stored, \<open>Some None\<close> is
  \<^verbatim>\<open>return false\<close>.  The start position is \<open>i * 32 + 2 ^ j\<close>, as in the source.
  \<^verbatim>\<open>1 << 31\<close> is the bit 31 of the word, as compilers for this target have it; the C standard leaves
  the shift of a signed 1 into the sign bit undefined.
\<close>

definition bitset_find_body :: "u32 \<Rightarrow> memory \<Rightarrow> u32 \<Rightarrow> u32 \<Rightarrow> nat \<Rightarrow> nat \<Rightarrow> u32 option option" where
  "bitset_find_body bitset r bitset_size sz i j =
     (let bt = push_bit j (1 :: u32) in
      if load32 r (bitset_word bitset (of_nat i)) AND bt = 0 then
        (let startPos = of_nat i * BITSET_SIZE + bt in
         if startPos + sz > bitset_size then Some None
         else if count_free bitset r startPos sz [0..<unat sz + 1] 0
         then Some (Some (of_nat i * BITSET_SIZE + of_nat j))
         else None)
      else None)"

text \<open>
  The inner counter is the natural number \<open>k \<le> size\<close>: for every \<open>size < 2 ^ 32 - 1\<close> that is the
  loop of the source, whose 32-bit \<open>k\<close> then never wraps around.
\<close>

definition bitset_find :: "u32 \<Rightarrow> u32 \<Rightarrow> u32 \<Rightarrow> memory \<Rightarrow> u32 option" where
  "bitset_find bitset bitset_size sz r =
     (if sz = 0 then None
      else case first_return (\<lambda>i. first_return (bitset_find_body bitset r bitset_size sz i) [0..<32])
                  [0..<unat (bitset_size div BITSET_SIZE)] of
             None \<Rightarrow> None
           | Some res \<Rightarrow> res)"

section \<open>Bits of bytes\<close>

text \<open>Bit \<open>b\<close> of the bitset is bit \<open>b mod 8\<close> of its byte \<open>b div 8\<close>.\<close>

definition bit_addr :: "u32 \<Rightarrow> u32 \<Rightarrow> u32" where
  "bit_addr bitset b = bitset + b div 8"

lemma unat_div_numeral_u32:
  "unat ((b :: u32) div 8) = unat b div 8" "unat (b div 32) = unat b div 32"
  "unat (b mod 32) = unat b mod 32" "unat (b mod 8) = unat b mod 8"
  by (simp_all add: unat_div unat_mod)

lemma div_add_mult_8: "(s + 8 * t) div 8 = t + s div (8 :: nat)"
  by simp

lemma word_index_split:
  "4 * (b div 32) + of_nat (unat (b mod 32) div 8) = (b :: u32) div 8"
proof -
  have "unat b = unat b mod 32 + 8 * (4 * (unat b div 32))" by simp
  then have "unat b div 8 = (unat b mod 32 + 8 * (4 * (unat b div 32))) div 8" by metis
  also have "\<dots> = 4 * (unat b div 32) + unat (b mod 32) div 8"
    by (simp only: div_add_mult_8 unat_div_numeral_u32)
  finally have "unat (b div 8) = 4 * (unat b div 32) + unat (b mod 32) div 8"
    by (simp only: unat_div_numeral_u32)
  from arg_cong [OF this, of "of_nat :: nat \<Rightarrow> u32"]
  have "b div 8 = of_nat (4 * (unat b div 32) + unat (b mod 32) div 8)"
    by (simp only: of_nat_unat ucast_id)
  also have "\<dots> = 4 * of_nat (unat (b div 32)) + of_nat (unat (b mod 32) div 8)"
    by (simp add: unat_div_numeral_u32)
  finally show ?thesis by simp
qed

lemma bit_addr_word:
  "bit_addr p b = p + 4 * (b div 32) + of_nat (unat (b mod 32) div 8)"
  by (simp add: bit_addr_def add.assoc word_index_split)

lemma offset_mod_8: "unat (b mod 32 :: u32) mod 8 = unat (b mod 8)"
  by (simp add: unat_div_numeral_u32 mod_mod_cancel)

lemma test_byte: "bitset_test p b r \<longleftrightarrow> bit (r (bit_addr p b)) (unat (b mod 8))"
proof -
  have lt: "unat (b mod 32) < 32" by (simp add: unat_div_numeral_u32)
  have "bitset_test p b r \<longleftrightarrow> bit (load32 r (p + 4 * (b div 32))) (unat (b mod 32))"
    using lt by (simp add: bitset_test_def bitset_word_def BITSET_INDEX_def BITSET_OFFSET_def
        BITSET_SIZE_def bit_iff_and_push_bit [of _ "unat (b mod 32)"])
  then show ?thesis
    using lt by (simp add: bit_load32 offset_mod_8 bit_addr_word)
qed

text \<open>A word of memory rewritten with one bit changed changes one bit of one byte.\<close>

lemma store32_one_bit:
  assumes off: "off < 32"
    and w: "\<And>n. n < 32 \<Longrightarrow> bit w n \<longleftrightarrow> (if n = off then v else bit (load32 r a) n)"
    and y: "\<And>n. n < 8 \<Longrightarrow> bit y n \<longleftrightarrow> (if n = off mod 8 then v else bit (r (a + of_nat (off div 8))) n)"
  shows "store32 a w r = r(a + of_nat (off div 8) := y)"
proof (rule ext)
  fix x
  from off have od: "off div 8 < 4" by (simp add: less_mult_imp_div_less)
  show "store32 a w r x = (r(a + of_nat (off div 8) := y)) x"
  proof (cases "in_region a 4 x")
    case True
    then obtain k where k: "k < 4" "x = a + of_nat k" by (blast dest: in_region_ex)
    then have u: "unat (of_nat k :: u32) = k" by (simp add: unat_of_nat_small)
    have eq: "(of_nat k :: u32) = of_nat (off div 8) \<longleftrightarrow> k = off div 8"
      using k od by (simp add: of_nat_inj_small)
    have "bit (ucast (drop_bit (8 * k) w) :: u8) n \<longleftrightarrow> bit ((r(a + of_nat (off div 8) := y)) x) n"
      if n: "n < 8" for n
    proof -
      have split: "8 * k + n = off \<longleftrightarrow> k = off div 8 \<and> n = off mod 8"
        using n by auto
      have "bit (ucast (drop_bit (8 * k) w) :: u8) n \<longleftrightarrow> bit w (8 * k + n)"
        using n k by (simp add: bit_simps)
      also have "\<dots> \<longleftrightarrow> (if 8 * k + n = off then v else bit (r (a + of_nat k)) n)"
        using n k by (simp add: w bit_load32)
      also have "\<dots> \<longleftrightarrow> bit ((r(a + of_nat (off div 8) := y)) x) n"
        using n by (simp add: split k(2) eq y)
      finally show ?thesis .
    qed
    with True u k show ?thesis by (auto simp: store32_apply intro: bit_word_eqI)
  next
    case False
    with od have "x \<noteq> a + of_nat (off div 8)" by (auto simp: in_region_offset)
    with False show ?thesis by (simp add: store32_apply)
  qed
qed

lemma set_byte:
  "bitset_set p b r = r(bit_addr p b := r (bit_addr p b) OR push_bit (unat (b mod 8)) 1)"
  unfolding bitset_set_def bitset_word_def BITSET_INDEX_def BITSET_OFFSET_def BITSET_SIZE_def
    Let_def bit_addr_word
  by (rule store32_one_bit [where v = True])
     (auto simp: mod_mod_cancel unat_div_numeral_u32 bit_simps)

lemma clear_byte:
  "bitset_clear p b r = r(bit_addr p b := r (bit_addr p b) AND NOT (push_bit (unat (b mod 8)) 1))"
  unfolding bitset_clear_def bitset_word_def BITSET_INDEX_def BITSET_OFFSET_def BITSET_SIZE_def
    Let_def bit_addr_word
  by (rule store32_one_bit [where v = False])
     (auto simp: mod_mod_cancel unat_div_numeral_u32 bit_simps)

lemma bit_addr_eq_iff: "bit_addr p b = bit_addr p c \<longleftrightarrow> b div 8 = c div 8"
  by (simp add: bit_addr_def)

lemma bit_index_byte:
  assumes "b div 8 = c div 8" "b mod 8 = c mod 8"
  shows "b = (c :: u32)"
proof -
  have "unat b = unat b div 8 * 8 + unat b mod 8" by simp
  also have "\<dots> = unat c div 8 * 8 + unat c mod 8"
    using assms by (metis unat_div_numeral_u32(1) unat_div_numeral_u32(4))
  also have "\<dots> = unat c" by simp
  finally show ?thesis by (simp add: word_unat_eq_iff)
qed

lemma bit_index_less: "unat ((b :: u32) mod 8) < 8"
  by (simp add: unat_div_numeral_u32)

section \<open>The contract of an array of bits\<close>

locale bit_array =
  fixes set_bit :: "'i \<Rightarrow> 's \<Rightarrow> 's"
    and clear_bit :: "'i \<Rightarrow> 's \<Rightarrow> 's"
    and test_bit :: "'i \<Rightarrow> 's \<Rightarrow> bool"
  assumes test_set: "test_bit c (set_bit b s) \<longleftrightarrow> b = c \<or> test_bit c s"
    and test_clear: "test_bit c (clear_bit b s) \<longleftrightarrow> b \<noteq> c \<and> test_bit c s"
begin

lemma test_fold_set: "test_bit c (fold set_bit bs s) \<longleftrightarrow> c \<in> set bs \<or> test_bit c s"
  by (induction bs arbitrary: s) (auto simp: test_set)

lemma test_fold_clear: "test_bit c (fold clear_bit bs s) \<longleftrightarrow> c \<notin> set bs \<and> test_bit c s"
  by (induction bs arbitrary: s) (auto simp: test_clear)

lemma set_count:
  assumes "finite U" "set bs \<subseteq> U" "distinct bs" "\<And>b. b \<in> set bs \<Longrightarrow> \<not> test_bit b s"
  shows "card {c \<in> U. test_bit c (fold set_bit bs s)} = card {c \<in> U. test_bit c s} + length bs"
proof -
  have "{c \<in> U. test_bit c (fold set_bit bs s)} = {c \<in> U. test_bit c s} \<union> set bs"
    using assms(2) by (auto simp: test_fold_set)
  moreover have "{c \<in> U. test_bit c s} \<inter> set bs = {}" using assms(4) by auto
  ultimately show ?thesis
    using assms(1,3) by (simp add: card_Un_disjoint distinct_card)
qed

lemma clear_count:
  assumes "finite U" "set bs \<subseteq> U" "distinct bs" "\<And>b. b \<in> set bs \<Longrightarrow> test_bit b s"
  shows "card {c \<in> U. test_bit c (fold clear_bit bs s)} + length bs = card {c \<in> U. test_bit c s}"
proof -
  have "{c \<in> U. test_bit c s} = {c \<in> U. test_bit c (fold clear_bit bs s)} \<union> set bs"
    using assms(2,4) by (auto simp: test_fold_clear)
  moreover have "{c \<in> U. test_bit c (fold clear_bit bs s)} \<inter> set bs = {}"
    by (auto simp: test_fold_clear)
  ultimately show ?thesis
    using assms(1,3) by (simp add: card_Un_disjoint distinct_card)
qed

end

interpretation bitset: bit_array "bitset_set p" "bitset_clear p" "bitset_test p" for p
proof unfold_locales
  fix b c :: u32 and r :: memory
  have eq: "unat (b mod 8) = unat (c mod 8) \<longleftrightarrow> b = c" if "b div 8 = c div 8"
    using that by (auto simp: word_unat_eq_iff [symmetric] intro: bit_index_byte)
  show "bitset_test p c (bitset_set p b r) \<longleftrightarrow> b = c \<or> bitset_test p c r"
    using bit_index_less [of b] bit_index_less [of c] eq
    by (cases "b div 8 = c div 8") (auto simp: test_byte set_byte bit_addr_def bit_simps)
  show "bitset_test p c (bitset_clear p b r) \<longleftrightarrow> b \<noteq> c \<and> bitset_test p c r"
    using bit_index_less [of b] bit_index_less [of c] eq
    by (cases "b div 8 = c div 8") (auto simp: test_byte clear_byte bit_addr_def bit_simps)
qed

section \<open>Searching\<close>

lemma unat_bit_pos:
  assumes "i < 2 ^ 27" "j < 32"
  shows "unat (of_nat i * 32 + of_nat j :: u32) = 32 * i + j"
proof -
  have "(of_nat i * 32 + of_nat j :: u32) = of_nat (32 * i + j)" by simp
  moreover have "unat (of_nat (32 * i + j) :: u32) = 32 * i + j"
    using assms by (intro unat_of_nat_small) simp
  ultimately show ?thesis by (simp only:)
qed

lemma word_bit_test:
  assumes i: "i < 2 ^ 27" and j: "j < 32"
  shows "load32 r (bitset_word p (of_nat i)) AND push_bit j 1 = 0
    \<longleftrightarrow> \<not> bitset_test p (of_nat i * 32 + of_nat j) r"
proof -
  let ?b = "of_nat i * 32 + of_nat j :: u32"
  have u: "unat ?b = 32 * i + j" by (rule unat_bit_pos [OF i j])
  have "unat (?b div 32) = i" "unat (?b mod 32) = j"
    using j by (simp_all only: unat_div_numeral_u32 u) simp_all
  moreover have "?b div 32 = of_nat (unat (?b div 32))" by simp
  ultimately show ?thesis
    by (simp only: bitset_test_def BITSET_INDEX_def BITSET_OFFSET_def BITSET_SIZE_def) simp
qed

lemma find_body_Some:
  assumes "bitset_find_body p r n sz i j = Some (Some pos)" "i < 2 ^ 27" "j < 32"
  shows "pos = of_nat i * 32 + of_nat j \<and> \<not> bitset_test p pos r"
  using assms
  by (auto simp: bitset_find_body_def Let_def BITSET_SIZE_def word_bit_test
      simp del: push_bit_of_1 split: if_splits)

lemma find_words_bound: "unat (n div BITSET_SIZE) < 2 ^ 27"
proof -
  have "unat n < 32 * 2 ^ 27" using unat_le_2p [of n] by simp
  then show ?thesis by (simp add: BITSET_SIZE_def unat_div_numeral_u32 less_mult_imp_div_less)
qed

text \<open>Whatever position is found, its own bit is clear and it lies inside the bitset.\<close>

lemma bitset_find_clear:
  assumes "bitset_find p n sz r = Some pos"
  shows "\<not> bitset_test p pos r \<and> unat pos < unat n \<and> sz \<noteq> 0"
proof -
  from assms have sz: "sz \<noteq> 0" by (auto simp: bitset_find_def)
  with assms obtain i j
    where i: "i < unat (n div BITSET_SIZE)" and j: "j < 32"
      and b: "bitset_find_body p r n sz i j = Some (Some pos)"
    by (auto simp: bitset_find_def dest!: first_return_SomeD split: option.splits if_splits)
  from i find_words_bound [of n] have i27: "i < 2 ^ 27" by linarith
  from find_body_Some [OF b i27 j] have pos: "pos = of_nat i * 32 + of_nat j"
    and t: "\<not> bitset_test p pos r" by auto
  from i have "32 * i + j < 32 * (unat n div 32) + j"
    by (simp add: BITSET_SIZE_def unat_div_numeral_u32)
  moreover from i j have "32 * i + j < unat n"
    by (simp add: BITSET_SIZE_def unat_div_numeral_u32)
  ultimately show ?thesis
    using t sz by (simp add: pos unat_bit_pos [OF i27 j])
qed

lemma find_body_used:
  "bitset_test p (of_nat i * 32 + of_nat j) r \<Longrightarrow> i < 2 ^ 27 \<Longrightarrow> j < 32 \<Longrightarrow>
     bitset_find_body p r n sz i j = None"
  by (simp add: bitset_find_body_def Let_def word_bit_test del: push_bit_of_1)

text \<open>The search decided by the first word of the array.\<close>

lemma bitset_find_first_word:
  assumes "32 \<le> unat n" "sz \<noteq> 0" "j < 32"
    and "\<And>j'. j' < j \<Longrightarrow> bitset_find_body p r n sz 0 j' = None"
    and "bitset_find_body p r n sz 0 j = Some res"
  shows "bitset_find p n sz r = res"
proof -
  have "[0..<32] = [0..<j] @ j # [Suc j..<32]"
    using assms(3) by (metis upt_conv_Cons upt_add_eq_append less_imp_le zero_le add_0 le_add_diff_inverse)
  then have "first_return (bitset_find_body p r n sz 0) [0..<32] = Some res"
    using assms(4,5) by (simp only:) (rule first_return_hit, auto)
  moreover have "[0..<unat (n div BITSET_SIZE)] = 0 # [1..<unat (n div BITSET_SIZE)]"
    using assms(1) by (simp add: BITSET_SIZE_def unat_div_numeral_u32 upt_conv_Cons)
  ultimately show ?thesis
    using assms(2) by (simp add: bitset_find_def)
qed

text \<open>An empty bitset: the first bit is found, for any size that leaves room for the probe.\<close>

lemma count_free_enough:
  assumes "\<And>k. k \<in> set ks \<Longrightarrow> \<not> bitset_test p (st + of_nat k) r"
    and "unat free < unat sz" "unat sz \<le> unat free + length ks"
  shows "count_free p r st sz ks free"
  using assms
proof (induction ks arbitrary: free)
  case Nil
  then show ?case by simp
next
  case (Cons k ks)
  have u: "unat (free + 1) = unat free + 1"
    using Cons.prems(2) unat_le_2p [of sz] by (simp add: unat_word_ariths)
  show ?case
  proof (cases "free + 1 = sz")
    case True
    with Cons.prems(1) show ?thesis by simp
  next
    case False
    then have "unat free + 1 \<noteq> unat sz" using u by (metis word_unat_eq_iff)
    with Cons.prems u have "count_free p r st sz ks (free + 1)"
      by (intro Cons.IH) auto
    with Cons.prems(1) False show ?thesis by simp
  qed
qed

lemma bitset_find_empty:
  assumes clear: "\<And>b. unat b < unat n \<Longrightarrow> \<not> bitset_test p b r"
    and n: "32 \<le> unat n" and sz: "0 < unat sz" "unat sz + 1 \<le> unat n"
  shows "bitset_find p n sz r = Some 0"
proof -
  have t0: "load32 r (bitset_word p (of_nat 0)) AND push_bit 0 1 = 0"
    using word_bit_test [of 0 0 r p] clear [of 0] n by simp
  have u: "unat (1 + sz) = 1 + unat sz"
    using sz(2) unat_le_2p [of n] by (simp add: unat_word_ariths)
  have "count_free p r 1 sz [0..<unat sz + 1] 0"
  proof -
    have "count_free p r 1 sz (butlast [0..<unat sz + 1]) 0"
    proof (rule count_free_enough)
      fix k
      assume "k \<in> set (butlast [0..<unat sz + 1])"
      then have "k < unat sz" by simp
      moreover from this have "unat (1 + of_nat k :: u32) = 1 + k"
        using sz(2) unat_le_2p [of n] by (simp add: unat_word_ariths unat_of_nat_small)
      ultimately show "\<not> bitset_test p (1 + of_nat k) r"
        using sz by (intro clear) simp
    qed (use sz in simp_all)
    moreover have "count_free p r 1 sz xs f \<Longrightarrow> count_free p r 1 sz (xs @ ys) f" for xs ys f
      by (induction xs arbitrary: f) (auto simp: Let_def)
    ultimately show ?thesis by simp
  qed
  then have "bitset_find_body p r n sz 0 0 = Some (Some 0)"
    using t0 sz u by (simp add: bitset_find_body_def word_le_nat_alt not_less)
  then show ?thesis
    using sz n by (intro bitset_find_first_word [where j = 0]) (auto simp: word_unat_eq_iff)
qed

section \<open>Properties\<close>

text \<open>
  C36. Setting and clearing a bit of the bitset changes one bit of one byte of memory, bit
  \<open>b mod 8\<close> of the byte \<open>b div 8\<close> bytes after the start of the array, and a test afterwards
  sees exactly that change.
\<close>

theorem bitset_refines_bits:
  "bitset_set p b r = r(p + b div 8 := r (p + b div 8) OR push_bit (unat (b mod 8)) 1)
   \<and> bitset_clear p b r = r(p + b div 8 := r (p + b div 8) AND NOT (push_bit (unat (b mod 8)) 1))
   \<and> (bitset_test p c (bitset_set p b r) \<longleftrightarrow> b = c \<or> bitset_test p c r)
   \<and> (bitset_test p c (bitset_clear p b r) \<longleftrightarrow> b \<noteq> c \<and> bitset_test p c r)"
  by (simp only: set_byte clear_byte bit_addr_def bitset.test_set [unfolded set_byte bit_addr_def]
      bitset.test_clear [unfolded clear_byte bit_addr_def])

text \<open>
  A position that \<^verbatim>\<open>bitset_find\<close> returns is inside the bitset and its own bit is
  clear, for every requested size.
\<close>

theorem bitset_find_sound:
  assumes "bitset_find p n sz r = Some pos"
  shows "\<not> bitset_test p pos r \<and> unat pos < unat n \<and> sz \<noteq> 0"
  using assms by (rule bitset_find_clear)

theorem bitset_find_sound_witness:
  "\<not> bitset_test 0x100000 0 (\<lambda>_. 0) \<and> unat (0 :: u32) < unat (64 :: u32) \<and> (3 :: u32) \<noteq> 0"
proof (rule bitset_find_sound)
  show "bitset_find 0x100000 64 3 (\<lambda>_. 0) = Some 0"
    by (rule bitset_find_empty) (simp_all add: test_byte)
qed

text \<open>
  On a bitset with no bit set, a request that leaves one spare bit is always served, at
  position 0.
\<close>

theorem bitset_find_on_empty:
  assumes "\<And>b. unat b < unat n \<Longrightarrow> \<not> bitset_test p b r"
    and "32 \<le> unat n" "0 < unat sz" "unat sz + 1 \<le> unat n"
  shows "bitset_find p n sz r = Some 0"
  using assms by (rule bitset_find_empty)

theorem bitset_find_on_empty_witness: "bitset_find 0x100000 64 3 (\<lambda>_. 0) = Some 0"
  by (rule bitset_find_on_empty) (simp_all add: test_byte)

text \<open>
  The probe of \<^verbatim>\<open>bitset_find\<close> starts at \<open>i * 32 + 2 ^ j\<close> instead of \<open>i * 32 + j\<close>:
  with only bit 1 set, a request for two bits is answered with position 0, whose second bit is
  in use; and with only the bits 0 to 9 of 64 set, a request for one bit fails.
\<close>

theorem bitset_find_probe_defect:
  "(let r = (\<lambda>_. 0)(p := 2) in
     bitset_find p 32 2 r = Some 0 \<and> bitset_test p 1 r)
   \<and> (let r = (\<lambda>_. 0)(p := 0xFF, p + 1 := 3) in
     bitset_find p 64 1 r = None \<and> \<not> bitset_test p 10 r)"
proof -
  let ?r = "(\<lambda>_. 0)(p := 2) :: memory" and ?s = "(\<lambda>_. 0)(p := 0xFF, p + 1 := 3) :: memory"
  have ks: "[0..<3] = [0, 1, 2 :: nat]" by (simp add: upt_rec)
  have "load32 ?r (bitset_word p (of_nat 0)) = 2"
    by (simp add: bitset_word_def load32_def)
  then have "bitset_find_body p ?r 32 2 0 0 = Some (Some 0)"
    by (simp add: bitset_find_body_def BITSET_SIZE_def ks test_byte bit_addr_def bit_numeral_rec)
  then have "bitset_find p 32 2 ?r = Some 0"
    by (intro bitset_find_first_word [where j = 0]) auto
  moreover have "bitset_test p 1 ?r" by (simp add: test_byte bit_addr_def)
  moreover have "bitset_find p 64 1 ?s = None"
  proof (rule bitset_find_first_word [where j = 10])
    fix j' :: nat
    assume "j' < 10"
    then have "j' \<in> set [0..<10]" by simp
    then have "bitset_test p (of_nat j') ?s"
      by (auto simp: upt_rec test_byte bit_addr_def bit_numeral_rec)
    then show "bitset_find_body p ?s 64 1 0 j' = None"
      using \<open>j' < 10\<close> by (intro find_body_used) auto
  next
    have "load32 ?s (bitset_word p (of_nat 0)) = 0x3FF"
      by (simp add: bitset_word_def load32_def)
    then show "bitset_find_body p ?s 64 1 0 10 = Some None"
      by (simp add: bitset_find_body_def BITSET_SIZE_def)
  qed simp_all
  moreover have "\<not> bitset_test p 10 ?s" by (simp add: test_byte bit_addr_def)
  ultimately show ?thesis by (simp only: Let_def) simp
qed

end
