(* ===== verification/Strings.thy ===== *)
theory Strings
  imports Prelude
begin

text \<open>
  \<^verbatim>\<open>lib/ctype.c\<close>, \<^verbatim>\<open>lib/string.c\<close> and \<^verbatim>\<open>lib/stdlib.c\<close>: character tests, string
  lengths and the conversions between numbers and strings.  A string argument is the list of
  the bytes of the object it points into; reading past its end, writing past the end of a local
  buffer, dividing by zero and signed overflow are \<open>None\<close>.
\<close>

section \<open>Characters and lengths\<close>

text \<open>Plain \<^verbatim>\<open>char\<close> is signed: bytes from 128 on are negative and no digits.\<close>

definition isdigit :: "u8 \<Rightarrow> bool" where
  "isdigit ch \<longleftrightarrow> sint ch \<ge> 48 \<and> sint ch \<le> 57"

primrec strlen_loop :: "cstring \<Rightarrow> u32 \<Rightarrow> u32 option" where
  "strlen_loop [] len = None"
| "strlen_loop (c # cs) len = (if c \<noteq> 0 then strlen_loop cs (len + 1) else Some len)"

definition strlen :: "cstring \<Rightarrow> u32 option" where
  "strlen str = strlen_loop str 0"

primrec strnlen_loop :: "u32 \<Rightarrow> cstring \<Rightarrow> u32 \<Rightarrow> u32 option" where
  "strnlen_loop max_length [] len = None"
| "strnlen_loop max_length (c # cs) len =
     (if c \<noteq> 0 \<and> len < max_length then strnlen_loop max_length cs (len + 1) else Some len)"

definition strnlen :: "cstring \<Rightarrow> u32 \<Rightarrow> u32 option" where
  "strnlen str max_length = strnlen_loop max_length str 0"

section \<open>Numbers\<close>

text \<open>\<^verbatim>\<open>res = res * 10 + str[i] - '0'\<close>, each intermediate value within \<^verbatim>\<open>int\<close>.\<close>

primrec atoi_loop :: "cstring \<Rightarrow> int \<Rightarrow> int option" where
  "atoi_loop [] res = None"
| "atoi_loop (c # cs) res =
     (if isdigit c then
        (if in_int32 (res * 10) \<and> in_int32 (res * 10 + sint c) \<and> in_int32 (res * 10 + sint c - 48)
         then atoi_loop cs (res * 10 + sint c - 48) else None)
      else Some res)"

definition atoi :: "cstring \<Rightarrow> int option" where
  "atoi str = atoi_loop str 0"

text \<open>The literal \<^verbatim>\<open>"0123456789ABCDEF"\<close>, with its terminating zero.\<close>

definition alphadigit :: cstring where
  "alphadigit = cstr ''0123456789ABCDEF'' @ [0]"

text \<open>The bytes stored to \<^verbatim>\<open>dst\<close>: \<^verbatim>\<open>src[size]\<close> down to \<^verbatim>\<open>src[0]\<close>, then a zero.\<close>

definition strcpy_r :: "cstring \<Rightarrow> nat \<Rightarrow> cstring" where
  "strcpy_r src sz = map (\<lambda>k. src ! (sz - k)) [0..<Suc sz] @ [0]"

text \<open>
  The \<^verbatim>\<open>do ... while (value > 0)\<close> loop that \<^verbatim>\<open>utoa\<close>, \<^verbatim>\<open>itoa\<close> and \<^verbatim>\<open>ltoa\<close> share, with
  \<open>cap\<close> the size of the local buffer and \<open>bs\<close> what is in it.  The value is never negative when
  the loop is entered, so truncated and floored division agree.
\<close>

function digits_loop :: "nat \<Rightarrow> int \<Rightarrow> int \<Rightarrow> cstring \<Rightarrow> cstring option" where
  "digits_loop cap base val bs =
     (if base = 0 then None
      else let r = val mod base; v = val div base in
        if r > 16 \<or> length bs \<ge> cap then None
        else let bs' = bs @ [alphadigit ! nat r] in
          if v > 0 then digits_loop cap base v bs' else Some bs')"
  by pat_completeness auto
termination
  by (relation "measure (\<lambda>(cap, base, val, bs). cap - length bs)") auto

declare digits_loop.simps [simp del]

text \<open>\<^verbatim>\<open>buf[i--] = 0; strcpy_r(buf, str, i);\<close>\<close>

definition store_reversed :: "nat \<Rightarrow> cstring \<Rightarrow> cstring option" where
  "store_reversed cap bs =
     (if length bs < cap then Some (strcpy_r (bs @ [0]) (length bs - 1)) else None)"

definition utoa :: "u32 \<Rightarrow> u8 \<Rightarrow> cstring option" where
  "utoa val base = Option.bind (digits_loop 12 (uint base) (uint val) []) (store_reversed 12)"

definition itoa :: "int \<Rightarrow> u8 \<Rightarrow> cstring option" where
  "itoa val base =
     (let bs = (if val < 0 then [0x2D] else []); v = (if val < 0 then - val else val) in
      if \<not> in_int32 v then None
      else Option.bind (digits_loop 13 (uint base) v bs) (store_reversed 13))"

text \<open>\<^verbatim>\<open>long\<close> has 32 bits on this target.\<close>

definition ltoa :: "int \<Rightarrow> u8 \<Rightarrow> cstring option" where
  "ltoa val base =
     (let bs = (if val < 0 then [0x2D] else []); v = (if val < 0 then - val else val) in
      if \<not> in_int32 v then None
      else Option.bind (digits_loop 21 (uint base) v bs) (store_reversed 21))"

section \<open>Reference: positional notation\<close>

function digits :: "int \<Rightarrow> int \<Rightarrow> int list" where
  "digits b v = (if v < b \<or> b < 2 then [v] else digits b (v div b) @ [v mod b])"
  by pat_completeness auto
termination
  by (relation "measure (\<lambda>(b, v). nat v)") (auto simp: int_div_less_self)

declare digits.simps [simp del]

definition value_of :: "int \<Rightarrow> int list \<Rightarrow> int" where
  "value_of b ds = foldl (\<lambda>a d. a * b + d) 0 ds"

definition digit_chars :: "int list \<Rightarrow> cstring" where
  "digit_chars ds = map (\<lambda>d. alphadigit ! nat d) ds"

section \<open>Lemmas\<close>

lemma strlen_loop_append:
  "0 \<notin> set xs \<Longrightarrow> strlen_loop (xs @ 0 # ys) len = Some (len + of_nat (length xs))"
  by (induction xs arbitrary: len) auto

lemma strlen_append: "0 \<notin> set xs \<Longrightarrow> strlen (xs @ 0 # ys) = Some (of_nat (length xs))"
  by (simp add: strlen_def strlen_loop_append)

lemma strnlen_loop_append:
  "0 \<notin> set xs \<Longrightarrow> unat len + length xs \<le> unat n \<Longrightarrow>
     strnlen_loop n (xs @ 0 # ys) len = Some (len + of_nat (length xs))"
proof (induction xs arbitrary: len)
  case Nil
  then show ?case by simp
next
  case (Cons x xs)
  have "unat (len + 1) = unat len + 1"
    using Cons.prems(2) unat_le_2p [of n] by (simp add: unat_word_ariths)
  with Cons show ?case by (simp add: word_less_nat_alt)
qed

lemma strnlen_append:
  "0 \<notin> set xs \<Longrightarrow> length xs \<le> unat n \<Longrightarrow> strnlen (xs @ 0 # ys) n = Some (of_nat (length xs))"
  by (simp add: strnlen_def strnlen_loop_append)

lemma strcpy_r_rev:
  assumes "bs \<noteq> []"
  shows "strcpy_r (bs @ [0]) (length bs - 1) = rev bs @ [0]"
proof -
  have "map (\<lambda>k. (bs @ [0]) ! (length bs - 1 - k)) [0..<Suc (length bs - 1)] = rev bs"
    using assms by (intro nth_equalityI) (auto simp: rev_nth nth_append)
  then show ?thesis by (simp only: strcpy_r_def)
qed

lemma digits_nonempty [simp]: "digits b v \<noteq> []"
  by (subst digits.simps) simp

lemma value_of_snoc: "value_of b (ds @ [d]) = value_of b ds * b + d"
  by (simp add: value_of_def)

lemma value_of_digits: "value_of b (digits b v) = v"
proof (induction b v rule: digits.induct)
  case (1 b v)
  show ?case
  proof (cases "v < b \<or> b < 2")
    case True
    then show ?thesis by (subst digits.simps) (simp add: value_of_def)
  next
    case False
    then show ?thesis using 1 by (subst digits.simps) (simp add: value_of_snoc)
  qed
qed

lemma digits_range: "2 \<le> b \<Longrightarrow> 0 \<le> v \<Longrightarrow> d \<in> set (digits b v) \<Longrightarrow> 0 \<le> d \<and> d < b"
proof (induction b v rule: digits.induct)
  case (1 b v)
  show ?case
  proof (cases "v < b")
    case True
    with 1 show ?thesis by (simp add: digits.simps [of b v])
  next
    case False
    have "0 \<le> v div b" using 1 by (simp add: pos_imp_zdiv_nonneg_iff)
    with False 1 show ?thesis by (auto simp: digits.simps [of b v])
  qed
qed

lemma length_digits_le:
  "2 \<le> b \<Longrightarrow> 0 \<le> v \<Longrightarrow> v < b ^ n \<Longrightarrow> 0 < n \<Longrightarrow> length (digits b v) \<le> n"
proof (induction b v arbitrary: n rule: digits.induct)
  case (1 b v)
  show ?case
  proof (cases "v < b")
    case True
    with 1 show ?thesis by (simp add: digits.simps [of b v])
  next
    case False
    with 1 have n1: "1 < n" by (cases "n = 1") auto
    then obtain k where k: "n = Suc k" "0 < k" by (cases n) auto
    have "b * (v div b) \<le> v"
      using "1.prems" mult_div_mod_eq [of b v] pos_mod_sign [of b v] by linarith
    also have "\<dots> < b * b ^ k" using "1.prems" k by simp
    finally have "v div b < b ^ k" using "1.prems" by simp
    moreover have "0 \<le> v div b" using 1 by (simp add: pos_imp_zdiv_nonneg_iff)
    ultimately have "length (digits b (v div b)) \<le> k"
      using "1.IH" [of k] False "1.prems" k by simp
    with False k "1.prems" show ?thesis by (simp add: digits.simps [of b v])
  qed
qed

text \<open>The loop leaves the digits in the buffer, least significant first.\<close>

lemma digits_loop_eq:
  assumes "2 \<le> b" "b \<le> 16" "0 \<le> v" "length bs + length (digits b v) \<le> cap"
  shows "digits_loop cap b v bs = Some (bs @ rev (digit_chars (digits b v)))"
  using assms
proof (induction b v arbitrary: bs rule: digits.induct)
  case (1 b v)
  have "v mod b < b" using "1.prems" by simp
  with "1.prems" have r: "\<not> 16 < v mod b" by linarith
  show ?case
  proof (cases "v < b")
    case True
    with "1.prems" show ?thesis
      by (simp add: digits_loop.simps [of cap b v bs] digits.simps [of b v] digit_chars_def Let_def)
  next
    case False
    then have pos: "v div b > 0" using "1.prems" by (simp add: pos_imp_zdiv_pos_iff)
    have len: "length (digits b v) = Suc (length (digits b (v div b)))"
      using False "1.prems" by (simp add: digits.simps [of b v])
    let ?bs = "bs @ [alphadigit ! nat (v mod b)]"
    have "digits_loop cap b (v div b) ?bs = Some (?bs @ rev (digit_chars (digits b (v div b))))"
      using False pos "1.prems" len by (intro "1.IH") auto
    with False pos r len "1.prems" show ?thesis
      by (simp add: digits_loop.simps [of cap b v bs] digits.simps [of b v] digit_chars_def Let_def)
  qed
qed

lemma alphadigit_chars: "0 \<le> d \<Longrightarrow> d < 16 \<Longrightarrow> alphadigit ! nat d \<noteq> 0"
proof -
  assume "0 \<le> d" "d < 16"
  then have "nat d \<in> set [0..<16]" by auto
  moreover have "\<forall>k \<in> set [0..<16]. alphadigit ! k \<noteq> 0"
    by (simp add: upt_rec alphadigit_def cstr_def)
  ultimately show ?thesis by blast
qed

lemma alphadigit_decimal: "0 \<le> d \<Longrightarrow> d < 10 \<Longrightarrow> sint (alphadigit ! nat d) = 48 + d"
proof -
  assume "0 \<le> d" "d < 10"
  then have "nat d \<in> set [0..<10]" by auto
  moreover have "\<forall>k \<in> set [0..<10]. sint (alphadigit ! k) = 48 + int k"
    by (simp add: upt_rec alphadigit_def cstr_def)
  ultimately have "sint (alphadigit ! nat d) = 48 + int (nat d)" by blast
  then show ?thesis using \<open>0 \<le> d\<close> by simp
qed

lemma digit_chars_nonzero:
  "2 \<le> b \<Longrightarrow> b \<le> 16 \<Longrightarrow> 0 \<le> v \<Longrightarrow> 0 \<notin> set (digit_chars (digits b v))"
  using digits_range [of b v] alphadigit_chars by (fastforce simp: digit_chars_def)

lemma length_digit_chars [simp]: "length (digit_chars ds) = length ds"
  by (simp add: digit_chars_def)

lemma length_digits_32:
  assumes "8 \<le> b" "0 \<le> v" "v < 2 ^ 32"
  shows "length (digits b v) \<le> 11"
proof -
  have "(8 :: int) ^ 11 \<le> b ^ 11" using assms(1) by (intro power_mono) auto
  then have "v < b ^ 11" using assms(3) by simp
  with assms show ?thesis by (intro length_digits_le) auto
qed

lemma utoa_eq:
  assumes "8 \<le> uint base" "uint base \<le> 16"
  shows "utoa v base = Some (digit_chars (digits (uint base) (uint v)) @ [0])"
proof -
  have "uint v < 2 ^ 32" using unsigned_less [of v, where ?'a = int] by simp
  with assms(1) have len: "length (digits (uint base) (uint v)) \<le> 11"
    by (intro length_digits_32) auto
  then show ?thesis
    using assms strcpy_r_rev [of "rev (digit_chars (digits (uint base) (uint v)))"]
    by (simp add: utoa_def digits_loop_eq store_reversed_def) (simp add: digit_chars_def)
qed

lemma signed_conv_eq:
  assumes "8 \<le> b" "b \<le> 16" "0 \<le> v" "v < 2 ^ 31" "13 \<le> cap" "length bs \<le> 1"
  shows "Option.bind (digits_loop cap b v bs) (store_reversed cap)
    = Some (digit_chars (digits b v) @ rev bs @ [0])"
proof -
  have len: "length (digits b v) \<le> 11" using assms by (intro length_digits_32) auto
  then show ?thesis
    using assms strcpy_r_rev [of "bs @ rev (digit_chars (digits b v))"]
    by (simp add: digits_loop_eq store_reversed_def) (simp add: digit_chars_def)
qed

lemma itoa_nonneg:
  assumes "8 \<le> uint base" "uint base \<le> 16" "0 \<le> v" "v < 2 ^ 31"
  shows "itoa v base = Some (digit_chars (digits (uint base) v) @ [0])"
  using assms by (simp add: itoa_def in_int32_def signed_conv_eq)

lemma itoa_neg:
  assumes "8 \<le> uint base" "uint base \<le> 16" "- (2 ^ 31) < v" "v < 0"
  shows "itoa v base = Some (digit_chars (digits (uint base) (- v)) @ [0x2D, 0])"
  using assms by (simp add: itoa_def in_int32_def signed_conv_eq)

lemma atoi_loop_digits:
  assumes "\<forall>d \<in> set ds. 0 \<le> d \<and> d < 10" "0 \<le> res"
    and "foldl (\<lambda>a d. a * 10 + d) res ds < 2 ^ 31 - 48" "\<not> isdigit c"
  shows "atoi_loop (digit_chars ds @ c # cs) res = Some (foldl (\<lambda>a d. a * 10 + d) res ds)"
  using assms
proof (induction ds arbitrary: res)
  case Nil
  then show ?case by (simp add: digit_chars_def)
next
  case (Cons d ds)
  have mono: "res' \<le> foldl (\<lambda>a d. a * 10 + d) res' ds" if "0 \<le> res'" for res'
    using Cons.prems(1) that
  proof (induction ds arbitrary: res')
    case Nil
    then show ?case by simp
  next
    case (Cons e es)
    then have "res' * 10 + e \<le> foldl (\<lambda>a d. a * 10 + d) (res' * 10 + e) es" by simp
    moreover have "res' \<le> res' * 10 + e" using Cons.prems by simp
    ultimately show ?case by simp
  qed
  from Cons.prems have d: "0 \<le> d" "d < 10" by auto
  have dn: "sint (alphadigit ! nat d) = 48 + d"
    by (rule alphadigit_decimal [OF d])
  have lt: "res * 10 + d < 2 ^ 31 - 48"
    using mono [of "res * 10 + d"] Cons.prems d by simp
  have "atoi_loop (digit_chars (d # ds) @ c # cs) res
      = atoi_loop (digit_chars ds @ c # cs) (res * 10 + d)"
    using d lt Cons.prems(2) dn by (simp add: digit_chars_def isdigit_def in_int32_def)
  also have "\<dots> = Some (foldl (\<lambda>a d. a * 10 + d) (res * 10 + d) ds)"
    using Cons.prems d by (intro Cons.IH) auto
  finally show ?case by simp
qed

lemma atoi_digits:
  assumes "0 \<le> v" "v < 2 ^ 31 - 48" "\<not> isdigit c"
  shows "atoi (digit_chars (digits 10 v) @ c # cs) = Some v"
proof -
  have "foldl (\<lambda>a d. a * 10 + d) 0 (digits 10 v) = v"
    using value_of_digits [of 10 v] by (simp add: value_of_def)
  then show ?thesis
    using assms digits_range [of 10 v]
    by (simp add: atoi_def atoi_loop_digits)
qed

section \<open>Properties\<close>

text \<open>
  C38. For every base from 8 to 16, \<^verbatim>\<open>utoa\<close> stores the digits of the value in that base,
  most significant first, with a terminating zero, and never overruns its local buffer; read
  back in the same base the digits give the value.
\<close>

theorem utoa_correct:
  assumes "8 \<le> uint base" "uint base \<le> 16"
  shows "utoa v base = Some (digit_chars (digits (uint base) (uint v)) @ [0])
    \<and> value_of (uint base) (digits (uint base) (uint v)) = uint v
    \<and> (\<forall>d \<in> set (digits (uint base) (uint v)). 0 \<le> d \<and> d < uint base)
    \<and> length (digits (uint base) (uint v)) \<le> 11"
proof -
  have "uint v < 2 ^ 32" using unsigned_less [of v, where ?'a = int] by simp
  then show ?thesis
    using assms digits_range [of "uint base" "uint v"]
    by (auto simp: utoa_eq value_of_digits intro: length_digits_32)
qed

theorem utoa_correct_witness:
  "utoa 0xBEEF 16 = Some (cstr ''BEEF'' @ [0])"
proof -
  have "digits 16 0xBEEF = [11, 14, 14, 15]"
    by (simp add: digits.simps [of 16])
  then show ?thesis
    using utoa_correct [where base = 16 and v = "0xBEEF"]
    by (simp add: digit_chars_def alphadigit_def cstr_def)
qed

text \<open>
  C39. A number printed by \<^verbatim>\<open>utoa\<close> in base ten is read back unchanged by \<^verbatim>\<open>atoi\<close>, as long
  as it is at least 48 below the largest \<^verbatim>\<open>int\<close>.
\<close>

theorem atoi_utoa:
  assumes "uint v < 2 ^ 31 - 48"
  shows "\<exists>s. utoa v 10 = Some s \<and> atoi s = Some (uint v)"
  using assms atoi_digits [of "uint v" 0 "[]"]
  by (simp add: utoa_eq isdigit_def)

theorem atoi_utoa_witness: "\<exists>s. utoa 1234567890 10 = Some s \<and> atoi s = Some 1234567890"
  using atoi_utoa [of 1234567890] by simp

text \<open>
  Where the signed conversions go wrong: a negative number is printed with its minus
  sign after the digits, the smallest \<^verbatim>\<open>int\<close> overflows, and \<^verbatim>\<open>atoi\<close> overflows on the
  decimal representation of the largest \<^verbatim>\<open>int\<close>.
\<close>

theorem itoa_sign_defect:
  "(\<forall>n. 0 < n \<and> n < 2 ^ 31 \<longrightarrow> itoa (- n) 10 = Some (digit_chars (digits 10 n) @ [0x2D, 0]))
   \<and> itoa (- (2 ^ 31)) 10 = None
   \<and> atoi (cstr ''2147483647'' @ [0]) = None"
proof (intro conjI allI impI)
  fix n :: int
  assume "0 < n \<and> n < 2 ^ 31"
  then show "itoa (- n) 10 = Some (digit_chars (digits 10 n) @ [0x2D, 0])"
    using itoa_neg [of 10 "- n"] by simp
next
  show "itoa (- (2 ^ 31)) 10 = None" by (simp add: itoa_def in_int32_def)
next
  show "atoi (cstr ''2147483647'' @ [0]) = None"
    by (simp add: atoi_def cstr_def isdigit_def in_int32_def)
qed

theorem itoa_sign_defect_witness:
  "itoa (- 42) 10 = Some (cstr ''42-'' @ [0])"
proof -
  have "digits 10 42 = [4, 2]" by (simp add: digits.simps [of 10])
  then show ?thesis
    using itoa_sign_defect by (simp add: digit_chars_def alphadigit_def cstr_def)
qed

end
