(* ===== verification/Boot_Info.thy ===== *)
theory Boot_Info
  imports Machine
begin

text \<open>
  \<^verbatim>\<open>bios/boot_info.{h,c}\<close>: the memory map that the boot loader hands over (the records are in
  the theory of the machine state) and the function that sanitizes it.  The array in memory is
  the list of its entries.
\<close>

section \<open>Definitions\<close>

definition SYS_INFO_BEGIN :: u32 where "SYS_INFO_BEGIN = 0x12345678"
definition SYS_INFO_END :: u32 where "SYS_INFO_END = 0x87654321"
definition MEM_MAP_TYPE_ERROR :: u32 where "MEM_MAP_TYPE_ERROR = 0"
definition MEM_MAP_TYPE_AVAILABLE :: u32 where "MEM_MAP_TYPE_AVAILABLE = 1"
definition MEM_MAP_TYPE_RESERVED :: u32 where "MEM_MAP_TYPE_RESERVED = 2"
definition MEM_MAP_TYPE_BAD :: u32 where "MEM_MAP_TYPE_BAD = 5"

definition sanitize_entry :: "boot_MEM_MAP_Info_Entry_t \<Rightarrow> boot_MEM_MAP_Info_Entry_t" where
  "sanitize_entry e = (if mtype e \<ge> MEM_MAP_TYPE_BAD \<or> mtype e = MEM_MAP_TYPE_ERROR
     then e\<lparr>mtype := MEM_MAP_TYPE_RESERVED\<rparr> else e)"

text \<open>The loop over the entries: the entries it stores and the final \<^verbatim>\<open>tot_memMap\<close>.\<close>

primrec sanitize_loop :: "boot_MEM_MAP_Info_Entry_t list \<Rightarrow> u32
    \<Rightarrow> boot_MEM_MAP_Info_Entry_t list \<times> u32" where
  "sanitize_loop [] tot_memMap = ([], tot_memMap)"
| "sanitize_loop (e # es) tot_memMap =
     (let e1 = sanitize_entry e;
          t1 = (if mtype e1 = MEM_MAP_TYPE_AVAILABLE then tot_memMap + length_lo e1 div 1024
                else tot_memMap);
          (es1, t2) = sanitize_loop es t1
      in (e1 # es1, t2))"

text \<open>The result is the final \<^verbatim>\<open>*tot_mem\<close> and the final array.\<close>

definition boot_info_sanitize :: "u32 \<Rightarrow> u8 \<Rightarrow> boot_MEM_MAP_Info_Entry_t list
    \<Rightarrow> u32 \<times> boot_MEM_MAP_Info_Entry_t list" where
  "boot_info_sanitize tot num_mem_map mem_map =
     (if num_mem_map = 0 then (tot, mem_map)
      else let (es, tot_memMap) = sanitize_loop (take (unat num_mem_map) mem_map) 0
        in (if tot < tot_memMap then tot_memMap else tot, es @ drop (unat num_mem_map) mem_map))"

section \<open>Reference\<close>

text \<open>The available kilobytes, rounded down per entry, as an unbounded sum.\<close>

definition available_kb :: "boot_MEM_MAP_Info_Entry_t list \<Rightarrow> nat" where
  "available_kb es = sum_list (map (\<lambda>e. unat (length_lo e) div 1024) (filter (\<lambda>e. mtype e = 1) es))"

section \<open>Lemmas\<close>

lemma sanitize_loop_entries: "fst (sanitize_loop es t) = map sanitize_entry es"
  by (induction es arbitrary: t) (simp_all add: Let_def case_prod_beta)

lemma sanitize_entry_type: "1 \<le> mtype (sanitize_entry e) \<and> mtype (sanitize_entry e) \<le> 4"
proof (cases "mtype e \<ge> 5 \<or> mtype e = 0")
  case True
  then show ?thesis
    by (simp add: sanitize_entry_def MEM_MAP_TYPE_BAD_def MEM_MAP_TYPE_ERROR_def MEM_MAP_TYPE_RESERVED_def)
next
  case False
  then have "unat (mtype e) < 5" "unat (mtype e) \<noteq> 0"
    by (simp_all add: word_le_nat_alt word_less_nat_alt unat_eq_zero)
  with False show ?thesis
    by (simp add: sanitize_entry_def MEM_MAP_TYPE_BAD_def MEM_MAP_TYPE_ERROR_def word_le_nat_alt)
qed

lemma sanitize_entry_available: "mtype (sanitize_entry e) = 1 \<longleftrightarrow> mtype e = 1"
  by (auto simp: sanitize_entry_def MEM_MAP_TYPE_BAD_def MEM_MAP_TYPE_ERROR_def MEM_MAP_TYPE_RESERVED_def
      word_le_nat_alt)

lemma sanitize_entry_fields [simp]:
  "length_lo (sanitize_entry e) = length_lo e" "length_hi (sanitize_entry e) = length_hi e"
  "base_addr_lo (sanitize_entry e) = base_addr_lo e" "base_addr_hi (sanitize_entry e) = base_addr_hi e"
  "acpi (sanitize_entry e) = acpi e"
  by (simp_all add: sanitize_entry_def)

lemma available_kb_bound: "available_kb es \<le> length es * 2 ^ 22"
proof (induction es)
  case Nil
  then show ?case by (simp add: available_kb_def)
next
  case (Cons e es)
  have "unat (length_lo e) div 1024 < 2 ^ 22"
    using unat_le_2p [of "length_lo e"] by (simp add: less_mult_imp_div_less)
  with Cons show ?case by (auto simp: available_kb_def)
qed

lemma sanitize_loop_total:
  "unat t + available_kb es < 2 ^ 32 \<Longrightarrow> unat (snd (sanitize_loop es t)) = unat t + available_kb es"
proof (induction es arbitrary: t)
  case Nil
  then show ?case by (simp add: available_kb_def)
next
  case (Cons e es)
  let ?t = "if mtype e = 1 then t + length_lo e div 1024 else t"
  have u: "unat ?t = unat t + (if mtype e = 1 then unat (length_lo e) div 1024 else 0)"
    using Cons.prems by (auto simp: available_kb_def unat_word_ariths unat_div)
  with Cons.prems have "unat ?t + available_kb es < 2 ^ 32" by (auto simp: available_kb_def)
  from Cons.IH [OF this] u show ?case
    by (auto simp: Let_def sanitize_entry_available MEM_MAP_TYPE_AVAILABLE_def available_kb_def
        split: prod.splits)
qed

section \<open>Properties\<close>

text \<open>
  C30. Sanitizing gives every entry of the map a known type, changes nothing else in the map,
  and raises the total memory to the sum of the available regions when that is larger; the
  32-bit sum cannot overflow, as the map has at most 255 entries.
\<close>

theorem boot_info_sanitize_correct:
  assumes "boot_info_sanitize tot n mm = (tot', mm')" "n \<noteq> 0" "unat n \<le> length mm"
  shows "length mm' = length mm
    \<and> list_all (\<lambda>e. 1 \<le> mtype e \<and> mtype e \<le> 4) (take (unat n) mm')
    \<and> list_all2 (\<lambda>e e'. e' = e\<lparr>mtype := mtype e'\<rparr>) mm mm'
    \<and> drop (unat n) mm' = drop (unat n) mm
    \<and> unat tot' = max (unat tot) (available_kb (take (unat n) mm))"
proof -
  let ?es = "take (unat n) mm"
  have len: "length ?es = unat n" using assms(3) by simp
  then have "available_kb ?es \<le> 255 * 2 ^ 22"
    using available_kb_bound [of ?es] unat_le_2p [of n] by simp
  then have t: "unat (snd (sanitize_loop ?es 0)) = available_kb ?es"
    using sanitize_loop_total [of 0 ?es] by simp
  obtain es1 t1 where s: "sanitize_loop ?es 0 = (es1, t1)" by fastforce
  have es1: "es1 = map sanitize_entry ?es" using sanitize_loop_entries [of ?es 0] s by simp
  have mm': "mm' = map sanitize_entry ?es @ drop (unat n) mm"
    and tot': "tot' = (if tot < t1 then t1 else tot)"
    using assms s es1 by (auto simp: boot_info_sanitize_def)
  have "list_all2 (\<lambda>e e'. e' = e\<lparr>mtype := mtype e'\<rparr>) (?es @ drop (unat n) mm) mm'"
    unfolding mm' by (intro list_all2_appendI)
      (auto simp: list_all2_map2 sanitize_entry_def intro: list_all2_refl)
  then show ?thesis
    using len t s assms(3)
    by (auto simp: mm' tot' list_all_iff word_less_nat_alt max_def sanitize_entry_type)
qed

theorem boot_info_sanitize_correct_witness:
  "fst (boot_info_sanitize 7 1 [\<lparr>base_addr_lo = 0, base_addr_hi = 0, length_lo = 0x4000,
     length_hi = 0, mtype = 1, acpi = 0\<rparr>]) = 16"
proof -
  let ?mm = "[\<lparr>base_addr_lo = 0, base_addr_hi = 0, length_lo = 0x4000, length_hi = 0, mtype = 1, acpi = 0\<rparr>]"
  obtain t mm' where b: "boot_info_sanitize 7 1 ?mm = (t, mm')" by fastforce
  have "unat t = unat (16 :: u32)"
    using boot_info_sanitize_correct [OF b] by (simp add: available_kb_def)
  then have "t = 16" by (simp only: word_unat_eq_iff)
  with b show ?thesis by simp
qed

end
