(* ===== verification/Vga.thy ===== *)
theory Vga
  imports Machine
begin

text \<open>
  \<^verbatim>\<open>bios/vga.{h,c}\<close>: the 80x25 text screen at physical address \<open>0xB8000\<close> (two bytes per
  cell, character and attribute) and the cursor registers of the CRT controller.  Screen
  operations act on \<open>ram\<close>, cursor operations on the ports.  The memory side is shown to
  implement an array of cells, and the port side is read through the documented behaviour of
  the controller's index and data registers.
\<close>

section \<open>Constants\<close>

definition VGA_MEM_TEXT :: u32 where "VGA_MEM_TEXT = 0xB8000"
definition VGA_REG_CTRL :: u16 where "VGA_REG_CTRL = 0x3D4"
definition VGA_REG_DATA :: u16 where "VGA_REG_DATA = 0x3D5"
definition VGA_TEXT_WIDTH :: nat where "VGA_TEXT_WIDTH = 80"
definition VGA_TEXT_HEIGHT :: nat where "VGA_TEXT_HEIGHT = 25"

definition VGA_COLOR_BLACK :: u8 where "VGA_COLOR_BLACK = 0"
definition VGA_COLOR_BLUE :: u8 where "VGA_COLOR_BLUE = 1"
definition VGA_COLOR_GREEN :: u8 where "VGA_COLOR_GREEN = 2"
definition VGA_COLOR_RED :: u8 where "VGA_COLOR_RED = 4"
definition VGA_COLOR_GRAY :: u8 where "VGA_COLOR_GRAY = 7"
definition VGA_COLOR_BRIGHT_GREEN :: u8 where "VGA_COLOR_BRIGHT_GREEN = 10"
definition VGA_COLOR_BRIGHT_CYAN :: u8 where "VGA_COLOR_BRIGHT_CYAN = 11"
definition VGA_COLOR_YELLOW :: u8 where "VGA_COLOR_YELLOW = 14"
definition VGA_COLOR_WHITE :: u8 where "VGA_COLOR_WHITE = 15"

section \<open>The screen memory\<close>

text \<open>\<^verbatim>\<open>VGA_fill\<close>: the loop variable takes the even values below 4000.\<close>

definition vga_fill_mem :: "u8 \<Rightarrow> memory \<Rightarrow> memory" where
  "vga_fill_mem v r =
     fold (\<lambda>i r. r(VGA_MEM_TEXT + of_nat i := 0, VGA_MEM_TEXT + of_nat (i + 1) := v))
       (map (\<lambda>c. 2 * c) [0..<VGA_TEXT_WIDTH * VGA_TEXT_HEIGHT]) r"

definition VGA_fill :: "u8 \<Rightarrow> u8 \<Rightarrow> unit K" where
  "VGA_fill fg_col bg_col = modify (ram_update (vga_fill_mem (push_bit 4 bg_col OR fg_col)))"

definition VGA_clear :: "unit K" where
  "VGA_clear = VGA_fill VGA_COLOR_GRAY VGA_COLOR_BLACK"

text \<open>\<^verbatim>\<open>(y * VGA_TEXT_WIDTH + x) * 2\<close> in \<^verbatim>\<open>int\<close>; signed overflow is undefined.\<close>

definition vga_off :: "int \<Rightarrow> int \<Rightarrow> int option" where
  "vga_off x y = (let a = y * 80; b = a + x; c = b * 2 in
     if in_int32 a \<and> in_int32 b \<and> in_int32 c then Some c else None)"

definition VGA_WriteChar :: "int \<Rightarrow> int \<Rightarrow> u8 \<Rightarrow> u8 \<Rightarrow> unit K" where
  "VGA_WriteChar x y ch col = (case vga_off x y of
       None \<Rightarrow> stop (Undefined ''VGA_WriteChar: signed overflow'')
     | Some off \<Rightarrow>
         if off < 0 \<or> off > (80 * 25 - 1) * 2 then ret ()
         else exec [store8 (VGA_MEM_TEXT + of_int off) ch, store8 (VGA_MEM_TEXT + of_int (off + 1)) col])"

definition VGA_Write :: "int \<Rightarrow> int \<Rightarrow> VGA_char_t option \<Rightarrow> unit K" where
  "VGA_Write x y ch = (case ch of None \<Rightarrow> ret () | Some c \<Rightarrow> VGA_WriteChar x y (vch c) (vcol c))"

primrec VGA_WriteString_loop :: "int \<Rightarrow> int \<Rightarrow> u8 \<Rightarrow> cstring \<Rightarrow> int \<Rightarrow> unit K" where
  "VGA_WriteString_loop x y col [] i = stop (Undefined ''VGA_WriteString: unterminated string'')"
| "VGA_WriteString_loop x y col (c # cs) i =
     (if c = 0 then ret ()
      else if \<not> in_int32 (x + i) then stop (Undefined ''VGA_WriteString: signed overflow'')
      else bind (VGA_WriteChar (x + i) y c col) (\<lambda>_. VGA_WriteString_loop x y col cs (i + 1)))"

definition VGA_WriteString :: "int \<Rightarrow> int \<Rightarrow> cstring \<Rightarrow> u8 \<Rightarrow> unit K" where
  "VGA_WriteString x y str col = VGA_WriteString_loop x y col str 0"

text \<open>The two readers do not check the offset.\<close>

definition VGA_GetChar :: "int \<Rightarrow> int \<Rightarrow> u16 K" where
  "VGA_GetChar x y = (case vga_off x y of
       None \<Rightarrow> stop (Undefined ''VGA_GetChar: signed overflow'')
     | Some off \<Rightarrow> gets (\<lambda>m. ucast (ram m (VGA_MEM_TEXT + of_int off))
         OR push_bit 8 (ucast (ram m (VGA_MEM_TEXT + of_int (off + 1))))))"

definition VGA_Read :: "int \<Rightarrow> int \<Rightarrow> VGA_char_t K" where
  "VGA_Read x y = (case vga_off x y of
       None \<Rightarrow> stop (Undefined ''VGA_Read: signed overflow'')
     | Some off \<Rightarrow> gets (\<lambda>m. \<lparr>vch = ram m (VGA_MEM_TEXT + of_int off),
         vcol = ram m (VGA_MEM_TEXT + of_int (off + 1))\<rparr>))"

text \<open>Ascending byte copies of the lines below, then an empty last line.\<close>

definition vga_scroll_mem :: "memory \<Rightarrow> memory" where
  "vga_scroll_mem r =
     (let col = r (VGA_MEM_TEXT + of_nat (VGA_TEXT_WIDTH * VGA_TEXT_HEIGHT * 2 - 1));
          r1 = fold (\<lambda>i r. r(VGA_MEM_TEXT + of_nat i :=
                 r (VGA_MEM_TEXT + of_nat (i + VGA_TEXT_WIDTH * 2))))
               [0..<VGA_TEXT_WIDTH * (VGA_TEXT_HEIGHT - 1) * 2] r
      in fold (\<lambda>i r. r(VGA_MEM_TEXT + of_nat i := 0, VGA_MEM_TEXT + of_nat (i + 1) := col))
           (map (\<lambda>c. 2 * c) [VGA_TEXT_WIDTH * (VGA_TEXT_HEIGHT - 1)..<VGA_TEXT_WIDTH * VGA_TEXT_HEIGHT]) r1)"

definition VGA_scroll_down :: "unit K" where
  "VGA_scroll_down = modify (ram_update vga_scroll_mem)"

section \<open>The cursor\<close>

definition VGA_enable_cursor :: "u8 \<Rightarrow> u8 \<Rightarrow> unit K" where
  "VGA_enable_cursor cursor_start cursor_end = exec [
     outb VGA_REG_CTRL 0x0A,
     bind (inb VGA_REG_DATA) (\<lambda>v. outb VGA_REG_DATA ((v AND 0xC0) OR cursor_start)),
     outb VGA_REG_CTRL 0x0B,
     bind (inb VGA_REG_DATA) (\<lambda>v. outb VGA_REG_DATA ((v AND 0xE0) OR cursor_end)),
     outb VGA_REG_DATA 0xF]"

definition VGA_disable_cursor :: "unit K" where
  "VGA_disable_cursor = exec [outb VGA_REG_CTRL 0x0A, outb VGA_REG_DATA 0x20]"

definition VGA_get_cursor_offset :: "int K" where
  "VGA_get_cursor_offset =
     bind (outb VGA_REG_CTRL 14) (\<lambda>_.
     bind (inb VGA_REG_DATA) (\<lambda>hi.
     bind (outb VGA_REG_CTRL 15) (\<lambda>_.
     bind (inb VGA_REG_DATA) (\<lambda>lo.
     ret (push_bit 8 (uint hi) + uint lo)))))"

text \<open>\<^verbatim>\<open>const uint16_t pos = y * VGA_TEXT_WIDTH + x\<close>\<close>

definition VGA_update_cursor :: "int \<Rightarrow> int \<Rightarrow> unit K" where
  "VGA_update_cursor x y =
     (if \<not> in_int32 (y * 80) \<or> \<not> in_int32 (y * 80 + x)
      then stop (Undefined ''VGA_update_cursor: signed overflow'')
      else let pos = of_int (y * 80 + x) :: u16 in exec [
        outb VGA_REG_CTRL 0x0F,
        outb VGA_REG_DATA (ucast (pos AND 0xFF)),
        outb VGA_REG_CTRL 0x0E,
        outb VGA_REG_DATA (ucast (drop_bit 8 pos AND 0xFF))])"

section \<open>Lemmas: the screen as an array of cells\<close>

definition vga_cell :: "nat \<Rightarrow> nat \<Rightarrow> memory \<Rightarrow> u8 \<times> u8" where
  "vga_cell x y r = (r (VGA_MEM_TEXT + of_nat (2 * (80 * y + x))),
     r (VGA_MEM_TEXT + of_nat (2 * (80 * y + x) + 1)))"

definition vga_put :: "nat \<Rightarrow> nat \<Rightarrow> u8 \<times> u8 \<Rightarrow> memory \<Rightarrow> memory" where
  "vga_put x y c r = r(VGA_MEM_TEXT + of_nat (2 * (80 * y + x)) := fst c,
     VGA_MEM_TEXT + of_nat (2 * (80 * y + x) + 1) := snd c)"

definition vga_region :: "u32 \<Rightarrow> bool" where
  "vga_region a \<longleftrightarrow> in_region VGA_MEM_TEXT 4000 a"

text \<open>
  The two loops, for a body \<open>F\<close> known by its effect on one address: \<open>k\<close> is the number of the
  address, and \<open>g\<close> the address of a number.
\<close>

lemma fill_pairs_gen:
  assumes "\<And>i r. i + 1 < 2 * b \<Longrightarrow> F i r x = (if k = i + 1 then v else if k = i then v0 else r x)"
  shows "fold F (map (\<lambda>c. 2 * c) [a..<b]) r x
    = (if 2 * a \<le> k \<and> k < 2 * b then (if even k then v0 else v) else r x)"
  using assms
proof (induction b)
  case 0
  then show ?case by simp
next
  case (Suc b)
  have IH: "fold F (map (\<lambda>c. 2 * c) [a..<b]) r x
      = (if 2 * a \<le> k \<and> k < 2 * b then (if even k then v0 else v) else r x)"
    by (rule Suc.IH) (rule Suc.prems, simp)
  have "F (2 * b) s x = (if k = 2 * b + 1 then v else if k = 2 * b then v0 else s x)" for s
    by (rule Suc.prems) simp
  then show ?case
    using IH by (cases "a \<le> b") auto
qed

lemma copy_up_gen:
  assumes "\<And>i j r. i < n \<Longrightarrow> j < N \<Longrightarrow> F i r (g j) = (if j = i then r (g (i + d)) else r (g j))"
    and "n + d \<le> N" "k < N"
  shows "fold F [0..<n] r (g k) = (if k < n then r (g (k + d)) else r (g k))"
  using assms
proof (induction n arbitrary: k)
  case 0
  then show ?case by simp
next
  case (Suc n)
  have IH: "fold F [0..<n] r (g j) = (if j < n then r (g (j + d)) else r (g j))" if "j < N" for j
    using Suc.prems that by (intro Suc.IH) auto
  have "F n s (g k) = (if k = n then s (g (n + d)) else s (g k))" for s
    using Suc.prems by (intro Suc.prems(1)) auto
  moreover have "fold F [0..<n] r (g (n + d)) = r (g (n + d))"
    using Suc.prems IH [of "n + d"] by simp
  ultimately show ?case
    using IH [OF Suc.prems(3)] by (auto simp: less_Suc_eq)
qed

lemma addr_offset: "p + of_nat (unat (x - p)) = (x :: u32)"
  by simp

lemma fill_pairs:
  assumes "b \<le> 2000"
  shows "fold (\<lambda>i r. r(p + of_nat i := 0, p + of_nat (i + 1) := v)) (map (\<lambda>c. 2 * c) [a..<b]) (r :: memory) x
    = (let n = unat (x - p) in if 2 * a \<le> n \<and> n < 2 * b then (if even n then 0 else v) else r x)"
  unfolding Let_def
proof (rule fill_pairs_gen)
  fix i and r :: memory
  assume "i + 1 < 2 * b"
  with assms have "x = p + of_nat i \<longleftrightarrow> unat (x - p) = i"
    "x = p + of_nat (i + 1) \<longleftrightarrow> unat (x - p) = i + 1"
    by (intro addr_eq_iff; simp)+
  then show "(r(p + of_nat i := 0, p + of_nat (i + 1) := v)) x
      = (if unat (x - p) = i + 1 then v else if unat (x - p) = i then 0 else r x)"
    by (simp only: fun_upd_apply)
qed

lemma copy_up:
  assumes "n + d \<le> 4000"
  shows "fold (\<lambda>i r. r(p + of_nat i := r (p + of_nat (i + d)))) [0..<n] (r :: memory) x
    = (let k = unat (x - p) in if k < n then r (p + of_nat (k + d)) else r x)"
proof -
  have "fold (\<lambda>i r. r(p + of_nat i := r (p + of_nat (i + d)))) [0..<n] r (p + of_nat (unat (x - p)))
    = (if unat (x - p) < n then r (p + of_nat (unat (x - p) + d)) else r (p + of_nat (unat (x - p))))"
  proof (rule copy_up_gen [where N = "2 ^ 32"])
    fix i j :: nat and r :: memory
    assume "i < n" "j < 2 ^ 32"
    with assms have "(of_nat j :: u32) = of_nat i \<longleftrightarrow> j = i" by (intro of_nat_inj_small) auto
    then show "(r(p + of_nat i := r (p + of_nat (i + d)))) (p + of_nat j)
        = (if j = i then r (p + of_nat (i + d)) else r (p + of_nat j))"
      by (simp del: of_nat_add)
  qed (use assms unat_le_2p [of "x - p"] in auto)
  then show ?thesis by (simp only: addr_offset Let_def)
qed

lemma vga_fill_apply:
  "vga_fill_mem v r x =
    (let n = unat (x - VGA_MEM_TEXT) in if n < 4000 then (if even n then 0 else v) else r x)"
  unfolding vga_fill_mem_def VGA_TEXT_WIDTH_def VGA_TEXT_HEIGHT_def
  by (subst fill_pairs) (simp_all add: Let_def)

lemma vga_scroll_apply:
  "vga_scroll_mem r x =
    (let k = unat (x - VGA_MEM_TEXT) in
     if k < 3840 then r (VGA_MEM_TEXT + of_nat (k + 160))
     else if k < 4000 then (if even k then 0 else r (VGA_MEM_TEXT + of_nat 3999)) else r x)"
  unfolding vga_scroll_mem_def VGA_TEXT_WIDTH_def VGA_TEXT_HEIGHT_def
  by (simp only: Let_def fill_pairs copy_up) (auto simp: Let_def fill_pairs copy_up)

lemma vga_offset: "n < 4000 \<Longrightarrow> unat (VGA_MEM_TEXT + of_nat n - VGA_MEM_TEXT) = n"
  by (simp add: unat_of_nat_small)

lemma vga_scroll_at:
  "k < 3840 \<Longrightarrow> vga_scroll_mem r (VGA_MEM_TEXT + of_nat k) = r (VGA_MEM_TEXT + of_nat (k + 160))"
  "3840 \<le> k \<Longrightarrow> k < 4000 \<Longrightarrow> vga_scroll_mem r (VGA_MEM_TEXT + of_nat k)
     = (if even k then 0 else r (VGA_MEM_TEXT + of_nat 3999))"
  by (simp_all only: vga_scroll_apply Let_def vga_offset) (simp_all del: of_nat_add)

lemma cell_index_bound: "x < 80 \<Longrightarrow> y < 25 \<Longrightarrow> 2 * (80 * y + x) + 1 < (4000 :: nat)"
  by simp

lemma cell_index_inj:
  assumes "x < 80" "x' < 80"
  shows "80 * y + x = 80 * y' + x' \<longleftrightarrow> x = x' \<and> y = (y' :: nat)"
proof
  assume eq: "80 * y + x = 80 * y' + x'"
  from arg_cong [OF this, of "\<lambda>n. n mod 80"] assms have "x = x'" by simp
  with eq show "x = x' \<and> y = y'" by simp
qed simp

text \<open>The contract of a text screen: cells, writing one and scrolling up by one line.\<close>

locale text_screen =
  fixes cell :: "nat \<Rightarrow> nat \<Rightarrow> 's \<Rightarrow> 'c"
    and put :: "nat \<Rightarrow> nat \<Rightarrow> 'c \<Rightarrow> 's \<Rightarrow> 's"
    and scroll :: "'s \<Rightarrow> 's"
    and blank :: "'s \<Rightarrow> 'c"
    and w :: nat and h :: nat
  assumes cell_put: "x < w \<Longrightarrow> y < h \<Longrightarrow> x' < w \<Longrightarrow> y' < h \<Longrightarrow>
      cell x' y' (put x y c s) = (if x' = x \<and> y' = y then c else cell x' y' s)"
    and cell_scroll: "x < w \<Longrightarrow> Suc y < h \<Longrightarrow> cell x y (scroll s) = cell x (Suc y) s"
    and cell_scroll_last: "x < w \<Longrightarrow> Suc y = h \<Longrightarrow> cell x y (scroll s) = blank s"
begin

text \<open>Consecutive writes on one line.\<close>

lemma cell_fold_put:
  assumes "y < h" "x + length cs \<le> w" "x' < w" "y' < h"
  shows "cell x' y' (fold (\<lambda>(i, c) s. put (x + i) y c s) (enumerate 0 cs) s)
    = (if y' = y \<and> x \<le> x' \<and> x' < x + length cs then cs ! (x' - x) else cell x' y' s)"
  using assms
proof (induction cs rule: rev_induct)
  case Nil
  then show ?case by auto
next
  case (snoc c cs)
  then show ?case
    by (auto simp: enumerate_append_eq cell_put nth_append)
qed

end

interpretation vga: text_screen vga_cell vga_put vga_scroll_mem
  "\<lambda>r. (0, r (VGA_MEM_TEXT + of_nat 3999))" 80 25
proof unfold_locales
  fix x y x' y' :: nat and c :: "u8 \<times> u8" and s :: memory
  assume b: "x < 80" "y < 25" "x' < 80" "y' < 25"
  define i j where "i = 2 * (80 * y + x)" and "j = 2 * (80 * y' + x')"
  have e: "(of_nat m :: u32) = of_nat n \<longleftrightarrow> m = n" if "m < 4000" "n < 4000" for m n
    using that by (intro of_nat_inj_small) simp_all
  have lt: "i + 1 < 4000" "j + 1 < 4000"
    using b unfolding i_def j_def by (simp_all only: cell_index_bound)
  have same: "j = i \<longleftrightarrow> x' = x \<and> y' = y"
    using cell_index_inj [of x' x y' y] b unfolding i_def j_def by auto
  have "even i" "even j" by (simp_all add: i_def j_def)
  then have "j + 1 \<noteq> i" "j \<noteq> i + 1" by auto
  then have "(of_nat j :: u32) \<noteq> of_nat (i + 1)" "(of_nat (j + 1) :: u32) \<noteq> of_nat i"
    "(of_nat j :: u32) = of_nat i \<longleftrightarrow> x' = x \<and> y' = y"
    "(of_nat (j + 1) :: u32) = of_nat (i + 1) \<longleftrightarrow> x' = x \<and> y' = y"
    using lt same by (simp_all only: e) auto
  then show "vga_cell x' y' (vga_put x y c s) = (if x' = x \<and> y' = y then c else vga_cell x' y' s)"
    unfolding vga_cell_def vga_put_def i_def [symmetric] j_def [symmetric]
    by (auto simp del: of_nat_add of_nat_Suc)
next
  fix x y :: nat and s :: memory
  assume b: "x < 80" "Suc y < 25"
  define k where "k = 2 * (80 * y + x)"
  have k': "2 * (80 * Suc y + x) = k + 160" by (simp add: k_def)
  have "k + 1 < 3840" using b by (simp add: k_def)
  then show "vga_cell x y (vga_scroll_mem s) = vga_cell x (Suc y) s"
    unfolding vga_cell_def k' k_def [symmetric]
    using vga_scroll_at(1) [of k s] vga_scroll_at(1) [of "k + 1" s] by (simp add: add.commute)
next
  fix x y :: nat and s :: memory
  assume b: "x < 80" "Suc y = 25"
  define k where "k = 2 * (80 * y + x)"
  have "3840 \<le> k" "k + 1 < 4000" "even k" using b by (auto simp: k_def)
  then show "vga_cell x y (vga_scroll_mem s) = (0, s (VGA_MEM_TEXT + of_nat 3999))"
    unfolding vga_cell_def k_def [symmetric]
    using vga_scroll_at(2) [of k s] vga_scroll_at(2) [of "k + 1" s] by simp
qed

section \<open>Lemmas: screen operations as programs\<close>

lemma vga_off_in:
  "x < 80 \<Longrightarrow> y < 25 \<Longrightarrow> vga_off (int x) (int y) = Some (int (2 * (80 * y + x)))"
  by (simp add: vga_off_def in_int32_def Let_def)

lemma VGA_WriteChar_put:
  "x < 80 \<Longrightarrow> y < 25 \<Longrightarrow>
     VGA_WriteChar (int x) (int y) ch col = modify (ram_update (vga_put x y (ch, col)))"
  by (rule ext) (simp add: VGA_WriteChar_def vga_off_in vga_put_def [abs_def] run comp_def add_ac)

lemma VGA_Read_cell:
  "x < 80 \<Longrightarrow> y < 25 \<Longrightarrow> VGA_Read (int x) (int y) m
     = Done \<lparr>vch = fst (vga_cell x y (ram m)), vcol = snd (vga_cell x y (ram m))\<rparr> m"
  by (simp add: VGA_Read_def vga_off_in vga_cell_def run add_ac)

text \<open>Nothing outside of the screen is written.\<close>

definition screen_only :: "memory \<Rightarrow> machine \<Rightarrow> bool" where
  "screen_only r0 m \<longleftrightarrow> (\<forall>a. \<not> vga_region a \<longrightarrow> ram m a = r0 a)"

lemma screen_only_simps [simp]:
  "screen_only r0 (m\<lparr>trace := t\<rparr>) = screen_only r0 m"
  "screen_only r0 (m\<lparr>con := c\<rparr>) = screen_only r0 m"
  "screen_only r0 (m\<lparr>iflag := i\<rparr>) = screen_only r0 m"
  by (simp_all add: screen_only_def)

lemma vga_region_off: "0 \<le> off \<Longrightarrow> off < 4000 \<Longrightarrow> vga_region (VGA_MEM_TEXT + of_int off)"
proof -
  assume "0 \<le> off" "off < 4000"
  then have "vga_region (VGA_MEM_TEXT + of_nat (nat off))"
    unfolding vga_region_def by (subst in_region_offset) auto
  with \<open>0 \<le> off\<close> show ?thesis by simp
qed

lemma screen_only_VGA_WriteChar [frame]: "preserves (screen_only r0) (VGA_WriteChar x y ch col)"
proof (cases "vga_off x y")
  case None
  then show ?thesis by (simp add: VGA_WriteChar_def preserves_stop)
next
  case (Some off)
  show ?thesis
  proof (cases "off < 0 \<or> off > (80 * 25 - 1) * 2")
    case True
    with Some show ?thesis by (simp add: VGA_WriteChar_def preserves_ret)
  next
    case False
    then have "vga_region (VGA_MEM_TEXT + of_int off)" "vga_region (VGA_MEM_TEXT + of_int (off + 1))"
      by (intro vga_region_off; simp)+
    with Some False show ?thesis
      by (auto simp: VGA_WriteChar_def store8_def screen_only_def
          intro!: preserves_ret preserves_bind preserves_modify)
  qed
qed

lemma screen_only_VGA_fill [frame]: "preserves (screen_only r0) (VGA_fill fg bg)"
  unfolding VGA_fill_def
  by (rule preserves_modify)
     (simp add: screen_only_def vga_fill_apply vga_region_def in_region_def Let_def)

lemma screen_only_VGA_scroll_down [frame]: "preserves (screen_only r0) VGA_scroll_down"
  unfolding VGA_scroll_down_def
  by (rule preserves_modify)
     (simp add: screen_only_def vga_scroll_apply vga_region_def in_region_def Let_def)

text \<open>A string that fits on its line.\<close>

lemma VGA_WriteString_loop_put:
  assumes "y < 25" "0 \<notin> set cs" "x + i + length cs \<le> 80"
  shows "VGA_WriteString_loop (int x) (int y) col (cs @ 0 # rest) (int i) m
    = Done () (m\<lparr>ram := fold (\<lambda>(i, c) s. vga_put (x + i) y c s) (enumerate i (map (\<lambda>c. (c, col)) cs)) (ram m)\<rparr>)"
  using assms(2,3)
proof (induction cs arbitrary: i m)
  case Nil
  then show ?case by (simp add: ret_def)
next
  case (Cons c cs)
  have e: "int x + int i = int (x + i)" "int i + 1 = int (Suc i)" by simp_all
  have "VGA_WriteChar (int (x + i)) (int y) c col m = Done () (m\<lparr>ram := vga_put (x + i) y (c, col) (ram m)\<rparr>)"
    using Cons.prems assms(1) ram_update_eq [of "vga_put (x + i) y (c, col)" m]
    by (subst VGA_WriteChar_put) (simp_all add: modify_def)
  then show ?case
    using Cons by (simp add: in_int32_def bind_def [of "VGA_WriteChar _ _ _ _"] e del: of_nat_add of_nat_Suc)
qed

lemma VGA_WriteString_cells:
  assumes "y < 25" "0 \<notin> set cs" "x + length cs \<le> 80"
  shows "\<exists>r. VGA_WriteString (int x) (int y) (cs @ 0 # rest) col m = Done () (m\<lparr>ram := r\<rparr>)
    \<and> (\<forall>x' < 80. \<forall>y' < 25. vga_cell x' y' r
         = (if y' = y \<and> x \<le> x' \<and> x' < x + length cs then (cs ! (x' - x), col) else vga_cell x' y' (ram m)))
    \<and> (\<forall>a. \<not> vga_region a \<longrightarrow> r a = ram m a)"
proof -
  let ?r = "fold (\<lambda>(i, c) s. vga_put (x + i) y c s) (enumerate 0 (map (\<lambda>c. (c, col)) cs)) (ram m)"
  have d: "VGA_WriteString (int x) (int y) (cs @ 0 # rest) col m = Done () (m\<lparr>ram := ?r\<rparr>)"
    using VGA_WriteString_loop_put [of y cs x 0 col rest m] assms by (simp add: VGA_WriteString_def)
  have loop: "preserves (screen_only (ram m)) (VGA_WriteString_loop a b col ts k)" for a b ts k
    by (induction ts arbitrary: k)
       (simp_all add: preserves_ret preserves_stop preserves_bind screen_only_VGA_WriteChar)
  have "preserves (screen_only (ram m)) (VGA_WriteString (int x) (int y) (cs @ 0 # rest) col)"
    unfolding VGA_WriteString_def by (rule loop)
  from preserves_Done [OF this _ d] have "\<forall>a. \<not> vga_region a \<longrightarrow> ?r a = ram m a"
    by (simp add: screen_only_def)
  moreover have "vga_cell x' y' ?r = (if y' = y \<and> x \<le> x' \<and> x' < x + length cs then (cs ! (x' - x), col)
      else vga_cell x' y' (ram m))" if "x' < 80" "y' < 25" for x' y'
    using vga.cell_fold_put [of y x "map (\<lambda>c. (c, col)) cs" x' y' "ram m"] assms that by auto
  ultimately show ?thesis using d by blast
qed

text \<open>A property that ignores memory survives every screen operation.\<close>

lemma preserves_VGA_WriteChar [frame]:
  "(\<And>m f. I m \<Longrightarrow> I (m\<lparr>ram := f\<rparr>)) \<Longrightarrow> preserves I (VGA_WriteChar x y ch col)"
proof -
  assume I: "\<And>m f. I m \<Longrightarrow> I (m\<lparr>ram := f\<rparr>)"
  have "preserves I (store8 a v)" for a v
    unfolding preserves_def triple_def store8_def modify_def
    by (auto intro: closed_ram_update I)
  then show ?thesis
    by (auto simp: VGA_WriteChar_def intro!: frame split: option.splits)
qed

section \<open>Lemmas: the cursor registers\<close>

text \<open>
  The CRT controller: writing port \<open>0x3D4\<close> selects a register, port \<open>0x3D5\<close> writes or reads the
  selected register.
\<close>

fun crtc_step :: "event \<Rightarrow> u8 \<times> (u8 \<Rightarrow> u8) \<Rightarrow> u8 \<times> (u8 \<Rightarrow> u8)" where
  "crtc_step (Out8 p v) (idx, regs) =
     (if p = VGA_REG_CTRL then (v, regs)
      else if p = VGA_REG_DATA then (idx, regs(idx := v)) else (idx, regs))"
| "crtc_step _ s = s"

definition crtc :: "event list \<Rightarrow> u8 \<times> (u8 \<Rightarrow> u8)" where
  "crtc t = fold crtc_step t (0, \<lambda>_. 0)"

definition crtc_device :: "(event list \<Rightarrow> u16 \<Rightarrow> u8) \<Rightarrow> bool" where
  "crtc_device dev \<longleftrightarrow> (\<forall>t. dev t VGA_REG_DATA = snd (crtc t) (fst (crtc t)))"

lemma crtc_snoc [simp]: "crtc (t @ [e]) = crtc_step e (crtc t)"
  by (simp add: crtc_def)

lemma crtc_append: "crtc (t @ es) = fold crtc_step es (crtc t)"
  by (simp add: crtc_def)

lemma crtc_step_simps [simp]:
  "fst (crtc_step (Out8 VGA_REG_CTRL v) s) = v"
  "snd (crtc_step (Out8 VGA_REG_CTRL v) s) = snd s"
  "fst (crtc_step (Out8 VGA_REG_DATA v) s) = fst s"
  "snd (crtc_step (Out8 VGA_REG_DATA v) s) = (snd s)(fst s := v)"
  "crtc_step (In8 p w) s = s"
  by (cases s; simp add: VGA_REG_CTRL_def VGA_REG_DATA_def)+

lemma VGA_update_cursor_done:
  assumes "in_int32 (y * 80)" "in_int32 (y * 80 + x)"
  shows "VGA_update_cursor x y m = Done () (m\<lparr>trace := trace m @
    [Out8 VGA_REG_CTRL 0x0F, Out8 VGA_REG_DATA (ucast (of_int (y * 80 + x) :: u16)),
     Out8 VGA_REG_CTRL 0x0E, Out8 VGA_REG_DATA (ucast (drop_bit 8 (of_int (y * 80 + x) :: u16)))]\<rparr>)"
proof -
  have "ucast (w AND 0xFF) = (ucast w :: u8)" for w :: u16
    by (rule bit_word_eqI) (auto simp: bit_simps bit_low_masks)
  with assms show ?thesis by (simp add: VGA_update_cursor_def Let_def run)
qed

lemma two_bytes: "push_bit 8 (uint (ucast (drop_bit 8 w) :: u8)) + uint (ucast w :: u8) = uint (w :: u16)"
proof -
  have "uint (ucast w :: u8) = take_bit 8 (uint w)" by (simp add: unsigned_ucast_eq)
  moreover have "uint (ucast (drop_bit 8 w) :: u8) = drop_bit 8 (uint w)"
  proof -
    have "0 \<le> uint w div 256" "uint w div 256 < 256"
      using unsigned_less [of w, where ?'a = int] by (simp_all add: pos_imp_zdiv_nonneg_iff)
    then show ?thesis
      by (simp add: unsigned_ucast_eq uint_div take_bit_eq_mod drop_bit_eq_div)
  qed
  ultimately show ?thesis
    by (simp add: push_bit_eq_mult drop_bit_eq_div take_bit_eq_mod)
qed

section \<open>Properties\<close>

text \<open>
  Writing a character inside the screen changes that cell only; outside of the screen,
  as long as the offset is an \<^verbatim>\<open>int\<close>, the call writes nothing but screen memory.
\<close>

theorem VGA_WriteChar_correct:
  "(\<forall>x < 80. \<forall>y < 25. \<exists>m1. VGA_WriteChar (int x) (int y) ch col m = Done () m1
      \<and> (\<forall>x' < 80. \<forall>y' < 25. vga_cell x' y' (ram m1)
           = (if x' = x \<and> y' = y then (ch, col) else vga_cell x' y' (ram m)))
      \<and> (\<forall>a. \<not> vga_region a \<longrightarrow> ram m1 a = ram m a))"
proof (intro allI impI)
  fix x y :: nat
  assume b: "x < 80" "y < 25"
  let ?m = "ram_update (vga_put x y (ch, col)) m"
  have d: "VGA_WriteChar (int x) (int y) ch col m = Done () ?m"
    by (simp add: VGA_WriteChar_put [OF b] run)
  have "screen_only (ram m) ?m"
    using preserves_Done [OF screen_only_VGA_WriteChar _ d, of "ram m"] by (simp add: screen_only_def)
  then show "\<exists>m1. VGA_WriteChar (int x) (int y) ch col m = Done () m1
      \<and> (\<forall>x' < 80. \<forall>y' < 25. vga_cell x' y' (ram m1)
           = (if x' = x \<and> y' = y then (ch, col) else vga_cell x' y' (ram m)))
      \<and> (\<forall>a. \<not> vga_region a \<longrightarrow> ram m1 a = ram m a)"
    using d b by (intro exI [of _ ?m]) (simp add: vga.cell_put screen_only_def)
qed

theorem VGA_WriteChar_correct_witness:
  "\<forall>m. \<exists>m1. VGA_WriteChar 79 24 65 7 m = Done () m1 \<and> vga_cell 79 24 (ram m1) = (65, 7)"
proof
  fix m :: machine
  show "\<exists>m1. VGA_WriteChar 79 24 65 7 m = Done () m1 \<and> vga_cell 79 24 (ram m1) = (65, 7)"
    using VGA_WriteChar_correct [rule_format, of 79 24 65 7 m, simplified]
    by (elim exE conjE) auto
qed

text \<open>
  Scrolling moves every line up by one, clears the last line to the attribute of the
  last cell, and leaves the rest of memory alone.
\<close>

theorem VGA_scroll_down_correct:
  "\<exists>m1. VGA_scroll_down m = Done () m1
    \<and> (\<forall>x < 80. \<forall>y < 24. vga_cell x y (ram m1) = vga_cell x (y + 1) (ram m))
    \<and> (\<forall>x < 80. vga_cell x 24 (ram m1) = (0, snd (vga_cell 79 24 (ram m))))
    \<and> (\<forall>a. \<not> vga_region a \<longrightarrow> ram m1 a = ram m a)"
proof -
  let ?m = "ram_update vga_scroll_mem m"
  have d: "VGA_scroll_down m = Done () ?m" by (simp add: VGA_scroll_down_def run)
  have "screen_only (ram m) ?m"
    using preserves_Done [OF screen_only_VGA_scroll_down _ d, of "ram m"] by (simp add: screen_only_def)
  moreover have "snd (vga_cell 79 24 (ram m)) = ram m (VGA_MEM_TEXT + of_nat 3999)"
    by (simp add: vga_cell_def)
  ultimately show ?thesis
    using d by (intro exI [of _ ?m]) (auto simp: vga.cell_scroll vga.cell_scroll_last screen_only_def)
qed

theorem VGA_scroll_down_correct_witness:
  "\<forall>m. \<exists>m1. VGA_scroll_down m = Done () m1 \<and> vga_cell 3 7 (ram m1) = vga_cell 3 8 (ram m)"
proof
  fix m :: machine
  show "\<exists>m1. VGA_scroll_down m = Done () m1 \<and> vga_cell 3 7 (ram m1) = vga_cell 3 8 (ram m)"
    using VGA_scroll_down_correct [of m] by (elim exE conjE) auto
qed

text \<open>
  On a CRT controller that behaves as documented, reading the cursor back after setting
  it to a position of the screen gives that position.
\<close>

theorem VGA_cursor_roundtrip:
  assumes "crtc_device (hw m)" "0 \<le> x" "x < 80" "0 \<le> y" "y < 25"
  shows "\<exists>m1. bind (VGA_update_cursor x y) (\<lambda>_. VGA_get_cursor_offset) m = Done (y * 80 + x) m1"
proof -
  define w where "w = (of_int (y * 80 + x) :: u16)"
  have "uint w = y * 80 + x"
    unfolding w_def using assms by (intro uint_of_int_small) auto
  then have v: "push_bit 8 (uint (ucast (drop_bit 8 w) :: u8)) + uint (ucast w :: u8) = y * 80 + x"
    by (simp only: two_bytes)
  have i: "in_int32 (y * 80)" "in_int32 (y * 80 + x)" using assms by (simp_all add: in_int32_def)
  have dev: "hw m t VGA_REG_DATA = snd (crtc t) (fst (crtc t))" for t
    using assms(1) by (simp add: crtc_device_def)
  show ?thesis
    using v by (simp add: VGA_get_cursor_offset_def VGA_update_cursor_done [OF i, folded w_def]
        run Let_def dev crtc_append)
qed

theorem VGA_cursor_roundtrip_witness:
  "\<forall>m. \<exists>m1. bind (VGA_update_cursor 79 24) (\<lambda>_. VGA_get_cursor_offset)
     (m\<lparr>hw := (\<lambda>t p. snd (crtc t) (fst (crtc t)))\<rparr>) = Done 1999 m1"
proof
  fix m :: machine
  have "crtc_device (hw (m\<lparr>hw := (\<lambda>t p. snd (crtc t) (fst (crtc t)))\<rparr>))"
    by (simp add: crtc_device_def)
  from VGA_cursor_roundtrip [OF this, of 79 24]
  show "\<exists>m1. bind (VGA_update_cursor 79 24) (\<lambda>_. VGA_get_cursor_offset)
     (m\<lparr>hw := (\<lambda>t p. snd (crtc t) (fst (crtc t)))\<rparr>) = Done 1999 m1" by simp
qed

text \<open>
  \<^verbatim>\<open>VGA_enable_cursor\<close> ends with a write of \<open>0xF\<close> to the data port, so the end scan line
  it leaves in register \<open>0x0B\<close> is 15 whatever \<open>cursor_end\<close> is.
\<close>

theorem VGA_enable_cursor_end:
  "\<exists>m1. VGA_enable_cursor cursor_start cursor_end m = Done () m1 \<and> snd (crtc (trace m1)) 0x0B = 0xF"
  by (simp add: VGA_enable_cursor_def run Let_def crtc_append)

end
