(* ===== verification/Console.thy ===== *)
theory Console
  imports Vga Strings
begin

text \<open>
  \<^verbatim>\<open>lib/conio.{h,c}\<close> and \<^verbatim>\<open>sys/panic.c\<close>: the console over the text screen (colour, cursor
  position, newline and scrolling), the formatted output functions, and the kernel panic.  The
  console is shown to implement a terminal with an array of cells, a cursor and automatic
  scrolling.
\<close>

section \<open>Colour and position\<close>

definition CON_WIDTH :: u8 where "CON_WIDTH = 80"
definition CON_HEIGHT :: u8 where "CON_HEIGHT = 25"

text \<open>Two four-bit fields.\<close>

record con_col_t =
  fg_col :: "4 word"
  bg_col :: "4 word"

definition mod_con :: "(console \<Rightarrow> console) \<Rightarrow> unit K" where
  "mod_con f = modify (\<lambda>m. m\<lparr>con := f (con m)\<rparr>)"

definition AdjScrollDrown :: "unit K" where
  "AdjScrollDrown = exec [
     bind (gets con) (\<lambda>c. k_when (curX c \<ge> CON_WIDTH)
       (mod_con (\<lambda>c. c\<lparr>curX := 0, curY := curY c + 1\<rparr>))),
     bind (gets con) (\<lambda>c. k_when (curY c \<ge> CON_HEIGHT)
       (exec [VGA_scroll_down, mod_con (\<lambda>c. c\<lparr>curY := curY c - 1\<rparr>)])),
     bind (gets con) (\<lambda>c. VGA_update_cursor (uint (curX c)) (uint (curY c)))]"

definition CON_setConsoleColor2 :: "u8 \<Rightarrow> u8 \<Rightarrow> unit K" where
  "CON_setConsoleColor2 bg fg = mod_con (\<lambda>c. c\<lparr>con_attr := push_bit 4 bg OR (fg AND 0xF)\<rparr>)"

definition CON_setConsoleColor :: "con_col_t \<Rightarrow> unit K" where
  "CON_setConsoleColor col = CON_setConsoleColor2 (ucast (bg_col col)) (ucast (fg_col col))"

definition CON_setBackgroundColor :: "u8 \<Rightarrow> unit K" where
  "CON_setBackgroundColor bg = mod_con (\<lambda>c. c\<lparr>con_attr := con_attr c OR push_bit 4 bg\<rparr>)"

definition CON_setForegroundColor :: "u8 \<Rightarrow> unit K" where
  "CON_setForegroundColor fg = mod_con (\<lambda>c. c\<lparr>con_attr := con_attr c OR (fg AND 0xF)\<rparr>)"

definition CON_getConsoleColor :: "con_col_t K" where
  "CON_getConsoleColor = gets (\<lambda>m. \<lparr>fg_col = ucast (con_attr (con m) AND 0xF),
     bg_col = ucast (drop_bit 4 (con_attr (con m)))\<rparr>)"

definition CON_getConsoleColor2 :: "u8 K" where
  "CON_getConsoleColor2 = gets (\<lambda>m. con_attr (con m))"

definition CON_gotoXY :: "u8 \<Rightarrow> u8 \<Rightarrow> unit K" where
  "CON_gotoXY x y = exec [VGA_update_cursor (uint x) (uint y),
     mod_con (\<lambda>c. c\<lparr>curX := x, curY := y\<rparr>)]"

definition CON_getXY :: "(u8 \<times> u8) K" where
  "CON_getXY = gets (\<lambda>m. (curX (con m), curY (con m)))"

section \<open>Output\<close>

definition CON_newline :: "unit K" where
  "CON_newline = exec [bind (gets con) (\<lambda>c. CON_gotoXY 0 (curY c + 1)), AdjScrollDrown]"

definition CON_putc :: "u8 \<Rightarrow> unit K" where
  "CON_putc ch =
     (if ch = 10 then CON_newline
      else exec [
        bind (gets con) (\<lambda>c. VGA_WriteChar (uint (curX c)) (uint (curY c)) ch (con_attr c)),
        mod_con (\<lambda>c. c\<lparr>curX := curX c + 1\<rparr>),
        AdjScrollDrown])"

primrec CON_puts :: "cstring \<Rightarrow> unit K" where
  "CON_puts [] = stop (Undefined ''CON_puts: unterminated string'')"
| "CON_puts (c # cs) = (if c = 0 then ret () else bind (CON_putc c) (\<lambda>_. CON_puts cs))"

text \<open>The variable arguments: an integer or a pointer to a string.\<close>

datatype vararg = VInt u32 | VStr cstring

definition BUF_SIZE :: u32 where
  "BUF_SIZE = 13"

text \<open>
  \<^verbatim>\<open>length = strnlen(buf, BUF_SIZE); memcpy(str, buf, length)\<close> for a number that was
  converted into the 13 bytes of \<^verbatim>\<open>buf\<close>.
\<close>

definition number_bytes :: "cstring option \<Rightarrow> cstring option" where
  "number_bytes conv = Option.bind conv (\<lambda>b. if length b > unat BUF_SIZE then None
     else map_option (\<lambda>n. take (unat n) b) (strnlen b BUF_SIZE))"

text \<open>
  The bytes stored by \<^verbatim>\<open>CON_vsprintf\<close>, with \<open>out\<close> those stored so far.  \<open>None\<close> is
  undefined behaviour: a format read past its end, a missing or mistyped argument, or a
  conversion that is itself undefined.
\<close>

fun vsprintf_loop :: "cstring \<Rightarrow> vararg list \<Rightarrow> cstring \<Rightarrow> cstring option" where
  "vsprintf_loop [] args out = None"
| "vsprintf_loop [c] args out = (if c = 0 then Some (out @ [0]) else None)"
| "vsprintf_loop (c # f # cs) args out =
     (if c = 0 then Some (out @ [0])
      else if c \<noteq> 0x25 then vsprintf_loop (f # cs) args (out @ [c])
      else if f = 0x25 then vsprintf_loop cs args (out @ [0x25])
      else if f = 0x63 then
        (case args of VInt v # as \<Rightarrow> vsprintf_loop cs as (out @ [ucast v]) | _ \<Rightarrow> None)
      else if f = 0x73 then
        (case args of VStr s # as \<Rightarrow>
           (case strlen s of Some n \<Rightarrow> vsprintf_loop cs as (out @ take (unat n) s) | None \<Rightarrow> None)
         | _ \<Rightarrow> None)
      else if f = 0x64 \<or> f = 0x69 then
        (case args of VInt v # as \<Rightarrow>
           (case number_bytes (itoa (sint v) 10) of
              Some b \<Rightarrow> vsprintf_loop cs as (out @ b) | None \<Rightarrow> None)
         | _ \<Rightarrow> None)
      else if f = 0x75 \<or> f = 0x58 \<or> f = 0x78 then
        (case args of VInt v # as \<Rightarrow>
           (case number_bytes (utoa v (if f = 0x75 then 10 else 16)) of
              Some b \<Rightarrow> vsprintf_loop cs as (out @ b) | None \<Rightarrow> None)
         | _ \<Rightarrow> None)
      else vsprintf_loop cs args (out @ [0x25, f]))"

text \<open>The stored bytes and the return value \<^verbatim>\<open>str - s\<close>.\<close>

definition CON_vsprintf :: "cstring \<Rightarrow> vararg list \<Rightarrow> (cstring \<times> int) option" where
  "CON_vsprintf fmt args = map_option (\<lambda>out. (out, int (length out))) (vsprintf_loop fmt args [])"

definition CON_sprintf :: "cstring \<Rightarrow> vararg list \<Rightarrow> (cstring \<times> int) option" where
  "CON_sprintf fmt args = CON_vsprintf fmt args"

text \<open>The local buffer has 256 bytes.\<close>

definition CON_printf :: "cstring \<Rightarrow> vararg list \<Rightarrow> int K" where
  "CON_printf fmt args = (case CON_vsprintf fmt args of
       None \<Rightarrow> stop (Undefined ''CON_printf: undefined conversion'')
     | Some (out, i) \<Rightarrow>
         if length out > 256 then stop (Undefined ''CON_printf: buffer overflow'')
         else bind (CON_puts out) (\<lambda>_. ret i))"

section \<open>Panic\<close>

definition panic :: "cstring \<Rightarrow> cstring \<Rightarrow> nat \<Rightarrow> 'a K" where
  "panic err_msg filename line =
     bind (exec [cli,
       VGA_fill VGA_COLOR_WHITE VGA_COLOR_BLUE,
       CON_gotoXY 0 0,
       CON_setConsoleColor2 VGA_COLOR_BLUE VGA_COLOR_WHITE,
       bind (CON_printf (cstr ''Kernel Panic!'' @ [10] @ cstr ''%s'' @ [10] @ cstr ''file: %s:%d'' @ [0])
              [VStr err_msg, VStr filename, VInt (of_nat line)]) (\<lambda>_. ret ()),
       hlt]) (\<lambda>_. stop (Panic err_msg filename line))"

definition KERNEL_PANIC :: "string \<Rightarrow> string \<Rightarrow> nat \<Rightarrow> 'a K" where
  "KERNEL_PANIC err_msg file line = panic (cstr err_msg @ [0]) (cstr file @ [0]) line"

section \<open>The terminal the console implements\<close>

record term_state =
  cells :: "nat \<Rightarrow> nat \<Rightarrow> u8 \<times> u8"
  tx :: nat
  ty :: nat
  tattr :: u8

definition term_scroll :: "(nat \<Rightarrow> nat \<Rightarrow> u8 \<times> u8) \<Rightarrow> nat \<Rightarrow> nat \<Rightarrow> u8 \<times> u8" where
  "term_scroll f x y = (if x < 80 \<and> y < 24 then f x (Suc y)
     else if x < 80 \<and> y = 24 then (0, snd (f 79 24)) else f x y)"

text \<open>After the cursor has moved: wrap at the right edge, scroll at the bottom.\<close>

definition term_adjust :: "term_state \<Rightarrow> term_state" where
  "term_adjust t =
     (let t1 = (if 80 \<le> tx t then t\<lparr>tx := 0, ty := Suc (ty t)\<rparr> else t)
      in if 25 \<le> ty t1 then t1\<lparr>ty := ty t1 - 1, cells := term_scroll (cells t1)\<rparr> else t1)"

definition term_putc :: "u8 \<Rightarrow> term_state \<Rightarrow> term_state" where
  "term_putc ch t =
     (if ch = 10 then term_adjust (t\<lparr>tx := 0, ty := Suc (ty t)\<rparr>)
      else term_adjust (t\<lparr>cells := (cells t)(tx t := (cells t (tx t))(ty t := (ch, tattr t))),
             tx := Suc (tx t)\<rparr>))"

definition term_of :: "machine \<Rightarrow> term_state" where
  "term_of m = \<lparr>cells = (\<lambda>x y. if x < 80 \<and> y < 25 then vga_cell x y (ram m) else (0, 0)),
     tx = unat (curX (con m)), ty = unat (curY (con m)), tattr = con_attr (con m)\<rparr>"

definition con_wf :: "machine \<Rightarrow> bool" where
  "con_wf m \<longleftrightarrow> curX (con m) < 80 \<and> curY (con m) < 25"

text \<open>The only effects of console output: screen memory, console variables, port accesses.\<close>

definition console_step :: "machine \<Rightarrow> machine \<Rightarrow> bool" where
  "console_step m m1 \<longleftrightarrow> m1 = m\<lparr>ram := ram m1, con := con m1, trace := trace m1\<rparr>
     \<and> screen_only (ram m) m1"

section \<open>Lemmas: the terminal\<close>

lemma console_step_refl [simp]: "console_step m m"
  by (simp add: console_step_def screen_only_def)

lemma console_step_trans: "console_step m m1 \<Longrightarrow> console_step m1 m2 \<Longrightarrow> console_step m m2"
  unfolding console_step_def screen_only_def
  by (elim conjE, erule ssubst [of m2], erule ssubst [of m1]) simp

lemma console_step_con [simp]: "console_step m (m\<lparr>con := c\<rparr>)"
  by (simp add: console_step_def screen_only_def)

lemma console_step_trace [simp]: "console_step m (m\<lparr>trace := t\<rparr>)"
  by (simp add: console_step_def screen_only_def)


lemma console_step_screen:
  "(\<And>a. \<not> vga_region a \<Longrightarrow> f (ram m) a = ram m a) \<Longrightarrow> console_step m (ram_update f m)"
  by (cases m) (simp add: console_step_def screen_only_def)

lemma cells_put:
  "x < 80 \<Longrightarrow> y < 25 \<Longrightarrow>
   (\<lambda>x' y'. if x' < 80 \<and> y' < 25 then vga_cell x' y' (vga_put x y c r) else (0, 0))
   = (\<lambda>x' y'. if x' < 80 \<and> y' < 25 then vga_cell x' y' r else (0, 0))
       (x := (\<lambda>y'. if y' < 25 then vga_cell x y' r else (0, 0))(y := c))"
  by (auto simp: fun_eq_iff vga.cell_put)

lemma cells_scroll:
  "(\<lambda>x y. if x < 80 \<and> y < 25 then vga_cell x y (vga_scroll_mem r) else (0, 0))
   = term_scroll (\<lambda>x y. if x < 80 \<and> y < 25 then vga_cell x y r else (0, 0))"
proof (intro ext)
  fix x y :: nat
  consider "x < 80" "y < 24" | "x < 80" "y = 24" | "\<not> (x < 80 \<and> y < 25)" by linarith
  then show "(if x < 80 \<and> y < 25 then vga_cell x y (vga_scroll_mem r) else (0, 0))
     = term_scroll (\<lambda>x y. if x < 80 \<and> y < 25 then vga_cell x y r else (0, 0)) x y"
  proof cases
    case 1
    then show ?thesis by (simp add: term_scroll_def vga.cell_scroll)
  next
    case 2
    then show ?thesis
      by (simp add: term_scroll_def vga.cell_scroll_last) (simp add: vga_cell_def)
  next
    case 3
    then show ?thesis by (auto simp: term_scroll_def)
  qed
qed

lemma cursor_args: "in_int32 (uint (y :: u8) * 80)" "in_int32 (uint y * 80 + uint (x :: u8))"
  using unsigned_less [of x, where ?'a = int] unsigned_less [of y, where ?'a = int]
    unsigned_greater_eq [of x, where ?'a = int] unsigned_greater_eq [of y, where ?'a = int]
  unfolding in_int32_def by (simp; linarith)+

lemmas update_cursor_u8 = VGA_update_cursor_done [OF cursor_args]

lemma term_of_trace [simp]: "term_of (m\<lparr>trace := t\<rparr>) = term_of m"
  by (simp add: term_of_def cong: if_cong)

lemma con_wf_trace [simp]: "con_wf (m\<lparr>trace := t\<rparr>) = con_wf m"
  by (simp add: con_wf_def)

text \<open>The two conditional statements of \<^verbatim>\<open>_AdjScrollDrown\<close>, as functions of the machine.\<close>

definition wrap_con :: "console \<Rightarrow> console" where
  "wrap_con c = (if curX c \<ge> CON_WIDTH then c\<lparr>curX := 0, curY := curY c + 1\<rparr> else c)"

definition adjust_con :: "machine \<Rightarrow> machine" where
  "adjust_con m = (let c = wrap_con (con m) in
     if curY c \<ge> CON_HEIGHT
     then m\<lparr>ram := vga_scroll_mem (ram m), con := c\<lparr>curY := curY c - 1\<rparr>\<rparr>
     else m\<lparr>con := c\<rparr>)"

lemma AdjScrollDrown_done: "\<exists>t. AdjScrollDrown m = Done () ((adjust_con m)\<lparr>trace := t\<rparr>)"
proof -
  have 1: "AdjScrollDrown m
    = bind (gets con) (\<lambda>c. VGA_update_cursor (uint (curX c)) (uint (curY c))) (adjust_con m)"
    by (simp add: AdjScrollDrown_def mod_con_def wrap_con_def VGA_scroll_down_def Let_def
        adjust_con_def run ram_update_eq [of vga_scroll_mem])
  then show ?thesis
    by (simp add: run update_cursor_u8) blast
qed

lemma u8_add_1: "unat (y :: u8) < 255 \<Longrightarrow> unat (y + 1) = Suc (unat y)"
  by (simp add: unat_word_ariths)


lemma u8_less: "(y :: u8) < 80 \<longleftrightarrow> unat y < 80" "y < 25 \<longleftrightarrow> unat y < 25"
  "80 \<le> y \<longleftrightarrow> 80 \<le> unat y" "25 \<le> y \<longleftrightarrow> 25 \<le> unat y"
  by (simp_all add: word_less_nat_alt word_le_nat_alt)

lemma adjust_con_term:
  assumes "unat (curX (con m)) \<le> 80" "unat (curY (con m)) \<le> 25"
    "80 \<le> unat (curX (con m)) \<Longrightarrow> unat (curY (con m)) < 25"
  shows "con_wf (adjust_con m)" "term_of (adjust_con m) = term_adjust (term_of m)"
    "console_step m (adjust_con m)"
proof -
  have d: "unat (y - 1) = unat y - 1" if "0 < unat y" for y :: u8
    using that by (simp add: unat_minus_one unat_gt_0)
  have "unat (curY (con m) + 1) = Suc (unat (curY (con m)))"
    using assms by (intro u8_add_1) simp
  note facts = assms this
  show "con_wf (adjust_con m)"
    using facts
    by (auto simp: adjust_con_def wrap_con_def con_wf_def CON_WIDTH_def CON_HEIGHT_def u8_less d Let_def)
  show "term_of (adjust_con m) = term_adjust (term_of m)"
    using facts
    by (auto simp: adjust_con_def wrap_con_def term_of_def CON_WIDTH_def CON_HEIGHT_def u8_less d
        Let_def term_adjust_def cells_scroll cong: if_cong)
  have "console_step m (ram_update vga_scroll_mem m)"
    by (rule console_step_screen) (simp add: vga_scroll_apply vga_region_def in_region_def Let_def)
  then show "console_step m (adjust_con m)"
    by (auto simp: adjust_con_def Let_def ram_update_eq [of vga_scroll_mem]
        elim!: console_step_trans [OF _ console_step_con, of m "m\<lparr>ram := vga_scroll_mem (ram m)\<rparr>", simplified])
qed

lemma AdjScrollDrown_term:
  assumes "unat (curX (con m)) \<le> 80" "unat (curY (con m)) \<le> 25"
    "80 \<le> unat (curX (con m)) \<Longrightarrow> unat (curY (con m)) < 25"
  shows "\<exists>m1. AdjScrollDrown m = Done () m1 \<and> con_wf m1 \<and> term_of m1 = term_adjust (term_of m)
    \<and> console_step m m1"
proof -
  obtain t where "AdjScrollDrown m = Done () ((adjust_con m)\<lparr>trace := t\<rparr>)"
    using AdjScrollDrown_done by blast
  with adjust_con_term [OF assms] show ?thesis
    by (auto intro: console_step_trans)
qed

lemma CON_newline_term:
  assumes "con_wf m"
  shows "\<exists>m1. CON_newline m = Done () m1 \<and> con_wf m1 \<and> term_of m1 = term_putc 10 (term_of m)
    \<and> console_step m m1"
proof -
  have y: "unat (curY (con m)) < 25" using assms by (simp add: con_wf_def u8_less)
  then have y1: "unat (curY (con m) + 1) = Suc (unat (curY (con m)))" by (intro u8_add_1) simp
  define t where "t = (case CON_gotoXY 0 (curY (con m) + 1) m of Done _ m1 \<Rightarrow> trace m1 | Stop _ _ \<Rightarrow> [])"
  let ?m = "m\<lparr>con := (con m)\<lparr>curX := 0, curY := curY (con m) + 1\<rparr>, trace := t\<rparr>"
  have g: "CON_gotoXY 0 (curY (con m) + 1) m = Done () ?m"
    using update_cursor_u8 [of 0 "curY (con m) + 1" m]
    by (simp add: CON_gotoXY_def mod_con_def run t_def)
  have "term_of ?m = (term_of m)\<lparr>tx := 0, ty := Suc (ty (term_of m))\<rparr>"
    by (simp add: term_of_def y1 cong: if_cong)
  moreover have "console_step m ?m"
    by (rule console_step_trans [OF console_step_con console_step_trace])
  ultimately show ?thesis
    using AdjScrollDrown_term [of ?m] y y1
    by (auto simp: CON_newline_def term_putc_def run g intro: console_step_trans)
qed

lemma CON_putc_term:
  assumes "con_wf m"
  shows "\<exists>m1. CON_putc ch m = Done () m1 \<and> con_wf m1 \<and> term_of m1 = term_putc ch (term_of m)
    \<and> console_step m m1"
proof (cases "ch = 10")
  case True
  with CON_newline_term [OF assms] show ?thesis by (simp add: CON_putc_def)
next
  case False
  let ?x = "curX (con m)" and ?y = "curY (con m)"
  have b: "unat ?x < 80" "unat ?y < 25" using assms by (simp_all add: con_wf_def u8_less)
  then have x1: "unat (?x + 1) = Suc (unat ?x)" by (intro u8_add_1) simp
  let ?r = "vga_put (unat ?x) (unat ?y) (ch, con_attr (con m)) (ram m)"
  let ?m = "m\<lparr>ram := ?r, con := (con m)\<lparr>curX := ?x + 1\<rparr>\<rparr>"
  have w: "VGA_WriteChar (uint ?x) (uint ?y) ch (con_attr (con m)) m = Done () (m\<lparr>ram := ?r\<rparr>)"
    using VGA_WriteChar_put [OF b, of ch "con_attr (con m)"]
    by (simp add: run ram_update_eq [of "vga_put _ _ _"])
  have "screen_only (ram m) (m\<lparr>ram := ?r\<rparr>)"
    using preserves_Done [OF screen_only_VGA_WriteChar _ w, of "ram m"] by (simp add: screen_only_def)
  then have "console_step m (m\<lparr>ram := ?r\<rparr>)" by (simp add: console_step_def)
  then have s: "console_step m ?m" by (rule console_step_trans) simp
  have t: "term_of ?m = (term_of m)\<lparr>cells := (cells (term_of m))(tx (term_of m) :=
      (cells (term_of m) (tx (term_of m)))(ty (term_of m) := (ch, tattr (term_of m)))),
      tx := Suc (tx (term_of m))\<rparr>"
    using b by (simp add: term_of_def x1 cells_put cong: if_cong)
  show ?thesis
    using AdjScrollDrown_term [of ?m] b x1 s t False
    by (auto simp: CON_putc_def term_putc_def mod_con_def run w intro: console_step_trans)
qed


lemma CON_puts_term:
  "con_wf m \<Longrightarrow> 0 \<notin> set cs \<Longrightarrow>
     \<exists>m1. CON_puts (cs @ 0 # rest) m = Done () m1 \<and> con_wf m1
       \<and> term_of m1 = fold term_putc cs (term_of m) \<and> console_step m m1"
proof (induction cs arbitrary: m)
  case Nil
  then show ?case by (auto simp: run)
next
  case (Cons c cs)
  obtain m1 where m1: "CON_putc c m = Done () m1" "con_wf m1" "term_of m1 = term_putc c (term_of m)"
    "console_step m m1"
    using CON_putc_term [OF Cons.prems(1)] by blast
  moreover obtain m2 where "CON_puts (cs @ 0 # rest) m1 = Done () m2" "con_wf m2"
    "term_of m2 = fold term_putc cs (term_of m1)" "console_step m1 m2"
    using Cons.IH [OF m1(2)] Cons.prems by auto
  ultimately show ?case
    using Cons.prems by (auto simp: run intro: console_step_trans)
qed

lemma console_step_iflag: "console_step m m1 \<Longrightarrow> iflag m1 = iflag m"
  unfolding console_step_def by (elim conjE, erule ssubst) simp

section \<open>Lemmas: formatted output\<close>

lemma vsprintf_literal:
  "(\<And>x. x \<in> set xs \<Longrightarrow> x \<noteq> 0 \<and> x \<noteq> 0x25) \<Longrightarrow> cs \<noteq> [] \<Longrightarrow>
     vsprintf_loop (xs @ cs) args out = vsprintf_loop cs args (out @ xs)"
proof (induction xs arbitrary: out)
  case Nil
  then show ?case by simp
next
  case (Cons x xs)
  then obtain f zs where "xs @ cs = f # zs" by (cases "xs @ cs") auto
  then have "vsprintf_loop (x # (xs @ cs)) args out = vsprintf_loop (xs @ cs) args (out @ [x])"
    using Cons.prems(1) [of x] by simp
  with Cons show ?case by simp
qed

lemma vsprintf_s:
  assumes "0 \<notin> set s" "length s < 2 ^ 32"
  shows "vsprintf_loop (0x25 # 0x73 # cs) (VStr (s @ 0 # rest) # as) out
    = vsprintf_loop cs as (out @ s)"
  using assms by (simp add: strlen_append unat_of_nat_small)

lemma number_bytes_conv:
  assumes "0 \<notin> set ds" "length ds \<le> 12"
  shows "number_bytes (Some (ds @ [0])) = Some ds"
  using assms by (simp add: number_bytes_def BUF_SIZE_def strnlen_append unat_of_nat_small)

lemma number_bytes_digits:
  assumes "8 \<le> b" "b \<le> 16" "0 \<le> v" "v < 2 ^ 32"
  shows "number_bytes (Some (digit_chars (digits b v) @ [0])) = Some (digit_chars (digits b v))"
  using assms length_digits_32 [of b v] by (intro number_bytes_conv) (simp_all add: digit_chars_nonzero)

lemma vsprintf_d:
  assumes "0 \<le> sint v"
  shows "vsprintf_loop (0x25 # 0x64 # cs) (VInt v # as) out
    = vsprintf_loop cs as (out @ digit_chars (digits 10 (sint v)))"
proof -
  have "sint v < 2 ^ 31" using sint_lt [of v] by simp
  then have "number_bytes (itoa (sint v) 10) = Some (digit_chars (digits 10 (sint v)))"
    using assms itoa_nonneg [of 10 "sint v"] number_bytes_digits [of 10 "sint v"] by simp
  then show ?thesis by simp
qed

lemma vsprintf_u:
  "vsprintf_loop (0x25 # 0x75 # cs) (VInt v # as) out
    = vsprintf_loop cs as (out @ digit_chars (digits 10 (uint v)))"
  "f = 0x58 \<or> f = 0x78 \<Longrightarrow> vsprintf_loop (0x25 # f # cs) (VInt v # as) out
    = vsprintf_loop cs as (out @ digit_chars (digits 16 (uint v)))"
proof -
  have "uint v < 2 ^ 32" using unsigned_less [of v, where ?'a = int] by simp
  then have "number_bytes (utoa v 10) = Some (digit_chars (digits 10 (uint v)))"
    "number_bytes (utoa v 16) = Some (digit_chars (digits 16 (uint v)))"
    using utoa_eq [of 10 v] utoa_eq [of 16 v] number_bytes_digits [of 10 "uint v"]
      number_bytes_digits [of 16 "uint v"] by simp_all
  then show "vsprintf_loop (0x25 # 0x75 # cs) (VInt v # as) out
    = vsprintf_loop cs as (out @ digit_chars (digits 10 (uint v)))"
    "f = 0x58 \<or> f = 0x78 \<Longrightarrow> vsprintf_loop (0x25 # f # cs) (VInt v # as) out
    = vsprintf_loop cs as (out @ digit_chars (digits 16 (uint v)))"
    by auto
qed

section \<open>Reference: formats and their text\<close>

text \<open>
  A format as a sequence of pieces: literal text, \<^verbatim>\<open>%%\<close>, and the conversions with
  their arguments (\<open>up\<close> chooses between \<^verbatim>\<open>%X\<close> and \<^verbatim>\<open>%x\<close>, \<open>alt\<close> between
  \<^verbatim>\<open>%i\<close> and \<^verbatim>\<open>%d\<close>).
\<close>

datatype piece = Lit cstring | Percent | Chr u32 | Str cstring | Dec bool u32 | Uns u32 | Hex bool u32

primrec piece_fmt :: "piece \<Rightarrow> cstring" where
  "piece_fmt (Lit xs) = xs"
| "piece_fmt Percent = [0x25, 0x25]"
| "piece_fmt (Chr v) = [0x25, 0x63]"
| "piece_fmt (Str s) = [0x25, 0x73]"
| "piece_fmt (Dec alt v) = [0x25, if alt then 0x69 else 0x64]"
| "piece_fmt (Uns v) = [0x25, 0x75]"
| "piece_fmt (Hex up v) = [0x25, if up then 0x58 else 0x78]"

primrec piece_args :: "piece \<Rightarrow> vararg list" where
  "piece_args (Lit xs) = []"
| "piece_args Percent = []"
| "piece_args (Chr v) = [VInt v]"
| "piece_args (Str s) = [VStr (s @ [0])]"
| "piece_args (Dec alt v) = [VInt v]"
| "piece_args (Uns v) = [VInt v]"
| "piece_args (Hex up v) = [VInt v]"

text \<open>The minus sign comes after the digits, as \<^verbatim>\<open>itoa\<close> puts it.\<close>

definition dec_text :: "int \<Rightarrow> cstring" where
  "dec_text z = (if 0 \<le> z then digit_chars (digits 10 z) else digit_chars (digits 10 (- z)) @ [0x2D])"

primrec piece_text :: "piece \<Rightarrow> cstring" where
  "piece_text (Lit xs) = xs"
| "piece_text Percent = [0x25]"
| "piece_text (Chr v) = [ucast v]"
| "piece_text (Str s) = s"
| "piece_text (Dec alt v) = dec_text (sint v)"
| "piece_text (Uns v) = digit_chars (digits 10 (uint v))"
| "piece_text (Hex up v) = digit_chars (digits 16 (uint v))"

primrec piece_ok :: "piece \<Rightarrow> bool" where
  "piece_ok (Lit xs) = (0 \<notin> set xs \<and> 0x25 \<notin> set xs)"
| "piece_ok Percent = True"
| "piece_ok (Chr v) = True"
| "piece_ok (Str s) = (0 \<notin> set s \<and> length s < 2 ^ 32)"
| "piece_ok (Dec alt v) = (sint v \<noteq> - (2 ^ 31))"
| "piece_ok (Uns v) = True"
| "piece_ok (Hex up v) = True"

definition fmt_of :: "piece list \<Rightarrow> cstring" where "fmt_of ps = concat (map piece_fmt ps)"
definition args_of :: "piece list \<Rightarrow> vararg list" where "args_of ps = concat (map piece_args ps)"
definition text_of :: "piece list \<Rightarrow> cstring" where "text_of ps = concat (map piece_text ps)"

lemmas pieces_simps = fmt_of_def args_of_def text_of_def

lemma number_bytes_dec:
  assumes "sint v \<noteq> - (2 ^ 31)"
  shows "number_bytes (itoa (sint (v :: u32)) 10) = Some (dec_text (sint v))"
proof (cases "0 \<le> sint v")
  case True
  have "sint v < 2 ^ 31" using sint_lt [of v] by simp
  then show ?thesis
    using True itoa_nonneg [of 10 "sint v"] number_bytes_digits [of 10 "sint v"] by (simp add: dec_text_def)
next
  case False
  have "- (2 ^ 31) \<le> sint v" using sint_ge [of v] by simp
  with assms have b: "- (2 ^ 31) < sint v" by simp
  then have l: "length (digits 10 (- sint v)) \<le> 11"
    using False by (intro length_digits_32) auto
  have "itoa (sint v) 10 = Some ((digit_chars (digits 10 (- sint v)) @ [0x2D]) @ [0])"
    using False b itoa_neg [of 10 "sint v"] by simp
  moreover have "number_bytes (Some ((digit_chars (digits 10 (- sint v)) @ [0x2D]) @ [0]))
      = Some (digit_chars (digits 10 (- sint v)) @ [0x2D])"
    using False l by (intro number_bytes_conv) (simp_all add: digit_chars_nonzero)
  ultimately show ?thesis using False by (simp add: dec_text_def)
qed

lemma vsprintf_piece:
  assumes "piece_ok p" "cs \<noteq> []"
  shows "vsprintf_loop (piece_fmt p @ cs) (piece_args p @ as) out = vsprintf_loop cs as (out @ piece_text p)"
proof (cases p)
  case (Lit xs)
  with assms show ?thesis by (auto intro!: vsprintf_literal)
next
  case (Str s)
  with assms vsprintf_s [of s cs "[]" as out] show ?thesis by (simp del: vsprintf_loop.simps)
next
  case (Dec alt v)
  with assms show ?thesis by (simp add: number_bytes_dec)
next
  case (Uns v)
  with vsprintf_u(1) [of cs v as out] show ?thesis by (simp del: vsprintf_loop.simps)
next
  case (Hex up v)
  with vsprintf_u(2) [of "if up then 0x58 else 0x78" cs v as out] show ?thesis
    by (simp del: vsprintf_loop.simps)
qed simp_all

lemma vsprintf_pieces:
  "list_all piece_ok ps \<Longrightarrow> cs \<noteq> [] \<Longrightarrow>
     vsprintf_loop (fmt_of ps @ cs) (args_of ps @ as) out = vsprintf_loop cs as (out @ text_of ps)"
  by (induction ps arbitrary: out) (simp_all add: pieces_simps vsprintf_piece del: vsprintf_loop.simps)

lemma CON_printf_term:
  assumes "con_wf m" "vsprintf_loop fmt args [] = Some (cs @ 0 # rest)" "0 \<notin> set cs"
    "length (cs @ 0 # rest) \<le> 256"
  shows "\<exists>m1. CON_printf fmt args m = Done (int (length (cs @ 0 # rest))) m1 \<and> con_wf m1
    \<and> term_of m1 = fold term_putc cs (term_of m) \<and> console_step m m1"
proof -
  obtain m1 where "CON_puts (cs @ 0 # rest) m = Done () m1" "con_wf m1"
    "term_of m1 = fold term_putc cs (term_of m)" "console_step m m1"
    using CON_puts_term [OF assms(1,3)] by blast
  then show ?thesis
    using assms by (intro exI [of _ m1]) (simp add: CON_printf_def CON_vsprintf_def run)
qed


lemma CON_printf_pieces:
  assumes "con_wf m" "list_all piece_ok ps" "0 \<notin> set (text_of ps)" "length (text_of ps) < 256"
  shows "\<exists>m1. CON_printf (fmt_of ps @ [0]) (args_of ps) m = Done (int (length (text_of ps)) + 1) m1
    \<and> con_wf m1 \<and> term_of m1 = fold term_putc (text_of ps) (term_of m) \<and> console_step m m1"
proof -
  have "vsprintf_loop (fmt_of ps @ [0]) (args_of ps) [] = Some (text_of ps @ 0 # [])"
    using vsprintf_pieces [OF assms(2), of "[0]" "[]" "[]"] by simp
  from CON_printf_term [OF assms(1) this assms(3)] assms(4) show ?thesis
    by (auto simp: add.commute)
qed

text \<open>A bound on the width of each piece, so that a call is checked from its format alone.\<close>

primrec piece_width :: "piece \<Rightarrow> nat" where
  "piece_width (Lit xs) = length xs"
| "piece_width Percent = 1"
| "piece_width (Chr v) = 1"
| "piece_width (Str s) = length s"
| "piece_width (Dec alt v) = 12"
| "piece_width (Uns v) = 11"
| "piece_width (Hex up v) = 11"

definition piece_printable :: "piece \<Rightarrow> bool" where
  "piece_printable p \<longleftrightarrow> piece_ok p \<and> (case p of Chr v \<Rightarrow> (ucast v :: u8) \<noteq> 0 | _ \<Rightarrow> True)"

lemma digits_uint_length: "2 \<le> b \<Longrightarrow> b \<le> 16 \<Longrightarrow> 10 \<le> b \<Longrightarrow> length (digits b (uint (w :: u32))) \<le> 11"
  using unsigned_less [of w, where ?'a = int] by (intro length_digits_32) simp_all

lemma dec_text_length:
  assumes "sint (v :: u32) \<noteq> - (2 ^ 31)"
  shows "length (dec_text (sint v)) \<le> 12"
proof -
  have "- (2 ^ 31) \<le> sint v" "sint v < 2 ^ 31" using sint_ge [of v] sint_lt [of v] by simp_all
  then have "0 \<le> sint v \<Longrightarrow> length (digits 10 (sint v)) \<le> 11"
    "\<not> 0 \<le> sint v \<Longrightarrow> length (digits 10 (- sint v)) \<le> 11"
    using assms by (intro length_digits_32; simp)+
  then show ?thesis by (auto simp: dec_text_def)
qed

lemma piece_printable_text:
  assumes "piece_printable p"
  shows "0 \<notin> set (piece_text p)" "length (piece_text p) \<le> piece_width p"
  using assms digits_uint_length dec_text_length
  by (cases p; auto simp: piece_printable_def dec_text_def digit_chars_nonzero)+

lemma CON_printf_pieces_w:
  assumes "con_wf m" "list_all piece_printable ps" "sum_list (map piece_width ps) < 256"
  shows "\<exists>m1. CON_printf (fmt_of ps @ [0]) (args_of ps) m = Done (int (length (text_of ps)) + 1) m1
    \<and> con_wf m1 \<and> term_of m1 = fold term_putc (text_of ps) (term_of m) \<and> console_step m m1"
proof (rule CON_printf_pieces [OF assms(1)])
  have "length (text_of ps) \<le> sum_list (map piece_width ps)" "0 \<notin> set (text_of ps)" "list_all piece_ok ps"
    using assms(2)
    by (induction ps) (auto simp: text_of_def piece_printable_text piece_printable_def add_mono)
  with assms(3) show "length (text_of ps) < 256" "0 \<notin> set (text_of ps)" "list_all piece_ok ps" by simp_all
qed

section \<open>Lemmas: panic\<close>

lemma length_cstr [simp]: "length (cstr s) = length s"
  by (simp add: cstr_def)

lemma vga_cell_fill:
  assumes "x < 80" "y < 25"
  shows "vga_cell x y (vga_fill_mem v r) = (0, v)"
proof -
  define k where "k = 2 * (80 * y + x)"
  have k: "k + 1 < 4000" "even k" unfolding k_def by (rule cell_index_bound [OF assms]) simp
  then have "unat (of_nat k :: u32) = k" "unat (of_nat (k + 1) :: u32) = k + 1"
    by (intro unat_of_nat_small; simp)+
  with k show ?thesis
    unfolding vga_cell_def k_def [symmetric] by (simp add: vga_fill_apply Let_def del: of_nat_add)
qed

definition panic_text :: "cstring \<Rightarrow> cstring \<Rightarrow> nat \<Rightarrow> cstring" where
  "panic_text msg file line = cstr ''Kernel Panic!'' @ [10] @ msg @ [10] @ cstr ''file: '' @ file
     @ [58] @ digit_chars (digits 10 (int line))"

definition panic_screen :: term_state where
  "panic_screen = \<lparr>cells = (\<lambda>x y. if x < 80 \<and> y < 25 then (0, 0x1F) else (0, 0)),
     tx = 0, ty = 0, tattr = 0x1F\<rparr>"

lemma panic_format:
  assumes "0 \<notin> set msg" "0 \<notin> set file" "line < 2 ^ 31" "length msg < 2 ^ 32" "length file < 2 ^ 32"
  shows "vsprintf_loop (cstr ''Kernel Panic!'' @ [10] @ cstr ''%s'' @ [10] @ cstr ''file: %s:%d'' @ [0])
     [VStr (msg @ [0]), VStr (file @ [0]), VInt (of_nat line)] [] = Some (panic_text msg file line @ [0])"
proof -
  let ?a = "cstr ''Kernel Panic!'' @ [10]" and ?b = "10 # cstr ''file: ''"
  have split: "cstr ''Kernel Panic!'' @ [10] @ cstr ''%s'' @ [10] @ cstr ''file: %s:%d'' @ [0]
      = ?a @ 0x25 # 0x73 # ?b @ 0x25 # 0x73 # 58 # 0x25 # 0x64 # [0]"
    by (simp add: cstr_def)
  have lit: "x \<noteq> 0 \<and> x \<noteq> 0x25" if "x \<in> set ?a \<or> x \<in> set ?b" for x
    using that by (auto simp: cstr_def)
  have "sint (of_nat line :: u32) = int line"
    using assms(3) by (simp add: signed_of_nat signed_take_bit_int_eq_self)
  then have d: "vsprintf_loop [0x25, 0x64, 0] [VInt (of_nat line)] out
      = Some (out @ digit_chars (digits 10 (int line)) @ [0])" for out
    using vsprintf_d [of "of_nat line" "[0]" "[]" out] by (simp del: vsprintf_loop.simps) simp
  have c: "vsprintf_loop (58 # 0x25 # cs) as out = vsprintf_loop (0x25 # cs) as (out @ [58])"
    for cs as out by simp
  have l: "vsprintf_loop (?a @ 0x25 # cs) as out = vsprintf_loop (0x25 # cs) as (out @ ?a)"
    "vsprintf_loop (?b @ 0x25 # cs) as out = vsprintf_loop (0x25 # cs) as (out @ ?b)" for cs as out
    by (rule vsprintf_literal; use lit in blast)+
  show ?thesis
    unfolding split l vsprintf_s [OF assms(1,4)] vsprintf_s [OF assms(2,5)] c d
    by (simp add: panic_text_def)
qed

lemma panic_text_nonzero:
  assumes "0 \<notin> set msg" "0 \<notin> set file"
  shows "0 \<notin> set (panic_text msg file line)"
  using assms digit_chars_nonzero [of 10 "int line"] by (simp add: panic_text_def cstr_def)

lemma length_panic_text:
  assumes "line < 2 ^ 31"
  shows "length (panic_text msg file line) \<le> length msg + length file + 34"
proof -
  have "length (digits 10 (int line)) \<le> 11" using assms by (intro length_digits_32) simp_all
  then show ?thesis by (simp add: panic_text_def cstr_def)
qed

section \<open>Lemmas: panic stops the machine\<close>

text \<open>What holds in every state and survives a console output: it does not look at the screen.\<close>

definition console_stable :: "(machine \<Rightarrow> bool) \<Rightarrow> bool" where
  "console_stable I \<longleftrightarrow> (\<forall>m r. I m \<longrightarrow> I (m\<lparr>ram := r\<rparr>)) \<and> (\<forall>m c. I m \<longrightarrow> I (m\<lparr>con := c\<rparr>))
     \<and> (\<forall>v. preserves I (outb VGA_REG_CTRL v)) \<and> (\<forall>v. preserves I (outb VGA_REG_DATA v))"

lemma stable_cursor: "console_stable I \<Longrightarrow> preserves I (VGA_update_cursor x y)"
  unfolding VGA_update_cursor_def Let_def console_stable_def
  by (intro preserves_if preserves_stop preserves_exec) auto

lemma stable_mod_con: "console_stable I \<Longrightarrow> preserves I (mod_con f)"
  unfolding mod_con_def console_stable_def by (intro preserves_modify) simp

lemma stable_ram: "console_stable I \<Longrightarrow> preserves I (modify (ram_update f))"
  unfolding console_stable_def by (rule preserves_modify, rule closed_ram_update) simp_all

lemmas stable_frame = preserves_bind preserves_gets preserves_when preserves_exec preserves_ret
  preserves_stop preserves_if stable_mod_con stable_cursor stable_ram

lemma stable_adjust: "console_stable I \<Longrightarrow> preserves I AdjScrollDrown"
  unfolding AdjScrollDrown_def VGA_scroll_down_def by (auto intro!: stable_frame)

lemma stable_putc: "console_stable I \<Longrightarrow> preserves I (CON_putc ch)"
  unfolding CON_putc_def CON_newline_def CON_gotoXY_def
  by (auto intro!: stable_frame stable_adjust preserves_VGA_WriteChar) (simp_all add: console_stable_def)

lemma stable_puts: "console_stable I \<Longrightarrow> preserves I (CON_puts cs)"
  by (induction cs) (auto intro!: stable_frame stable_putc)

lemma stable_printf: "console_stable I \<Longrightarrow> preserves I (CON_printf fmt args)"
  unfolding CON_printf_def by (auto intro!: stable_frame stable_puts split: option.splits)

text \<open>
  What a panic leaves behind: interrupts off, the last event \<^verbatim>\<open>hlt\<close>, nothing changed but the
  screen and the console, and no port written but those of the cursor.
\<close>

definition panic_event :: "event \<Rightarrow> bool" where
  "panic_event e = (case e of Cli \<Rightarrow> True | Hlt \<Rightarrow> True | Out8 p v \<Rightarrow> p = VGA_REG_CTRL \<or> p = VGA_REG_DATA | _ \<Rightarrow> False)"

definition panicked :: "machine \<Rightarrow> machine \<Rightarrow> bool" where
  "panicked m m1 \<longleftrightarrow> (\<exists>r c es. m1 = m\<lparr>ram := r, con := c, trace := trace m @ es @ [Hlt], iflag := False\<rparr>
     \<and> screen_only (ram m) m1 \<and> list_all panic_event es)"

definition panic_events_after :: "event list \<Rightarrow> machine \<Rightarrow> bool" where
  "panic_events_after t m \<longleftrightarrow> (\<exists>es. trace m = t @ es \<and> list_all panic_event es)"

lemma panic_events_after_log:
  assumes "panic_event e"
  shows "preserves (panic_events_after t) (log e)"
proof -
  have "panic_events_after t (m\<lparr>trace := trace m @ [e]\<rparr>)" if h: "panic_events_after t m" for m
  proof -
    obtain es where "trace m = t @ es" "list_all panic_event es" using h unfolding panic_events_after_def by blast
    with assms show ?thesis unfolding panic_events_after_def by (intro exI [of _ "es @ [e]"]) simp
  qed
  then show ?thesis unfolding log_def by (rule preserves_modify)
qed

lemma stable_panic_events: "console_stable (panic_events_after t)"
proof -
  have "panic_event (Out8 VGA_REG_CTRL v)" "panic_event (Out8 VGA_REG_DATA v)" for v by (simp_all add: panic_event_def)
  then show ?thesis
    unfolding console_stable_def outb_def by (simp add: panic_events_after_log) (simp add: panic_events_after_def)
qed

lemma panic_stops:
  assumes "0 \<notin> set msg" "0 \<notin> set file" "line < 2 ^ 31" "length msg + length file \<le> 220"
  shows "\<exists>m1. panic (msg @ [0]) (file @ [0]) line m
      = (Stop (Panic (msg @ [0]) (file @ [0]) line) m1)
    \<and> \<not> iflag m1 \<and> last (trace m1) = Hlt
    \<and> term_of m1 = fold term_putc (panic_text msg file line) panic_screen \<and> panicked m m1"
proof -
  let ?fmt = "cstr ''Kernel Panic!'' @ [10] @ cstr ''%s'' @ [10] @ cstr ''file: %s:%d'' @ [0]"
  let ?args = "[VStr (msg @ [0]), VStr (file @ [0]), VInt (of_nat line)]"
  define t where "t = trace m @ [Cli, Out8 VGA_REG_CTRL 0x0F, Out8 VGA_REG_DATA 0,
      Out8 VGA_REG_CTRL 0x0E, Out8 VGA_REG_DATA 0]"
  define m0 where "m0 = m\<lparr>iflag := False, ram := vga_fill_mem 0x1F (ram m), trace := t,
      con := \<lparr>con_attr = 0x1F, curX = 0, curY = 0\<rparr>\<rparr>"
  have con: "c\<lparr>curX := 0, curY := 0, con_attr := 0x1F\<rparr> = \<lparr>con_attr = 0x1F, curX = 0, curY = 0\<rparr>"
    for c :: console by (cases c) simp
  have fill: "ram_update (vga_fill_mem v) m' = m'\<lparr>ram := vga_fill_mem v (ram m')\<rparr>" for v m'
    by (rule ram_update_eq)
  have "vga_cell x y (ram m0) = (0, 0x1F)" if "x < 80" "y < 25" for x y
    by (simp add: m0_def vga_cell_fill [OF that])
  then have tm: "term_of m0 = panic_screen"
    by (auto simp: term_of_def panic_screen_def fun_eq_iff) (simp_all add: m0_def)
  have wf: "con_wf m0" by (simp add: con_wf_def m0_def)
  obtain m1 where m1: "CON_printf ?fmt ?args m0 = Done (int (length (panic_text msg file line @ [0]))) m1"
    "term_of m1 = fold term_putc (panic_text msg file line) panic_screen" "console_step m0 m1"
    using CON_printf_term [OF wf, of ?fmt ?args "panic_text msg file line" "[]"]
      panic_format [of msg "file" line] panic_text_nonzero [of msg "file" line]
      length_panic_text [of line msg "file"] assms tm by auto
  have "panic (msg @ [0]) (file @ [0]) line m
      = (case CON_printf ?fmt ?args m0 of Done _ m1 \<Rightarrow> Stop (Panic (msg @ [0]) (file @ [0]) line)
          (m1\<lparr>trace := trace m1 @ [Hlt]\<rparr>) | Stop r m1 \<Rightarrow> Stop r m1)"
    using update_cursor_u8 [of 0 0]
    by (simp add: panic_def run VGA_fill_def CON_gotoXY_def mod_con_def CON_setConsoleColor2_def fill
        VGA_COLOR_WHITE_def VGA_COLOR_BLUE_def con m0_def t_def split: outcome.splits)
  moreover have "panicked m (m1\<lparr>trace := trace m1 @ [Hlt]\<rparr>)"
  proof -
    have "panic_events_after (trace m) m0"
      by (simp add: panic_events_after_def m0_def t_def panic_event_def)
    from preserves_Done [OF stable_printf [OF stable_panic_events] this m1(1)]
    obtain es where es: "trace m1 = trace m @ es" "list_all panic_event es"
      unfolding panic_events_after_def by blast
    obtain r c u where u: "m1 = m0\<lparr>ram := r, con := c, trace := u\<rparr>" and so: "screen_only (ram m0) m1"
      using m1(3) unfolding console_step_def by blast
    have "u = trace m @ es" using es(1) by (simp add: u)
    then have "m1\<lparr>trace := trace m1 @ [Hlt]\<rparr> = m\<lparr>ram := r, con := c, trace := trace m @ es @ [Hlt], iflag := False\<rparr>"
      by (simp add: u m0_def)
    moreover have so': "screen_only (ram m) m1"
      using so by (simp add: m0_def screen_only_def vga_fill_apply vga_region_def in_region_def Let_def)
    moreover have "screen_only (ram m) (m1\<lparr>trace := trace m1 @ [Hlt]\<rparr>)" using so' by (simp add: screen_only_def)
    ultimately show ?thesis unfolding panicked_def using es(2) by blast
  qed
  ultimately show ?thesis
    using m1(1,2) console_step_iflag [OF m1(3)]
    by (intro exI [of _ "m1\<lparr>trace := trace m1 @ [Hlt]\<rparr>"]) (simp add: m0_def)
qed

lemma KERNEL_PANIC_panicked:
  assumes "0 \<notin> set (cstr msg)" "0 \<notin> set (cstr file)" "line < 2 ^ 31" "length msg + length file \<le> 220"
  shows "\<exists>m1. KERNEL_PANIC msg file line m = Stop (Panic (cstr msg @ [0]) (cstr file @ [0]) line) m1 \<and> panicked m m1"
  using panic_stops [of "cstr msg" "cstr file" line m] assms
  unfolding KERNEL_PANIC_def by (auto simp: length_cstr)

lemma panicked_iflag: "panicked m m1 \<Longrightarrow> \<not> iflag m1"
  by (auto simp: panicked_def)

lemma KERNEL_PANIC_stops:
  assumes "0 \<notin> set (cstr msg)" "0 \<notin> set (cstr file)" "line < 2 ^ 31" "length msg + length file \<le> 220"
  shows "\<exists>m1. KERNEL_PANIC msg file line m = Stop (Panic (cstr msg @ [0]) (cstr file @ [0]) line) m1
    \<and> \<not> iflag m1"
  using panic_stops [of "cstr msg" "cstr file" line m] assms
  unfolding KERNEL_PANIC_def by (auto simp: length_cstr)

section \<open>Properties\<close>

text \<open>
  C6. Writing a character on the console is one step of the terminal: it never fails inside
  the screen, keeps the cursor inside, shows what the terminal shows (wrapping and scrolling
  included), and changes nothing but screen memory, the console variables and the trace of
  port accesses.
\<close>

theorem CON_putc_correct:
  assumes "con_wf m"
  shows "\<exists>m1. CON_putc ch m = Done () m1 \<and> con_wf m1 \<and> term_of m1 = term_putc ch (term_of m)
    \<and> m1 = m\<lparr>ram := ram m1, con := con m1, trace := trace m1\<rparr>
    \<and> (\<forall>a. \<not> vga_region a \<longrightarrow> ram m1 a = ram m a)"
  using CON_putc_term [OF assms, of ch] unfolding console_step_def screen_only_def by blast

theorem CON_putc_correct_witness:
  "\<forall>m. \<exists>m1. CON_putc 65 (m\<lparr>con := \<lparr>con_attr = 7, curX = 79, curY = 24\<rparr>\<rparr>) = Done () m1
     \<and> tx (term_of m1) = 0 \<and> ty (term_of m1) = 24 \<and> cells (term_of m1) 79 23 = (65, 7)"
proof
  fix m :: machine
  let ?m = "m\<lparr>con := \<lparr>con_attr = 7, curX = 79, curY = 24\<rparr>\<rparr>"
  obtain m1 where "CON_putc 65 ?m = Done () m1" "term_of m1 = term_putc 65 (term_of ?m)"
    using CON_putc_correct [of ?m 65] by (auto simp: con_wf_def)
  then show "\<exists>m1. CON_putc 65 ?m = Done () m1
     \<and> tx (term_of m1) = 0 \<and> ty (term_of m1) = 24 \<and> cells (term_of m1) 79 23 = (65, 7)"
    by (intro exI [of _ m1]) (simp add: term_putc_def term_adjust_def term_of_def term_scroll_def)
qed

text \<open>
  \<^verbatim>\<open>CON_printf\<close> with a format whose conversion succeeds and fits its buffer writes the
  converted text on the terminal, and returns its length, with the terminating zero counted.
\<close>

theorem CON_printf_correct:
  assumes "con_wf m" "CON_vsprintf fmt args = Some (cs @ [0], n)" "0 \<notin> set cs" "length cs < 256"
  shows "\<exists>m1. CON_printf fmt args m = Done (int (length cs) + 1) m1 \<and> con_wf m1
    \<and> term_of m1 = fold term_putc cs (term_of m)"
  using CON_printf_term [of m fmt args cs "[]"] assms by (auto simp: CON_vsprintf_def)

theorem CON_printf_correct_witness:
  "\<forall>m. \<exists>m1. CON_printf (cstr ''a%cz'' @ [0]) [VInt 66] (m\<lparr>con := \<lparr>con_attr = 7, curX = 0, curY = 0\<rparr>\<rparr>)
     = Done 4 m1 \<and> tx (term_of m1) = 3"
proof
  fix m :: machine
  let ?m = "m\<lparr>con := \<lparr>con_attr = 7, curX = 0, curY = 0\<rparr>\<rparr>"
  have "CON_vsprintf (cstr ''a%cz'' @ [0]) [VInt 66] = Some ([97, 66, 122] @ [0], 4)"
    by (simp add: CON_vsprintf_def cstr_def)
  then obtain m1 where "CON_printf (cstr ''a%cz'' @ [0]) [VInt 66] ?m = Done 4 m1"
    "term_of m1 = fold term_putc [97, 66, 122] (term_of ?m)"
    using CON_printf_correct [of ?m "cstr ''a%cz'' @ [0]" "[VInt 66]" "[97, 66, 122]" 4]
    by (auto simp: con_wf_def)
  then show "\<exists>m1. CON_printf (cstr ''a%cz'' @ [0]) [VInt 66] ?m = Done 4 m1 \<and> tx (term_of m1) = 3"
    by (intro exI [of _ m1]) (simp add: term_putc_def term_adjust_def term_of_def)
qed

text \<open>
  C21. A kernel panic never returns: from any state it stops the machine with interrupts
  disabled after a final \<^verbatim>\<open>hlt\<close>, and the screen is cleared to white on blue and shows the
  message, the file and the line.
\<close>

theorem panic_correct:
  assumes "0 \<notin> set msg" "0 \<notin> set file" "line < 2 ^ 31" "length msg + length file \<le> 220"
  shows "\<exists>m1. panic (msg @ [0]) (file @ [0]) line m
      = (Stop (Panic (msg @ [0]) (file @ [0]) line) m1 :: unit outcome)
    \<and> \<not> iflag m1 \<and> last (trace m1) = Hlt
    \<and> term_of m1 = fold term_putc (panic_text msg file line) panic_screen"
  using panic_stops [OF assms] by blast

theorem panic_correct_witness:
  "\<forall>m. \<exists>m1. panic (cstr ''no IRQ'' @ [0]) (cstr ''a.c'' @ [0]) 7 m
      = (Stop (Panic (cstr ''no IRQ'' @ [0]) (cstr ''a.c'' @ [0]) 7) m1 :: unit outcome) \<and> \<not> iflag m1"
proof
  fix m :: machine
  show "\<exists>m1. panic (cstr ''no IRQ'' @ [0]) (cstr ''a.c'' @ [0]) 7 m
      = (Stop (Panic (cstr ''no IRQ'' @ [0]) (cstr ''a.c'' @ [0]) 7) m1 :: unit outcome) \<and> \<not> iflag m1"
    using panic_correct [of "cstr ''no IRQ''" "cstr ''a.c''" 7 m] by (auto simp: cstr_def)
qed


text \<open>
  A colour that is set is read back, but the two single setters only add bits to the
  attribute: the colour that was there before shows through the new one.
\<close>

theorem CON_color_correct:
  "(\<exists>m1. bind (CON_setConsoleColor col) (\<lambda>_. CON_getConsoleColor) m = Done col m1)
   \<and> (\<exists>m1. bind (CON_setForegroundColor fg) (\<lambda>_. CON_getConsoleColor) m
        = Done \<lparr>fg_col = ucast (con_attr (con m)) OR ucast fg,
            bg_col = ucast (drop_bit 4 (con_attr (con m)))\<rparr> m1)
   \<and> (\<exists>m1. bind (CON_setBackgroundColor bg) (\<lambda>_. CON_getConsoleColor) m
        = Done \<lparr>fg_col = ucast (con_attr (con m)),
            bg_col = ucast (drop_bit 4 (con_attr (con m))) OR ucast bg\<rparr> m1)"
proof (intro conjI)
  have 1: "(ucast ((push_bit 4 b OR (f AND 0xF)) AND 0xF) :: 4 word) = ucast f"
    "(ucast (drop_bit 4 (push_bit 4 b OR (f AND 0xF))) :: 4 word) = ucast b" for b f :: u8
    by (rule bit_word_eqI; auto simp: bit_simps bit_low_masks)+
  have 2: "(ucast ((a OR (f AND 0xF)) AND 0xF) :: 4 word) = ucast a OR ucast f"
    "(ucast (drop_bit 4 (a OR (f AND 0xF))) :: 4 word) = ucast (drop_bit 4 a)" for a f :: u8
    by (rule bit_word_eqI; auto simp: bit_simps bit_low_masks)+
  have 3: "(ucast ((a OR push_bit 4 b) AND 0xF) :: 4 word) = ucast a"
    "(ucast (drop_bit 4 (a OR push_bit 4 b)) :: 4 word) = ucast (drop_bit 4 a) OR ucast b" for a b :: u8
    by (rule bit_word_eqI; auto simp: bit_simps bit_low_masks)+
  note defs = CON_setConsoleColor_def CON_setConsoleColor2_def CON_getConsoleColor_def mod_con_def
    CON_setForegroundColor_def CON_setBackgroundColor_def run
  have "ucast (ucast c :: u8) = (c :: 4 word)"
    "ucast (drop_bit 4 (push_bit 4 (ucast c :: u8))) = (c :: 4 word)" for c
    by (rule bit_word_eqI; auto simp: bit_simps)+
  then show "\<exists>m1. bind (CON_setConsoleColor col) (\<lambda>_. CON_getConsoleColor) m = Done col m1"
    by (simp add: defs 1)
  show "\<exists>m1. bind (CON_setForegroundColor fg) (\<lambda>_. CON_getConsoleColor) m
        = Done \<lparr>fg_col = ucast (con_attr (con m)) OR ucast fg,
            bg_col = ucast (drop_bit 4 (con_attr (con m)))\<rparr> m1"
    by (simp add: defs 2)
  show "\<exists>m1. bind (CON_setBackgroundColor bg) (\<lambda>_. CON_getConsoleColor) m
        = Done \<lparr>fg_col = ucast (con_attr (con m)),
            bg_col = ucast (drop_bit 4 (con_attr (con m))) OR ucast bg\<rparr> m1"
    by (simp add: defs 3 del: drop_bit_or)
qed


text \<open>
  C18. For every format built from literal text and the supported conversions, the formatted
  output is the concatenation of the texts of its pieces, ended by a zero that the returned
  length counts; \<^verbatim>\<open>%d\<close> is defined for every \<^verbatim>\<open>int\<close> but the smallest.
\<close>

theorem CON_vsprintf_correct:
  assumes "list_all piece_ok ps"
  shows "CON_vsprintf (fmt_of ps @ [0]) (args_of ps)
    = Some (text_of ps @ [0], int (length (text_of ps)) + 1)"
  using vsprintf_pieces [OF assms, of "[0]" "[]" "[]"] by (simp add: CON_vsprintf_def)

theorem CON_vsprintf_correct_witness:
  "CON_vsprintf (cstr ''%d%%'' @ [0]) [VInt (- 42)] = Some (cstr ''42-%'' @ [0], 5)"
proof -
  have "sint (- 42 :: u32) = - 42" by simp
  moreover have "digits 10 42 = [4, 2]" by (simp add: digits.simps [of 10])
  ultimately show ?thesis
    using CON_vsprintf_correct [of "[Dec False (- 42), Percent]"]
    by (simp add: pieces_simps dec_text_def digit_chars_def alphadigit_def cstr_def
        del: vsprintf_loop.simps)
qed

end
