(* ===== verification/Pmm.thy ===== *)
theory Pmm
  imports Console Bitset Boot_Info
begin

text \<open>
  \<^verbatim>\<open>arch/x86/mmu/PMM.{h,c}\<close>: the physical memory manager, a bitmap in memory with one bit per
  4 KiB frame and a counter of the frames in use.  The invariant is that the counter is the
  number of the bits set below the number of frames.
\<close>

section \<open>Definitions\<close>

definition PMM_FRAME_SIZE :: u32 where "PMM_FRAME_SIZE = 4096"
definition PMM_FRAME_ALIGN :: u64 where "PMM_FRAME_ALIGN = 4096"
definition PMM_MEM_MAP_FRAMES_PER_BYTE :: u32 where "PMM_MEM_MAP_FRAMES_PER_BYTE = 8"
definition PMM_file :: string where "PMM_file = ''src/arch/x86/mmu/PMM.c''"

definition align_up :: "u64 \<Rightarrow> u64 \<Rightarrow> u64" where
  "align_up val align = (val + align - 1) AND NOT (align - 1)"

text \<open>\<^verbatim>\<open>_PMM_used_frames_panic\<close>, with its local buffer of 128 bytes.\<close>

definition PMM_used_frames_panic :: "cstring \<Rightarrow> 'a K" where
  "PMM_used_frames_panic msg = bind (gets pmm) (\<lambda>s.
     case CON_sprintf (cstr ''%s: %u (%u)'' @ [0]) [VStr msg, VInt (used_frames s), VInt (total_frames s)] of
       None \<Rightarrow> stop (Undefined ''CON_sprintf'')
     | Some (out, _) \<Rightarrow> if length out > 128 then stop (Undefined ''PMM_used_frames_panic: buffer overflow'')
         else panic out (cstr PMM_file @ [0]) 25)"

definition size2frame :: "u32 \<Rightarrow> u32" where
  "size2frame sz = sz div PMM_FRAME_SIZE + (if sz mod PMM_FRAME_SIZE \<noteq> 0 then 1 else 0)"

text \<open>The first loop of \<^verbatim>\<open>PMM_init\<close>: the largest end address of a region.\<close>

primrec PMM_high_end :: "boot_MEM_MAP_Info_Entry_t list \<Rightarrow> u64 \<Rightarrow> u64 K" where
  "PMM_high_end [] high_end = ret high_end"
| "PMM_high_end (e # es) high_end =
     (if length_hi e \<noteq> 0 \<or> base_addr_hi e \<noteq> 0
      then KERNEL_PANIC ''unable to address more then 4GB'' PMM_file 40
      else let end_addr = ucast (base_addr_lo e) + ucast (length_lo e)
        in PMM_high_end es (if end_addr > high_end then end_addr else high_end))"

definition mark_frame :: "u32 \<Rightarrow> machine \<Rightarrow> machine" where
  "mark_frame f m =
     (if \<not> bitset_test (frames_map (pmm m)) f (ram m)
      then m\<lparr>ram := bitset_set (frames_map (pmm m)) f (ram m),
             pmm := (pmm m)\<lparr>used_frames := used_frames (pmm m) + 1\<rparr>\<rparr>
      else m)"

text \<open>\<^verbatim>\<open>for (uint32_t f = start_frame; f < end_frame; ++f)\<close>\<close>

definition PMM_mark_frames :: "u32 \<Rightarrow> u32 \<Rightarrow> unit K" where
  "PMM_mark_frames start_frame end_frame =
     for_each (\<lambda>f. modify (mark_frame f)) (map of_nat [unat start_frame..<unat end_frame])"

definition PMM_mark_region :: "boot_MEM_MAP_Info_Entry_t \<Rightarrow> unit K" where
  "PMM_mark_region e =
     (if mtype e = MEM_MAP_TYPE_AVAILABLE then ret ()
      else
        let start_frame = base_addr_lo e div PMM_FRAME_SIZE;
            end_frame = ucast (align_up (ucast (base_addr_lo e) + ucast (length_lo e)) PMM_FRAME_ALIGN
              div ucast PMM_FRAME_SIZE) :: u32
        in bind (gets pmm) (\<lambda>s.
           if end_frame > total_frames s then KERNEL_PANIC ''end frame > total frames'' PMM_file 61
           else PMM_mark_frames start_frame end_frame))"

definition PMM_init :: "u32 \<Rightarrow> boot_MEM_MAP_Info_Entry_t list \<Rightarrow> u32 \<Rightarrow> u32 \<Rightarrow> u32 \<Rightarrow> unit K" where
  "PMM_init num_entries mem_map physical_mem_start kernel_start ksize =
     (let entries = take (unat num_entries) mem_map in
      bind (PMM_high_end entries 0) (\<lambda>high_end.
      let total = ucast (align_up high_end PMM_FRAME_ALIGN div ucast PMM_FRAME_SIZE) :: u32;
          mem_map_size = (total + PMM_MEM_MAP_FRAMES_PER_BYTE - 1) div PMM_MEM_MAP_FRAMES_PER_BYTE;
          bitmap_paddr = ucast (align_up (ucast physical_mem_start) (ucast PMM_MEM_MAP_FRAMES_PER_BYTE)) :: u32
      in exec [
        modify (\<lambda>m. m\<lparr>pmm := \<lparr>total_frames = total, used_frames = 0, frames_map = bitmap_paddr\<rparr>\<rparr>),
        modify (\<lambda>m. m\<lparr>ram := memset bitmap_paddr 0 (unat mem_map_size) (ram m)\<rparr>),
        for_each PMM_mark_region entries,
        PMM_mark_frames (kernel_start div PMM_FRAME_SIZE)
          (ucast (align_up (ucast (kernel_start + ksize)) PMM_FRAME_ALIGN div ucast PMM_FRAME_SIZE)),
        PMM_mark_frames (bitmap_paddr div PMM_FRAME_SIZE)
          (ucast (align_up (ucast (bitmap_paddr + mem_map_size)) PMM_FRAME_ALIGN div ucast PMM_FRAME_SIZE))]))"

definition PMM_frames_used :: "machine \<Rightarrow> int" where
  "PMM_frames_used m = sint (used_frames (pmm m))"

definition PMM_frames_free :: "machine \<Rightarrow> int" where
  "PMM_frames_free m = sint (total_frames (pmm m) - used_frames (pmm m))"

text \<open>The comparison of an \<^verbatim>\<open>int\<close> with a \<^verbatim>\<open>uint32_t\<close> is unsigned; a null pointer is 0.\<close>

definition PMM_malloc :: "u32 \<Rightarrow> u32 K" where
  "PMM_malloc sz m =
     (let num_frames = size2frame sz in
      if (of_int (PMM_frames_free m) :: u32) < num_frames then Done 0 m
      else case bitset_find (frames_map (pmm m)) (total_frames (pmm m)) num_frames (ram m) of
          None \<Rightarrow> Done 0 m
        | Some pos \<Rightarrow>
            Done (pos * PMM_FRAME_SIZE)
              (m\<lparr>ram := fold (\<lambda>i. bitset_set (frames_map (pmm m)) (pos + of_nat i)) [0..<unat num_frames] (ram m),
                 pmm := (pmm m)\<lparr>used_frames := used_frames (pmm m) + num_frames\<rparr>\<rparr>))"

definition PMM_free :: "u32 \<Rightarrow> u32 \<Rightarrow> unit K" where
  "PMM_free ptr sz =
     (let num_frames = size2frame sz in
      bind (gets pmm) (\<lambda>s.
      if used_frames s < num_frames then PMM_used_frames_panic (cstr ''PMM_free_frames'' @ [0])
      else let pos = ptr div PMM_FRAME_SIZE in
        exec [
          modify (\<lambda>m. m\<lparr>ram := fold (\<lambda>i. bitset_clear (frames_map (pmm m)) (pos + of_nat i))
            [0..<unat num_frames] (ram m)\<rparr>),
          modify (\<lambda>m. m\<lparr>pmm := (pmm m)\<lparr>used_frames := used_frames (pmm m) - num_frames\<rparr>\<rparr>)]))"

section \<open>The frames in use\<close>

definition used_set :: "machine \<Rightarrow> u32 set" where
  "used_set m = {f. f < total_frames (pmm m) \<and> bitset_test (frames_map (pmm m)) f (ram m)}"

definition pmm_inv :: "machine \<Rightarrow> bool" where
  "pmm_inv m \<longleftrightarrow> unat (used_frames (pmm m)) = card (used_set m)"

text \<open>Only the manager's state and memory change, and the bitmap stays where it is.\<close>

definition pmm_step :: "machine \<Rightarrow> machine \<Rightarrow> bool" where
  "pmm_step m m1 \<longleftrightarrow> m1 = m\<lparr>ram := ram m1, pmm := pmm m1\<rparr>
     \<and> total_frames (pmm m1) = total_frames (pmm m) \<and> frames_map (pmm m1) = frames_map (pmm m)"

lemma pmm_step_refl [simp]: "pmm_step m m"
  by (simp add: pmm_step_def)

lemma pmm_step_trans: "pmm_step m m1 \<Longrightarrow> pmm_step m1 m2 \<Longrightarrow> pmm_step m m2"
  unfolding pmm_step_def by (elim conjE, erule ssubst [of m2], erule ssubst [of m1]) simp

lemma card_words_below: "card {f :: u32. f < n} = unat n"
proof -
  have "bij_betw unat {f. f < n} {..<unat n}"
  proof (rule bij_betw_byWitness [where f' = of_nat])
    show "of_nat ` {..<unat n} \<subseteq> {f. f < n}"
      using unat_le_2p [of n] by (auto simp: word_less_nat_alt unat_of_nat_small)
  qed (use unat_le_2p [of n] in \<open>auto simp: word_less_nat_alt unat_of_nat_small\<close>)
  then show ?thesis by (metis bij_betw_same_card card_lessThan)
qed

lemma finite_words [simp]: "finite (A :: u32 set)"
  by (rule finite_subset [OF subset_UNIV]) simp

lemma card_used_set: "card (used_set m) \<le> unat (total_frames (pmm m))"
  unfolding card_words_below [symmetric] used_set_def by (rule card_mono) auto

lemma card_used_room:
  "f < total_frames (pmm m) \<Longrightarrow> f \<notin> used_set m \<Longrightarrow> Suc (card (used_set m)) \<le> unat (total_frames (pmm m))"
proof -
  assume f: "f < total_frames (pmm m)" "f \<notin> used_set m"
  then have "card (insert f (used_set m)) \<le> card {f. f < total_frames (pmm m)}"
    by (intro card_mono) (auto simp: used_set_def)
  with f show ?thesis by (simp add: card_words_below)
qed


section \<open>Lemmas: marking frames\<close>

lemma mark_frame_step:
  assumes "pmm_inv m" "f < total_frames (pmm m)"
  shows "pmm_inv (mark_frame f m)" "used_set (mark_frame f m) = insert f (used_set m)"
    "pmm_step m (mark_frame f m)"
proof -
  show s: "pmm_step m (mark_frame f m)"
    by (simp add: pmm_step_def mark_frame_def)
  show u: "used_set (mark_frame f m) = insert f (used_set m)"
    using assms(2) by (auto simp: used_set_def mark_frame_def bitset.test_set)
  show "pmm_inv (mark_frame f m)"
  proof (cases "f \<in> used_set m")
    case True
    then have "mark_frame f m = m" by (simp add: mark_frame_def used_set_def)
    with assms(1) show ?thesis by simp
  next
    case False
    from card_used_room [OF assms(2) False] have "Suc (card (used_set m)) < 2 ^ 32"
      using unat_le_2p [of "total_frames (pmm m)"] by simp
    then have "unat (used_frames (pmm m) + 1) = Suc (card (used_set m))"
      using assms(1) by (simp add: pmm_inv_def unat_word_ariths)
    moreover have "used_frames (pmm (mark_frame f m)) = used_frames (pmm m) + 1"
      using False assms(2) by (auto simp: mark_frame_def used_set_def)
    ultimately show ?thesis
      using False by (simp add: pmm_inv_def u)
  qed
qed

lemma mark_list:
  "pmm_inv m \<Longrightarrow> (\<And>f. f \<in> set fs \<Longrightarrow> f < total_frames (pmm m)) \<Longrightarrow>
     \<exists>m1. for_each (\<lambda>f. modify (mark_frame f)) fs m = Done () m1 \<and> pmm_inv m1 \<and> pmm_step m m1
       \<and> used_set m1 = set fs \<union> used_set m"
proof (induction fs arbitrary: m)
  case Nil
  then show ?case by (simp add: run)
next
  case (Cons f fs)
  from Cons.prems have f: "f < total_frames (pmm m)" by simp
  note st = mark_frame_step [OF Cons.prems(1) f]
  have "g < total_frames (pmm (mark_frame f m))" if "g \<in> set fs" for g
    using Cons.prems(2) [of g] that st(3) by (simp add: pmm_step_def)
  from Cons.IH [OF st(1) this] obtain m1 where
    "for_each (\<lambda>f. modify (mark_frame f)) fs (mark_frame f m) = Done () m1"
    "pmm_inv m1" "pmm_step (mark_frame f m) m1" "used_set m1 = set fs \<union> used_set (mark_frame f m)"
    by blast
  with st show ?case
    by (intro exI [of _ m1]) (auto intro: pmm_step_trans)
qed

text \<open>The frames from \<open>s\<close> up to \<open>e\<close>.\<close>

lemma set_frame_range: "set (map of_nat [unat s..<unat e]) = {f :: u32. s \<le> f \<and> f < e}"
proof -
  have "f \<in> of_nat ` {unat s..<unat e} \<longleftrightarrow> s \<le> f \<and> f < e" for f :: u32
  proof
    assume "f \<in> of_nat ` {unat s..<unat e}"
    then show "s \<le> f \<and> f < e"
      using unat_le_2p [of e] by (auto simp: word_le_nat_alt word_less_nat_alt unat_of_nat_small)
  next
    assume "s \<le> f \<and> f < e"
    then show "f \<in> of_nat ` {unat s..<unat e}"
      by (intro image_eqI [of _ _ "unat f"]) (auto simp: word_le_nat_alt word_less_nat_alt)
  qed
  then show ?thesis by auto
qed

lemma mark_frames:
  assumes "pmm_inv m" "e \<le> total_frames (pmm m)"
  shows "\<exists>m1. PMM_mark_frames s e m = Done () m1 \<and> pmm_inv m1 \<and> pmm_step m m1
       \<and> used_set m1 = {f. s \<le> f \<and> f < e} \<union> used_set m"
proof -
  have "f < total_frames (pmm m)" if "s \<le> f \<and> f < e" for f
    using that assms(2) by (meson order_less_le_trans)
  then show ?thesis
    using mark_list [OF assms(1), of "map of_nat [unat s..<unat e]", unfolded set_frame_range]
    unfolding PMM_mark_frames_def by blast
qed

section \<open>Lemmas: sizes\<close>

lemma align_up_div:
  assumes "unat v + 4095 < 2 ^ 64"
  shows "unat (align_up v 4096 div 4096) = (unat v + 4095) div 4096"
proof -
  have d: "w div 4096 = drop_bit 12 w" for w :: u64 by (simp add: drop_bit_eq_div)
  have "v + 4096 - 1 = v + 4095" "(4096 - 1 :: u64) = mask 12"
    by (simp_all add: mask_eq_exp_minus_1)
  then have a: "align_up v 4096 = (v + 4095) AND NOT (mask 12)" by (simp only: align_up_def)
  have "align_up v 4096 div 4096 = (v + 4095) div 4096"
    unfolding a d by (rule bit_word_eqI) (auto simp: bit_simps dest: bit_imp_le_length)
  moreover have "unat (v + 4095) = unat v + 4095"
    using assms by (simp add: unat_word_ariths)
  ultimately show ?thesis by (simp add: unat_div)
qed

lemma unat_ucast_32: "unat (w :: u64) < 2 ^ 32 \<Longrightarrow> unat (ucast w :: u32) = unat w"
  by (simp add: unsigned_ucast_eq take_bit_nat_eq_self)

lemma unat_ucast_64 [simp]: "unat (ucast (w :: u32) :: u64) = unat w"
  using unat_le_2p [of w] by (simp add: unsigned_ucast_eq take_bit_nat_eq_self)

definition frames_up :: "nat \<Rightarrow> nat" where
  "frames_up n = (n + 4095) div 4096"

definition region_end :: "boot_MEM_MAP_Info_Entry_t \<Rightarrow> nat" where
  "region_end e = unat (base_addr_lo e) + unat (length_lo e)"

lemma region_end_64: "unat (ucast (base_addr_lo e) + ucast (length_lo e) :: u64) = region_end e"
  using unat_le_2p [of "base_addr_lo e"] unat_le_2p [of "length_lo e"]
  by (simp add: region_end_def unat_word_ariths)

lemma region_end_bound: "region_end e < 2 ^ 33"
  using unat_le_2p [of "base_addr_lo e"] unat_le_2p [of "length_lo e"] by (simp add: region_end_def)

text \<open>The conversion from a byte count to a number of frames, as \<^verbatim>\<open>PMM_init\<close> computes it.\<close>

lemma frames_up_64:
  assumes "unat v \<le> 2 ^ 33"
  shows "unat (ucast (align_up v PMM_FRAME_ALIGN div ucast PMM_FRAME_SIZE) :: u32) = frames_up (unat v)"
proof -
  have "frames_up (unat v) < 2 ^ 32" using assms by (simp add: frames_up_def)
  then show ?thesis
    using assms align_up_div [of v]
    by (simp add: PMM_FRAME_ALIGN_def PMM_FRAME_SIZE_def frames_up_def unat_ucast_32)
qed

lemma frames_up_split: "frames_up n = n div 4096 + (if n mod 4096 \<noteq> 0 then 1 else 0)"
proof -
  define q r where "q = n div 4096" and "r = n mod 4096"
  have n: "n = r + 4096 * q" and r: "r < 4096" by (simp_all add: q_def r_def)
  show ?thesis
  proof (cases "r = 0")
    case True
    then show ?thesis by (simp add: frames_up_def n)
  next
    case False
    then have "n + 4095 = (r - 1) + 4096 * (q + 1)" using n by simp
    moreover have "(r - 1) div 4096 = 0" using r by simp
    ultimately have "(n + 4095) div 4096 = q + 1" by (simp only: div_mult_self2)
    with False show ?thesis unfolding frames_up_def by (simp add: q_def r_def)
  qed
qed

lemma size2frame_eq: "unat (size2frame sz) = frames_up (unat sz)"
proof -
  let ?n = "unat sz"
  have n: "?n < 2 ^ 32" using unat_le_2p [of sz] by simp
  have d: "unat (sz div 4096) = ?n div 4096" "unat (sz mod 4096) = ?n mod 4096"
    by (simp_all add: unat_div unat_mod)
  have "frames_up ?n = ?n div 4096 + (if ?n mod 4096 \<noteq> 0 then 1 else 0)"
    by (rule frames_up_split)
  moreover have "sz mod 4096 \<noteq> 0 \<longleftrightarrow> ?n mod 4096 \<noteq> 0"
    by (metis d(2) unat_eq_zero)
  moreover have "unat (sz div 4096 + 1) = ?n div 4096 + 1"
    using n d by (simp add: unat_word_ariths)
  ultimately show ?thesis
    by (simp add: size2frame_def PMM_FRAME_SIZE_def d)
qed


section \<open>Lemmas: initialisation\<close>

text \<open>The frames that meet the bytes from \<open>a\<close> up to \<open>b\<close>.\<close>

definition frame_range :: "nat \<Rightarrow> nat \<Rightarrow> u32 set" where
  "frame_range a b = {f. a div 4096 \<le> unat f \<and> unat f < frames_up b}"

definition region_frames :: "boot_MEM_MAP_Info_Entry_t \<Rightarrow> u32 set" where
  "region_frames e = (if mtype e = 1 then {} else frame_range (unat (base_addr_lo e)) (region_end e))"

definition max_end :: "boot_MEM_MAP_Info_Entry_t list \<Rightarrow> nat" where
  "max_end es = foldr (\<lambda>e. max (region_end e)) es 0"

definition below_4GB :: "boot_MEM_MAP_Info_Entry_t \<Rightarrow> bool" where
  "below_4GB e \<longleftrightarrow> length_hi e = 0 \<and> base_addr_hi e = 0"

lemma max_end_bound: "max_end es < 2 ^ 33"
  using region_end_bound by (induction es) (auto simp: max_end_def)

lemma max_end_ge: "e \<in> set es \<Longrightarrow> region_end e \<le> max_end es"
  by (induction es) (auto simp: max_end_def)

lemma frames_up_mono: "a \<le> b \<Longrightarrow> frames_up a \<le> frames_up b"
  by (simp add: frames_up_def div_le_mono)

lemma PMM_high_end_done:
  "list_all below_4GB es \<Longrightarrow>
     \<exists>h1. PMM_high_end es h m = Done h1 m \<and> unat h1 = max (unat h) (max_end es)"
proof (induction es arbitrary: h)
  case Nil
  then show ?case by (simp add: run max_end_def)
next
  case (Cons e es)
  let ?e = "ucast (base_addr_lo e) + ucast (length_lo e) :: u64"
  let ?h = "if ?e > h then ?e else h"
  have "unat ?h = max (unat h) (region_end e)"
    using region_end_64 [of e] by (auto simp: word_less_nat_alt max_def)
  moreover obtain h1 where "PMM_high_end es ?h m = Done h1 m" "unat h1 = max (unat ?h) (max_end es)"
    using Cons by auto
  ultimately show ?case
    using Cons.prems by (intro exI [of _ h1]) (simp add: below_4GB_def max_end_def max.assoc Let_def)
qed

lemma frame_range_word:
  "unat e = frames_up b \<Longrightarrow> {f :: u32. s div PMM_FRAME_SIZE \<le> f \<and> f < e} = frame_range (unat s) b"
  by (auto simp: frame_range_def PMM_FRAME_SIZE_def word_le_nat_alt word_less_nat_alt unat_div)

lemma mark_range:
  assumes "pmm_inv m" "unat v \<le> 2 ^ 33" "frames_up (unat v) \<le> unat (total_frames (pmm m))"
  shows "\<exists>m1. PMM_mark_frames (s div PMM_FRAME_SIZE)
      (ucast (align_up v PMM_FRAME_ALIGN div ucast PMM_FRAME_SIZE)) m = Done () m1
    \<and> pmm_inv m1 \<and> pmm_step m m1 \<and> used_set m1 = frame_range (unat s) (unat v) \<union> used_set m"
proof -
  let ?e = "ucast (align_up v PMM_FRAME_ALIGN div ucast PMM_FRAME_SIZE) :: u32"
  have e: "unat ?e = frames_up (unat v)" by (rule frames_up_64 [OF assms(2)])
  then have "?e \<le> total_frames (pmm m)" using assms(3) by (simp add: word_le_nat_alt)
  from mark_frames [OF assms(1) this, of "s div PMM_FRAME_SIZE"] show ?thesis
    by (simp add: frame_range_word [OF e])
qed

lemma mark_region:
  assumes "pmm_inv m" "frames_up (region_end e) \<le> unat (total_frames (pmm m))"
  shows "\<exists>m1. PMM_mark_region e m = Done () m1 \<and> pmm_inv m1 \<and> pmm_step m m1
    \<and> used_set m1 = region_frames e \<union> used_set m"
proof (cases "mtype e = 1")
  case True
  with assms(1) show ?thesis
    by (simp add: PMM_mark_region_def MEM_MAP_TYPE_AVAILABLE_def region_frames_def run)
next
  case False
  let ?v = "ucast (base_addr_lo e) + ucast (length_lo e) :: u64"
  have v: "unat ?v \<le> 2 ^ 33" "frames_up (unat ?v) \<le> unat (total_frames (pmm m))"
    using region_end_bound [of e] assms(2) by (simp_all add: region_end_64)
  have "\<not> ucast (align_up ?v PMM_FRAME_ALIGN div ucast PMM_FRAME_SIZE) > total_frames (pmm m)"
    using frames_up_64 [OF v(1)] v(2) by (simp add: word_less_nat_alt not_less)
  then show ?thesis
    using mark_range [OF assms(1) v, of "base_addr_lo e"] False
    by (simp add: PMM_mark_region_def MEM_MAP_TYPE_AVAILABLE_def region_frames_def region_end_64 Let_def)
qed

lemma mark_regions:
  "pmm_inv m \<Longrightarrow> (\<And>e. e \<in> set es \<Longrightarrow> frames_up (region_end e) \<le> unat (total_frames (pmm m))) \<Longrightarrow>
     \<exists>m1. for_each PMM_mark_region es m = Done () m1 \<and> pmm_inv m1 \<and> pmm_step m m1
       \<and> used_set m1 = (\<Union>e \<in> set es. region_frames e) \<union> used_set m"
proof (induction es arbitrary: m)
  case Nil
  then show ?case by (simp add: run)
next
  case (Cons e es)
  obtain m1 where m1: "PMM_mark_region e m = Done () m1" "pmm_inv m1" "pmm_step m m1"
    "used_set m1 = region_frames e \<union> used_set m"
    using mark_region [OF Cons.prems(1), of e] Cons.prems(2) by auto
  then have "frames_up (region_end e') \<le> unat (total_frames (pmm m1))" if "e' \<in> set es" for e'
    using Cons.prems(2) that by (simp add: pmm_step_def)
  from Cons.IH [OF m1(2) this] obtain m2 where
    "for_each PMM_mark_region es m1 = Done () m2" "pmm_inv m2" "pmm_step m1 m2"
    "used_set m2 = (\<Union>e \<in> set es. region_frames e) \<union> used_set m1" by blast
  with m1 show ?case
    by (intro exI [of _ m2]) (auto simp: bind_def intro: pmm_step_trans)
qed

text \<open>The cleared bitmap has no frame in use.\<close>

lemma used_set_cleared:
  assumes "unat (total_frames (pmm m)) < 2 ^ 32 - 7" "used_frames (pmm m) = 0"
    and "ram m = memset (frames_map (pmm m)) 0 ((unat (total_frames (pmm m)) + 7) div 8) r"
  shows "used_set m = {}" "pmm_inv m"
proof -
  let ?n = "unat (total_frames (pmm m))"
  have "\<not> bitset_test (frames_map (pmm m)) f (ram m)" if "f < total_frames (pmm m)" for f
  proof -
    have "unat f < ?n" using that by (simp add: word_less_nat_alt)
    then have "unat f div 8 < (?n + 7) div 8" by linarith
    then have "in_region (frames_map (pmm m)) ((?n + 7) div 8) (bit_addr (frames_map (pmm m)) f)"
      by (simp add: in_region_def bit_addr_def unat_div)
    then show ?thesis
      using assms(1) by (simp add: test_byte assms(3) memset_apply)
  qed
  then show "used_set m = {}" by (auto simp: used_set_def)
  then show "pmm_inv m" by (simp add: pmm_inv_def assms(2))
qed


text \<open>Where the bitmap is, and how many bytes it has.\<close>

definition bitmap_at :: "u32 \<Rightarrow> nat" where
  "bitmap_at p = 8 * ((unat p + 7) div 8)"

definition bitmap_size :: "nat \<Rightarrow> nat" where
  "bitmap_size n = (n + 7) div 8"

lemma bitmap_at_eq:
  assumes "unat p < 2 ^ 32 - 7"
  shows "unat (ucast (align_up (ucast p) (ucast PMM_MEM_MAP_FRAMES_PER_BYTE)) :: u32) = bitmap_at p"
proof -
  have "push_bit 3 (drop_bit 3 x) = x AND NOT (mask 3)" for x :: u64
    by (rule bit_word_eqI) (auto simp: bit_simps dest: bit_imp_le_length)
  moreover have "ucast p + 8 - 1 = (ucast p + 7 :: u64)" "(8 - 1 :: u64) = mask 3"
    by (simp_all add: mask_eq_exp_minus_1)
  ultimately have "align_up (ucast p) 8 = push_bit 3 (drop_bit 3 (ucast p + 7))"
    by (simp only: align_up_def)
  moreover have u7: "unat (ucast p + 7 :: u64) = unat p + 7"
    using assms by (simp add: unat_word_ariths)
  ultimately have "unat (align_up (ucast p) 8) = bitmap_at p"
    using assms by (simp add: bitmap_at_def push_bit_eq_mult drop_bit_eq_div unat_word_ariths unat_div)
  moreover have "bitmap_at p < 2 ^ 32"
    using assms by (simp add: bitmap_at_def)
  ultimately show ?thesis
    by (simp add: PMM_MEM_MAP_FRAMES_PER_BYTE_def unat_ucast_32)
qed

lemma bitmap_size_eq:
  assumes "unat n < 2 ^ 32 - 7"
  shows "unat ((n + PMM_MEM_MAP_FRAMES_PER_BYTE - 1) div PMM_MEM_MAP_FRAMES_PER_BYTE) = bitmap_size (unat n)"
proof -
  have "n + 8 - 1 = n + 7" by simp
  moreover have "unat (7 + n) = unat n + 7" using assms by (simp add: unat_word_ariths)
  ultimately show ?thesis
    by (simp add: PMM_MEM_MAP_FRAMES_PER_BYTE_def bitmap_size_def unat_div)
qed

section \<open>Lemmas: allocating and freeing one frame\<close>

lemma frames_free_word: "(of_int (PMM_frames_free m) :: u32) = total_frames (pmm m) - used_frames (pmm m)"
  by (simp add: PMM_frames_free_def)

lemma PMM_malloc_one:
  assumes "pmm_inv m" "size2frame sz = 1"
  shows "PMM_malloc sz m = Done 0 m \<or>
    (\<exists>f m1. PMM_malloc sz m = Done (f * 4096) m1 \<and> f < total_frames (pmm m) \<and> f \<notin> used_set m
       \<and> used_set m1 = insert f (used_set m) \<and> pmm_inv m1 \<and> pmm_step m m1)"
proof (cases "bitset_find (frames_map (pmm m)) (total_frames (pmm m)) 1 (ram m)")
  case None
  then show ?thesis by (simp add: PMM_malloc_def assms(2) Let_def)
next
  case (Some f)
  have f: "\<not> bitset_test (frames_map (pmm m)) f (ram m)" "f < total_frames (pmm m)"
    using bitset_find_clear [OF Some] by (simp_all add: word_less_nat_alt)
  then have "PMM_malloc sz m = (if total_frames (pmm m) - used_frames (pmm m) < 1 then Done 0 m
      else Done (f * 4096) (mark_frame f m))"
    using Some by (simp add: PMM_malloc_def assms(2) Let_def frames_free_word mark_frame_def PMM_FRAME_SIZE_def)
  moreover have "f \<notin> used_set m" using f by (simp add: used_set_def)
  ultimately show ?thesis
    using mark_frame_step [OF assms(1) f(2)] f(2) by auto
qed

lemma PMM_free_one:
  assumes "pmm_inv m" "size2frame sz = 1" "ptr div 4096 \<in> used_set m"
  shows "\<exists>m1. PMM_free ptr sz m = Done () m1 \<and> used_set m1 = used_set m - {ptr div 4096}
    \<and> pmm_inv m1 \<and> pmm_step m m1"
proof -
  let ?f = "ptr div 4096" and ?s = "pmm m"
  have pos: "0 < card (used_set m)" using assms(3) by (auto simp: card_gt_0_iff)
  then have u0: "unat (used_frames ?s) \<noteq> 0" using assms(1) by (simp only: pmm_inv_def)
  then have "\<not> used_frames ?s < 1" by (simp add: word_less_nat_alt)
  define m1 where "m1 = m\<lparr>ram := bitset_clear (frames_map ?s) ?f (ram m),
      pmm := ?s\<lparr>used_frames := used_frames ?s - 1\<rparr>\<rparr>"
  have fr: "PMM_free ptr sz m = Done () m1"
    using \<open>\<not> used_frames ?s < 1\<close> by (simp add: PMM_free_def assms(2) PMM_FRAME_SIZE_def m1_def run)
  have u: "used_set m1 = used_set m - {?f}"
    by (auto simp: used_set_def m1_def bitset.test_clear)
  from u0 have "unat (used_frames ?s - 1) = unat (used_frames ?s) - 1"
    by (simp add: unat_minus_one unat_gt_0)
  then have "pmm_inv m1"
    using assms(1,3) by (simp add: pmm_inv_def u) (simp add: m1_def)
  with fr u show ?thesis
    by (intro exI [of _ m1]) (simp add: pmm_step_def m1_def)
qed

section \<open>Lemmas: errors\<close>

lemma PMM_high_end_panic:
  "\<not> list_all below_4GB es \<Longrightarrow> \<exists>m1. PMM_high_end es h m
     = Stop (Panic (cstr ''unable to address more then 4GB'' @ [0]) (cstr PMM_file @ [0]) 40) m1
       \<and> \<not> iflag m1"
proof (induction es arbitrary: h)
  case Nil
  then show ?case by simp
next
  case (Cons e es)
  show ?case
  proof (cases "below_4GB e")
    case True
    with Cons show ?thesis by (simp add: below_4GB_def Let_def)
  next
    case False
    moreover have "\<exists>m1. KERNEL_PANIC ''unable to address more then 4GB'' PMM_file 40 m
        = (Stop (Panic (cstr ''unable to address more then 4GB'' @ [0]) (cstr PMM_file @ [0]) 40) m1
           :: u64 outcome) \<and> \<not> iflag m1"
      by (rule KERNEL_PANIC_stops) (simp_all add: PMM_file_def cstr_def)
    ultimately show ?thesis by (auto simp: below_4GB_def)
  qed
qed

text \<open>The message of \<^verbatim>\<open>_PMM_used_frames_panic\<close>.\<close>

definition used_frames_text :: "cstring \<Rightarrow> u32 \<Rightarrow> u32 \<Rightarrow> cstring" where
  "used_frames_text msg u t = msg @ cstr '': '' @ digit_chars (digits 10 (uint u)) @ cstr '' (''
     @ digit_chars (digits 10 (uint t)) @ cstr '')''"

lemma used_frames_format:
  assumes "0 \<notin> set msg" "length msg < 2 ^ 32"
  shows "vsprintf_loop (cstr ''%s: %u (%u)'' @ [0]) [VStr (msg @ [0]), VInt u, VInt t] []
    = Some (used_frames_text msg u t @ [0])"
proof -
  have split: "cstr ''%s: %u (%u)'' @ [0]
      = 0x25 # 0x73 # cstr '': '' @ 0x25 # 0x75 # cstr '' ('' @ 0x25 # 0x75 # [41, 0]"
    by (simp add: cstr_def)
  have lit: "x \<noteq> 0 \<and> x \<noteq> 0x25" if "x \<in> set (cstr '': '') \<or> x \<in> set (cstr '' ('')" for x
    using that by (auto simp: cstr_def)
  have l: "vsprintf_loop (cstr '': '' @ 0x25 # cs) as out = vsprintf_loop (0x25 # cs) as (out @ cstr '': '')"
    "vsprintf_loop (cstr '' ('' @ 0x25 # cs) as out = vsprintf_loop (0x25 # cs) as (out @ cstr '' ('')"
    for cs as out by (rule vsprintf_literal; use lit in blast)+
  have e: "vsprintf_loop [41, 0] as out = Some (out @ [41, 0])" for as out by simp
  show ?thesis
    unfolding split l vsprintf_s [OF assms] vsprintf_u e by (simp add: used_frames_text_def cstr_def)
qed

lemma used_frames_text_ok:
  assumes "0 \<notin> set msg"
  shows "0 \<notin> set (used_frames_text msg u t)" "length (used_frames_text msg u t) \<le> length msg + 27"
proof -
  have d: "length (digits 10 (uint w)) \<le> 11" for w :: u32
    using unsigned_less [of w, where ?'a = int] by (intro length_digits_32) simp_all
  show "0 \<notin> set (used_frames_text msg u t)"
    using assms digit_chars_nonzero [of 10 "uint u"] digit_chars_nonzero [of 10 "uint t"]
    by (simp add: used_frames_text_def cstr_def)
  show "length (used_frames_text msg u t) \<le> length msg + 27"
    using d [of u] d [of t] by (simp add: used_frames_text_def)
qed

lemma PMM_free_panic:
  assumes "used_frames (pmm m) < size2frame sz"
  shows "\<exists>m1. PMM_free ptr sz m = Stop (Panic (used_frames_text (cstr ''PMM_free_frames'')
      (used_frames (pmm m)) (total_frames (pmm m)) @ [0]) (cstr PMM_file @ [0]) 25) m1 \<and> \<not> iflag m1"
proof -
  let ?s = "pmm m" and ?msg = "cstr ''PMM_free_frames''"
  have msg: "0 \<notin> set ?msg" "length ?msg = 15" by (simp_all add: cstr_def)
  note tok = used_frames_text_ok [OF msg(1), of "used_frames ?s" "total_frames ?s"]
  have "0 \<notin> set (cstr PMM_file)" "length PMM_file = 22" by (simp_all add: PMM_file_def cstr_def)
  then obtain m1 where "panic (used_frames_text ?msg (used_frames ?s) (total_frames ?s) @ [0])
      (cstr PMM_file @ [0]) 25 m = (Stop (Panic (used_frames_text ?msg (used_frames ?s) (total_frames ?s) @ [0])
      (cstr PMM_file @ [0]) 25) m1 :: unit outcome)" "\<not> iflag m1"
    using panic_stops [of "used_frames_text ?msg (used_frames ?s) (total_frames ?s)" "cstr PMM_file" 25 m]
      tok msg by auto
  then show ?thesis
    using assms tok msg used_frames_format [OF msg(1), of "used_frames ?s" "total_frames ?s"]
    by (simp add: PMM_free_def PMM_used_frames_panic_def CON_sprintf_def CON_vsprintf_def Let_def)
qed

section \<open>The contract of a frame allocator\<close>

text \<open>Repeated allocation: the list of the pointers returned.\<close>

primrec alloc_run :: "('s \<Rightarrow> 'p \<times> 's) \<Rightarrow> nat \<Rightarrow> 's \<Rightarrow> 'p list \<times> 's" where
  "alloc_run alloc 0 s = ([], s)"
| "alloc_run alloc (Suc n) s =
     (let (p, s1) = alloc s; (ps, s2) = alloc_run alloc n s1 in (p # ps, s2))"

locale frame_allocator =
  fixes alloc :: "'s \<Rightarrow> 'p \<times> 's"
    and null :: 'p
    and used :: "'s \<Rightarrow> 'p set"
    and wf :: "'s \<Rightarrow> bool"
  assumes alloc_wf: "wf s \<Longrightarrow> wf (snd (alloc s))"
    and alloc_fresh: "wf s \<Longrightarrow> fst (alloc s) \<noteq> null \<Longrightarrow> fst (alloc s) \<notin> used s"
    and alloc_used: "wf s \<Longrightarrow> fst (alloc s) \<noteq> null \<Longrightarrow> used (snd (alloc s)) = insert (fst (alloc s)) (used s)"
    and alloc_mono: "wf s \<Longrightarrow> used s \<subseteq> used (snd (alloc s))"
begin

lemma alloc_run_fresh:
  "wf s \<Longrightarrow> alloc_run alloc n s = (ps, s1) \<Longrightarrow>
     wf s1 \<and> distinct (filter (\<lambda>p. p \<noteq> null) ps) \<and> set (filter (\<lambda>p. p \<noteq> null) ps) \<inter> used s = {}"
proof (induction n arbitrary: s ps)
  case 0
  then show ?case by simp
next
  case (Suc n)
  obtain p s' where a: "alloc s = (p, s')" by fastforce
  then obtain ps' where r: "alloc_run alloc n s' = (ps', s1)" and ps: "ps = p # ps'"
    using Suc.prems(2) by (auto split: prod.splits)
  from alloc_wf [OF Suc.prems(1)] a have "wf s'" by simp
  from Suc.IH [OF this r] show ?case
    using alloc_fresh [OF Suc.prems(1)] alloc_used [OF Suc.prems(1)] alloc_mono [OF Suc.prems(1)] a ps
    by (cases "p = null") auto
qed

lemma two_allocs_distinct:
  "wf s \<Longrightarrow> alloc s = (p, s1) \<Longrightarrow> alloc s1 = (q, s2) \<Longrightarrow> p \<noteq> null \<Longrightarrow> q \<noteq> null \<Longrightarrow> p \<noteq> q \<and> wf s2"
  using alloc_run_fresh [of s 2] by (simp add: numeral_2_eq_2)

end

text \<open>One page from the physical memory manager.\<close>

definition PMM_alloc_page :: "machine \<Rightarrow> u32 \<times> machine" where
  "PMM_alloc_page m = (case PMM_malloc PMM_FRAME_SIZE m of Done p m1 \<Rightarrow> (p, m1) | Stop _ m1 \<Rightarrow> (0, m1))"

text \<open>At most 4 GiB of memory, so that the address of a frame is a 32-bit word.\<close>

definition pmm_wf :: "machine \<Rightarrow> bool" where
  "pmm_wf m \<longleftrightarrow> pmm_inv m \<and> unat (total_frames (pmm m)) \<le> 2 ^ 20"

definition used_pages :: "machine \<Rightarrow> u32 set" where
  "used_pages m = (\<lambda>f. f * PMM_FRAME_SIZE) ` used_set m"

lemma size2frame_page [simp]: "size2frame 4096 = 1"
  by (simp add: size2frame_def PMM_FRAME_SIZE_def)

lemma frame_addr_inj:
  assumes "unat f < 2 ^ 20" "unat g < 2 ^ 20"
  shows "f * 4096 = (g * 4096 :: u32) \<longleftrightarrow> f = g"
proof -
  have "unat (f * 4096) = unat f * 4096" "unat (g * 4096) = unat g * 4096"
    using assms by (simp_all add: unat_word_ariths)
  then show ?thesis by (metis mult_cancel2 word_unat_eq_iff zero_neq_numeral)
qed

lemma PMM_alloc_page_Done: "PMM_malloc 4096 m = Done p m1 \<Longrightarrow> PMM_alloc_page m = (p, m1)"
  by (simp add: PMM_alloc_page_def PMM_FRAME_SIZE_def)

interpretation pages: frame_allocator PMM_alloc_page 0 used_pages pmm_wf
proof unfold_locales
  fix m
  assume wf: "pmm_wf m"
  then have inv: "pmm_inv m" by (simp add: pmm_wf_def)
  consider "PMM_alloc_page m = (0, m)"
    | f m1 where "PMM_alloc_page m = (f * 4096, m1)" "f < total_frames (pmm m)" "f \<notin> used_set m"
        "used_set m1 = insert f (used_set m)" "pmm_inv m1" "pmm_step m m1"
    using PMM_malloc_one [OF inv size2frame_page] PMM_alloc_page_Done by metis
  then have *: "pmm_wf (snd (PMM_alloc_page m))
    \<and> (fst (PMM_alloc_page m) \<noteq> 0 \<longrightarrow> fst (PMM_alloc_page m) \<notin> used_pages m
        \<and> used_pages (snd (PMM_alloc_page m)) = insert (fst (PMM_alloc_page m)) (used_pages m))
    \<and> used_pages m \<subseteq> used_pages (snd (PMM_alloc_page m))"
  proof cases
    case 1
    with wf show ?thesis by simp
  next
    case (2 f m1)
    have small: "unat g < 2 ^ 20" if "g < total_frames (pmm m)" for g
      using that wf by (simp add: pmm_wf_def word_less_nat_alt)
    have "f * 4096 \<notin> used_pages m"
      using 2(2,3) frame_addr_inj [OF small small]
      by (auto simp: used_pages_def used_set_def PMM_FRAME_SIZE_def)
    moreover have "pmm_wf m1"
      using 2(5,6) wf by (simp add: pmm_wf_def pmm_step_def)
    moreover have "used_pages m1 = insert (f * 4096) (used_pages m)"
      by (simp add: used_pages_def 2(4) PMM_FRAME_SIZE_def)
    ultimately show ?thesis
      using 2(1) by auto
  qed
  show "pmm_wf (snd (PMM_alloc_page m))" using * by blast
  show "fst (PMM_alloc_page m) \<notin> used_pages m" if "fst (PMM_alloc_page m) \<noteq> 0"
    using * that by blast
  show "used_pages (snd (PMM_alloc_page m)) = insert (fst (PMM_alloc_page m)) (used_pages m)"
    if "fst (PMM_alloc_page m) \<noteq> 0" using * that by blast
  show "used_pages m \<subseteq> used_pages (snd (PMM_alloc_page m))" using * by blast
qed

section \<open>Which page an allocation takes\<close>

text \<open>
  The frame that a request for one of \<open>n\<close> frames takes when the set \<open>used\<close> is in use.  The search
  looks at the first free frame \<open>f\<close> for which the frame \<open>probe f\<close>, that the source tests in its
  place, is past the end (then it gives up), or is free itself or before a free one.
\<close>

definition probe :: "nat \<Rightarrow> nat" where
  "probe f = 32 * (f div 32) + 2 ^ (f mod 32)"

definition pick_frame :: "nat \<Rightarrow> (nat \<Rightarrow> bool) \<Rightarrow> nat option" where
  "pick_frame n used =
     (case List.find (\<lambda>f. \<not> used f \<and> (n \<le> probe f \<or> \<not> used (probe f) \<or> \<not> used (probe f + 1))) [0..<32 * (n div 32)] of
        None \<Rightarrow> None
      | Some f \<Rightarrow> if n \<le> probe f then None else Some f)"

text \<open>The frames that \<open>k\<close> requests take one after the other.\<close>

primrec pick_frames :: "nat \<Rightarrow> nat \<Rightarrow> (nat \<Rightarrow> bool) \<Rightarrow> nat option list" where
  "pick_frames n 0 used = []"
| "pick_frames n (Suc k) used =
     (case pick_frame n used of
        None \<Rightarrow> None # pick_frames n k used
      | Some f \<Rightarrow> Some f # pick_frames n k (used(f := True)))"

text \<open>The bit of a frame; the one after the last frame can be looked at, too.\<close>

definition frame_bit :: "machine \<Rightarrow> nat \<Rightarrow> bool" where
  "frame_bit m f \<longleftrightarrow> f < 2 ^ 32 \<and> bitset_test (frames_map (pmm m)) (of_nat f) (ram m)"

text \<open>A null pointer or the address of a frame.\<close>

definition page_pointer :: "nat option \<Rightarrow> u32" where
  "page_pointer p = (case p of None \<Rightarrow> 0 | Some f \<Rightarrow> of_nat (f * 4096))"

lemma upt_split_32: "[0..<32 * Suc w] = [0..<32 * w] @ map (\<lambda>j. 32 * w + j) [0..<32]"
proof -
  have "[0..<32 * w + 32] = [0..<32 * w] @ [32 * w..<32 * w + 32]" by (rule upt_add_eq_append) simp
  then show ?thesis using map_add_upt [of "32 * w" 32] by (simp add: add.commute del: upt_rec_numeral)
qed

lemma first_return_append:
  "first_return g (xs @ ys) = (case first_return g xs of None \<Rightarrow> first_return g ys | Some r \<Rightarrow> Some r)"
  by (induction xs) (auto split: option.splits)

lemma first_return_map: "first_return g (map h xs) = first_return (\<lambda>x. g (h x)) xs"
  by (induction xs) (auto split: option.splits)

lemma first_return_words:
  "first_return (\<lambda>i. first_return (g i) [0..<32]) [0..<w] = first_return (\<lambda>f. g (f div 32) (f mod 32)) [0..<32 * w]"
proof (induction w)
  case 0
  show ?case by simp
next
  case (Suc w)
  have "first_return (\<lambda>j. g ((32 * w + j) div 32) ((32 * w + j) mod 32)) [0..<32] = first_return (g w) [0..<32]"
    by (rule first_return_cong) auto
  then show ?case
    by (simp only: upt_split_32 first_return_append first_return_map Suc) (simp add: first_return_append Suc split: option.splits)
qed

lemma first_return_find: "first_return (\<lambda>x. if P x then Some (h x) else None) xs = map_option h (List.find P xs)"
  by (induction xs) auto

lemma find_body_one:
  assumes "unat n \<le> 2 ^ 20" "f < 32 * (unat n div 32)"
  shows "bitset_find_body p r n 1 (f div 32) (f mod 32)
    = (let T = (\<lambda>b. bitset_test p (of_nat b) r) in
       if \<not> T f \<and> (unat n \<le> probe f \<or> \<not> T (probe f) \<or> \<not> T (probe f + 1))
       then Some (if unat n \<le> probe f then None else Some (of_nat f)) else None)"
proof -
  let ?i = "f div 32" and ?j = "f mod 32"
  have "32 * (unat n div 32) \<le> unat n" by simp
  then have "f < 32 * 2 ^ 15" using assms by simp
  then have i: "?i < 2 ^ 15" "?j < 32" by (simp_all add: less_mult_imp_div_less)
  have "(2 :: nat) ^ ?j \<le> 2 ^ 31" using i(2) by (intro power_increasing) simp_all
  moreover have "32 * ?i < 2 ^ 20" using i(1) by simp
  moreover have "(2 :: nat) ^ 20 + 2 ^ 31 + 1 < 2 ^ 32" by simp
  ultimately have pb: "probe f + 1 < 2 ^ 32" unfolding probe_def by simp
  have f: "of_nat ?i * 32 + of_nat ?j = (of_nat f :: u32)"
  proof -
    have "(of_nat (?i * 32 + ?j) :: u32) = of_nat f" by (simp only: div_mult_mod_eq)
    then show ?thesis by (simp only: of_nat_add of_nat_mult of_nat_numeral)
  qed
  have st: "of_nat ?i * BITSET_SIZE + push_bit ?j 1 = (of_nat (probe f) :: u32)"
    by (simp add: probe_def BITSET_SIZE_def push_bit_eq_mult mult.commute)
  have "unat (of_nat (probe f + 1) :: u32) = probe f + 1"
    using pb by (intro unat_of_nat_small) simp
  moreover have "(of_nat (probe f) + 1 :: u32) = of_nat (probe f + 1)" by (simp only: of_nat_add of_nat_1)
  ultimately have big: "of_nat (probe f) + 1 > n \<longleftrightarrow> unat n \<le> probe f"
    by (simp only: word_less_nat_alt) (simp only: Suc_eq_plus1 [symmetric] less_Suc_eq_le)
  have u: "[0..<unat (1 :: u32) + 1] = [0, 1]" by (simp add: upt_rec)
  have c: "count_free p r (of_nat (probe f)) 1 [0..<unat (1 :: u32) + 1] 0
      \<longleftrightarrow> \<not> bitset_test p (of_nat (probe f)) r \<or> \<not> bitset_test p (of_nat (probe f + 1)) r"
    unfolding u by (simp add: add.commute)
  have w: "load32 r (bitset_word p (of_nat ?i)) AND push_bit ?j 1 = 0 \<longleftrightarrow> \<not> bitset_test p (of_nat f) r"
    using word_bit_test [of ?i ?j r p] i f by simp
  show ?thesis
    unfolding bitset_find_body_def Let_def st w big c by (simp add: BITSET_SIZE_def f del: of_nat_add)
qed

lemma find_one:
  assumes "unat n \<le> 2 ^ 20"
  shows "bitset_find p n 1 r = map_option of_nat (pick_frame (unat n) (\<lambda>f. f < 2 ^ 32 \<and> bitset_test p (of_nat f) r))"
proof -
  let ?T = "\<lambda>b. bitset_test p (of_nat b) r" and ?N = "unat n"
  let ?P = "\<lambda>f. \<not> ?T f \<and> (?N \<le> probe f \<or> \<not> ?T (probe f) \<or> \<not> ?T (probe f + 1))"
  let ?U = "\<lambda>f. f < 2 ^ 32 \<and> ?T f"
  let ?Q = "\<lambda>f. \<not> ?U f \<and> (?N \<le> probe f \<or> \<not> ?U (probe f) \<or> \<not> ?U (probe f + 1))"
  have w: "unat (n div BITSET_SIZE) = ?N div 32" by (simp add: BITSET_SIZE_def unat_div_numeral_u32)
  have "first_return (\<lambda>f. bitset_find_body p r n 1 (f div 32) (f mod 32)) [0..<32 * (?N div 32)]
      = first_return (\<lambda>f. if ?P f then Some (if ?N \<le> probe f then None else Some (of_nat f)) else None) [0..<32 * (?N div 32)]"
    by (rule first_return_cong) (simp_all add: find_body_one [OF assms] Let_def)
  also have "\<dots> = map_option (\<lambda>f. if ?N \<le> probe f then None else Some (of_nat f)) (List.find ?P [0..<32 * (?N div 32)])"
    by (rule first_return_find)
  also have "List.find ?P [0..<32 * (?N div 32)] = List.find ?Q [0..<32 * (?N div 32)]"
  proof (rule find_cong [OF refl])
    fix f
    assume "f \<in> set [0..<32 * (?N div 32)]"
    then have "f < 2 ^ 32" using assms by simp
    moreover have "probe f + 1 < 2 ^ 32" if "\<not> ?N \<le> probe f" using that assms by simp
    ultimately show "?P f = ?Q f" by auto
  qed
  finally show ?thesis
    by (auto simp: bitset_find_def pick_frame_def w first_return_words split: option.splits)
qed

lemma pick_frame_free:
  assumes "pick_frame n used = Some f"
  shows "\<not> used f \<and> f < n"
proof -
  have "List.find (\<lambda>f. \<not> used f \<and> (n \<le> probe f \<or> \<not> used (probe f) \<or> \<not> used (probe f + 1))) [0..<32 * (n div 32)] = Some f"
    using assms by (auto simp: pick_frame_def split: option.splits if_splits)
  then have "\<not> used f" "f < 32 * (n div 32)" by (auto simp: find_Some_iff)
  moreover have "32 * (n div 32) \<le> n" by simp
  ultimately show ?thesis by linarith
qed

lemma alloc_page_pick:
  assumes "pmm_wf m"
  shows "PMM_alloc_page m = (case pick_frame (unat (total_frames (pmm m))) (frame_bit m) of
      None \<Rightarrow> (0, m) | Some f \<Rightarrow> (page_pointer (Some f), mark_frame (of_nat f) m))"
proof -
  let ?N = "unat (total_frames (pmm m))" and ?pick = "pick_frame (unat (total_frames (pmm m))) (frame_bit m)"
  have b: "bitset_find (frames_map (pmm m)) (total_frames (pmm m)) 1 (ram m) = map_option of_nat ?pick"
    using find_one [of "total_frames (pmm m)"] assms by (simp add: pmm_wf_def frame_bit_def [abs_def])
  show ?thesis
  proof (cases ?pick)
    case None
    with b show ?thesis by (simp add: PMM_alloc_page_def PMM_malloc_def PMM_FRAME_SIZE_def)
  next
    case (Some f)
    then have f: "\<not> frame_bit m f" "f < ?N" using pick_frame_free by blast+
    then have t: "\<not> bitset_test (frames_map (pmm m)) (of_nat f) (ram m)" "of_nat f < total_frames (pmm m)"
      using unat_le_2p [of "total_frames (pmm m)"] by (simp_all add: frame_bit_def word_less_nat_alt unat_of_nat_small)
    have "of_nat f \<notin> used_set m" using t(1) by (simp add: used_set_def)
    from card_used_room [OF t(2) this] have "unat (used_frames (pmm m)) < ?N"
      using assms by (simp add: pmm_wf_def pmm_inv_def)
    then have "\<not> total_frames (pmm m) - used_frames (pmm m) < 1"
      by (simp add: word_less_nat_alt unat_sub word_le_nat_alt)
    with Some b t show ?thesis
      by (simp add: PMM_alloc_page_def PMM_malloc_def frames_free_word PMM_FRAME_SIZE_def mark_frame_def page_pointer_def)
  qed
qed

lemma alloc_run_pick:
  "pmm_wf m \<Longrightarrow> fst (alloc_run PMM_alloc_page k m) = map page_pointer (pick_frames (unat (total_frames (pmm m))) k (frame_bit m))"
proof (induction k arbitrary: m)
  case 0
  show ?case by simp
next
  case (Suc k)
  show ?case
  proof (cases "pick_frame (unat (total_frames (pmm m))) (frame_bit m)")
    case None
    moreover have "page_pointer None = 0" by (simp add: page_pointer_def)
    ultimately show ?thesis
      using Suc.IH [OF Suc.prems] alloc_page_pick [OF Suc.prems] by (cases "alloc_run PMM_alloc_page k m") simp
  next
    case (Some f)
    let ?m = "mark_frame (of_nat f) m"
    have f: "\<not> frame_bit m f" "f < 2 ^ 32"
      using pick_frame_free [OF Some] unat_le_2p [of "total_frames (pmm m)"] by simp_all
    then have m: "?m = m\<lparr>ram := bitset_set (frames_map (pmm m)) (of_nat f) (ram m),
        pmm := (pmm m)\<lparr>used_frames := used_frames (pmm m) + 1\<rparr>\<rparr>"
      by (simp add: mark_frame_def frame_bit_def)
    have "frame_bit ?m = (frame_bit m)(f := True)"
      using f(2) by (auto simp: fun_eq_iff m frame_bit_def bitset.test_set of_nat_inj_small)
    moreover have "pmm_wf ?m"
      using pages.alloc_wf [OF Suc.prems] alloc_page_pick [OF Suc.prems] Some by simp
    ultimately show ?thesis
      using Suc.IH [of ?m] alloc_page_pick [OF Suc.prems] Some by (cases "alloc_run PMM_alloc_page k ?m") (simp add: m fun_upd_def)
  qed
qed

section \<open>Lemmas: the state after initialisation\<close>

lemma PMM_init_done:
  assumes "list_all below_4GB (take (unat n) mm)" "T = frames_up (max_end (take (unat n) mm))"
    and "unat ks + unat ksz \<le> T * 4096" "unat ks + unat ksz < 2 ^ 32"
    and "unat pms < 2 ^ 32 - 7" "bitmap_at pms + bitmap_size T \<le> T * 4096"
    and "bitmap_at pms + bitmap_size T < 2 ^ 32"
  shows "\<exists>m1. PMM_init n mm pms ks ksz m = Done () m1 \<and> pmm_inv m1
    \<and> unat (total_frames (pmm m1)) = T \<and> unat (frames_map (pmm m1)) = bitmap_at pms
    \<and> used_set m1 = (\<Union>e \<in> set (take (unat n) mm). region_frames e)
        \<union> frame_range (unat ks) (unat ks + unat ksz)
        \<union> frame_range (bitmap_at pms) (bitmap_at pms + bitmap_size T)
    \<and> (\<exists>r p. m1 = m\<lparr>ram := r, pmm := p\<rparr>)"
proof -
  let ?es = "take (unat n) mm"
  obtain h1 where h1: "PMM_high_end ?es 0 m = Done h1 m" "unat h1 = max_end ?es"
    using PMM_high_end_done [OF assms(1), of 0 m] by auto
  define total where "total = (ucast (align_up h1 PMM_FRAME_ALIGN div ucast PMM_FRAME_SIZE) :: u32)"
  define bitmap where "bitmap = (ucast (align_up (ucast pms) (ucast PMM_MEM_MAP_FRAMES_PER_BYTE)) :: u32)"
  define msize where "msize = (total + PMM_MEM_MAP_FRAMES_PER_BYTE - 1) div PMM_MEM_MAP_FRAMES_PER_BYTE"
  have total: "unat total = T"
    using frames_up_64 [of h1] max_end_bound [of ?es] h1(2) assms(2) by (simp add: total_def)
  have T: "T < 2 ^ 32 - 7"
    using max_end_bound [of ?es] assms(2) by (simp add: frames_up_def)
  have bitmap: "unat bitmap = bitmap_at pms" unfolding bitmap_def by (rule bitmap_at_eq [OF assms(5)])
  have msize: "unat msize = bitmap_size T" using T total by (simp add: msize_def bitmap_size_eq)
  define m0 where "m0 = m\<lparr>pmm := \<lparr>total_frames = total, used_frames = 0, frames_map = bitmap\<rparr>,
      ram := memset bitmap 0 (unat msize) (ram m)\<rparr>"
  have m0: "used_set m0 = {}" "pmm_inv m0"
    using used_set_cleared [of m0 "ram m"] T total by (simp_all add: m0_def msize bitmap_size_def)
  have fT: "frames_up x \<le> T" if "x \<le> T * 4096" for x
    using frames_up_mono [OF that] by (simp add: frames_up_def)
  have "frames_up (region_end e) \<le> unat (total_frames (pmm m0))" if "e \<in> set ?es" for e
    using max_end_ge [OF that] assms(2) total by (simp add: m0_def frames_up_mono)
  then obtain m1 where m1: "for_each PMM_mark_region ?es m0 = Done () m1"
    "pmm_inv m1" "pmm_step m0 m1" "used_set m1 = (\<Union>e \<in> set ?es. region_frames e)"
    using mark_regions [OF m0(2), of ?es] m0(1) by auto
  have k: "unat (ucast (ks + ksz) :: u64) = unat ks + unat ksz"
    using assms(4) by (simp add: unat_word_ariths)
  have t1: "unat (total_frames (pmm m1)) = T" using m1(3) total by (simp add: pmm_step_def m0_def)
  obtain m2 where m2: "PMM_mark_frames (ks div PMM_FRAME_SIZE)
      (ucast (align_up (ucast (ks + ksz)) PMM_FRAME_ALIGN div ucast PMM_FRAME_SIZE)) m1 = Done () m2"
    "pmm_inv m2" "pmm_step m1 m2" "used_set m2 = frame_range (unat ks) (unat ks + unat ksz) \<union> used_set m1"
    using mark_range [OF m1(2), of "ucast (ks + ksz)" ks] assms(3,4) fT t1 k by auto
  have b: "unat (ucast (bitmap + msize) :: u64) = bitmap_at pms + bitmap_size T"
    using assms(7) bitmap msize by (simp add: unat_word_ariths)
  have t2: "unat (total_frames (pmm m2)) = T" using m2(3) t1 by (simp add: pmm_step_def)
  obtain m3 where m3: "PMM_mark_frames (bitmap div PMM_FRAME_SIZE)
      (ucast (align_up (ucast (bitmap + msize)) PMM_FRAME_ALIGN div ucast PMM_FRAME_SIZE)) m2 = Done () m3"
    "pmm_inv m3" "pmm_step m2 m3"
    "used_set m3 = frame_range (bitmap_at pms) (bitmap_at pms + bitmap_size T) \<union> used_set m2"
    using mark_range [OF m2(2), of "ucast (bitmap + msize)" bitmap] assms(6,7) fT t2 b bitmap by auto
  have "PMM_init n mm pms ks ksz m = Done () m3"
    using h1(1) m1(1) m2(1) m3(1)
    by (simp add: PMM_init_def Let_def bind_def [of "PMM_high_end _ _"] total_def [symmetric]
        bitmap_def [symmetric] msize_def [symmetric] m0_def [symmetric] bind_def [of "for_each _ _"]
        bind_def [of "PMM_mark_frames _ _"])
  moreover have s: "pmm_step m0 m3" using m1(3) m2(3) m3(3) by (blast intro: pmm_step_trans)
  moreover obtain r p where "m3 = m0\<lparr>ram := r, pmm := p\<rparr>" using s unfolding pmm_step_def by blast
  then have "m3 = m\<lparr>ram := r, pmm := p\<rparr>" by (simp add: m0_def)
  ultimately show ?thesis
    using m1(4) m2(4) m3(2,4) total bitmap
    by (intro exI [of _ m3] conjI) (auto simp: pmm_step_def m0_def)
qed

section \<open>Properties\<close>

text \<open>
  C5. From a memory map below 4 GiB, with the kernel and the bitmap inside the memory, the
  initialisation does not panic, counts the frames of the memory, and leaves in use exactly
  the frames that meet an unavailable region, the kernel or the bitmap itself, with the counter
  in step with the bitmap.
\<close>

theorem PMM_init_correct:
  assumes "list_all below_4GB (take (unat n) mm)" "T = frames_up (max_end (take (unat n) mm))"
    and "unat ks + unat ksz \<le> T * 4096" "unat ks + unat ksz < 2 ^ 32"
    and "unat pms < 2 ^ 32 - 7" "bitmap_at pms + bitmap_size T \<le> T * 4096"
    and "bitmap_at pms + bitmap_size T < 2 ^ 32"
  shows "\<exists>m1. PMM_init n mm pms ks ksz m = Done () m1 \<and> pmm_inv m1
    \<and> unat (total_frames (pmm m1)) = T \<and> unat (frames_map (pmm m1)) = bitmap_at pms
    \<and> used_set m1 = (\<Union>e \<in> set (take (unat n) mm). region_frames e)
        \<union> frame_range (unat ks) (unat ks + unat ksz)
        \<union> frame_range (bitmap_at pms) (bitmap_at pms + bitmap_size T)"
  using PMM_init_done [OF assms] by blast

theorem PMM_init_correct_witness:
  "\<forall>m. \<exists>m1. PMM_init 1 [\<lparr>base_addr_lo = 0, base_addr_hi = 0, length_lo = 0x200000, length_hi = 0,
      mtype = 1, acpi = 0\<rparr>] 0x104000 0x1000 0x3000 m = Done () m1
    \<and> unat (used_frames (pmm m1)) = 4 \<and> used_set m1 = {1, 2, 3, 0x104}"
proof
  fix m :: machine
  let ?e = "\<lparr>base_addr_lo = 0, base_addr_hi = 0, length_lo = 0x200000, length_hi = 0, mtype = 1, acpi = 0\<rparr>"
  have T: "frames_up (max_end (take (unat (1 :: u32)) [?e])) = 512"
    by (simp add: max_end_def region_end_def frames_up_def)
  have "\<exists>m1. PMM_init 1 [?e] 0x104000 0x1000 0x3000 m = Done () m1 \<and> pmm_inv m1
    \<and> unat (total_frames (pmm m1)) = 512 \<and> unat (frames_map (pmm m1)) = bitmap_at 0x104000
    \<and> used_set m1 = (\<Union>e \<in> set (take (unat (1 :: u32)) [?e]). region_frames e)
        \<union> frame_range (unat (0x1000 :: u32)) (unat (0x1000 :: u32) + unat (0x3000 :: u32))
        \<union> frame_range (bitmap_at 0x104000) (bitmap_at 0x104000 + bitmap_size 512)"
    by (rule PMM_init_correct)
       (simp_all add: below_4GB_def bitmap_at_def bitmap_size_def max_end_def region_end_def frames_up_def)
  moreover have "frame_range 0x1000 0x4000 = {1, 2, 3}"
  proof -
    have "f \<in> frame_range 0x1000 0x4000 \<longleftrightarrow> unat f \<in> {1, 2, 3}" for f :: u32
      by (auto simp: frame_range_def frames_up_def)
    moreover have "unat f = 1 \<longleftrightarrow> f = 1" "unat f = 2 \<longleftrightarrow> f = 2" "unat f = 3 \<longleftrightarrow> f = 3" for f :: u32
      by (simp_all add: word_unat_eq_iff)
    ultimately show ?thesis by auto
  qed
  moreover have "frame_range 0x104000 0x104040 = {0x104}"
  proof -
    have "f \<in> frame_range 0x104000 0x104040 \<longleftrightarrow> unat f = 0x104" for f :: u32
      by (auto simp: frame_range_def frames_up_def)
    moreover have "unat f = 0x104 \<longleftrightarrow> f = 0x104" for f :: u32
      by (simp add: word_unat_eq_iff)
    ultimately show ?thesis by auto
  qed
  ultimately obtain m1 where m1: "PMM_init 1 [?e] 0x104000 0x1000 0x3000 m = Done () m1" "pmm_inv m1"
    and u: "used_set m1 = {1, 2, 3, 0x104}"
    by (elim exE conjE) (simp add: region_frames_def bitmap_at_def bitmap_size_def insert_commute)
  from m1(2) have "unat (used_frames (pmm m1)) = 4" unfolding pmm_inv_def u by simp
  with m1(1) u show "\<exists>m1. PMM_init 1 [?e] 0x104000 0x1000 0x3000 m = Done () m1
    \<and> unat (used_frames (pmm m1)) = 4 \<and> used_set m1 = {1, 2, 3, 0x104}" by blast
qed

text \<open>
  C14. An allocation of one frame returns a null pointer and changes nothing, or takes a frame
  below the limit that was not in use; freeing one frame that is in use releases exactly that
  frame; both keep the counter in step with the bitmap.
\<close>

theorem PMM_malloc_free_frame:
  assumes "pmm_inv m" "0 < unat sz" "unat sz \<le> 4096"
  shows "(PMM_malloc sz m = Done 0 m \<or>
     (\<exists>f m1. PMM_malloc sz m = Done (f * 4096) m1 \<and> f < total_frames (pmm m) \<and> f \<notin> used_set m
       \<and> used_set m1 = insert f (used_set m) \<and> pmm_inv m1))
   \<and> (\<forall>ptr. ptr div 4096 \<in> used_set m \<longrightarrow>
     (\<exists>m1. PMM_free ptr sz m = Done () m1 \<and> used_set m1 = used_set m - {ptr div 4096} \<and> pmm_inv m1))"
proof -
  have "unat (size2frame sz) = 1"
    using assms(2,3) unfolding size2frame_eq frames_up_def by simp
  then have "size2frame sz = 1" by (simp add: word_unat_eq_iff)
  with PMM_malloc_one [OF assms(1)] PMM_free_one [OF assms(1)] show ?thesis by metis
qed

definition pmm_example :: "machine \<Rightarrow> machine" where
  "pmm_example m = m\<lparr>ram := (\<lambda>_. 0), pmm := \<lparr>total_frames = 64, used_frames = 0, frames_map = 0x5000\<rparr>\<rparr>"

lemma pmm_example_inv: "used_set (pmm_example m) = {}" "pmm_inv (pmm_example m)"
  by (simp_all add: pmm_example_def used_set_def pmm_inv_def test_byte)

theorem PMM_malloc_free_frame_witness:
  "\<forall>m. PMM_malloc 4096 (pmm_example m) = Done 0 (pmm_example m) \<or>
     (\<exists>f m1. PMM_malloc 4096 (pmm_example m) = Done (f * 4096) m1 \<and> used_set m1 = {f})"
proof
  fix m :: machine
  show "PMM_malloc 4096 (pmm_example m) = Done 0 (pmm_example m) \<or>
     (\<exists>f m1. PMM_malloc 4096 (pmm_example m) = Done (f * 4096) m1 \<and> used_set m1 = {f})"
    using PMM_malloc_free_frame [OF pmm_example_inv(2), of 4096 m] by (simp add: pmm_example_inv(1)) blast
qed

text \<open>
  C10. However many pages are allocated one after the other, the requests are answered with the
  frames that the search of the source picks, each with the frames in use that the ones before
  left, and with a null pointer exactly when it picks none (or frame 0, whose address is null);
  the pointers that are not null are pairwise distinct and none of them was in use before.
\<close>

theorem PMM_pages_distinct:
  assumes "pmm_wf m" "alloc_run PMM_alloc_page n m = (ps, m1)"
  shows "pmm_wf m1 \<and> ps = map page_pointer (pick_frames (unat (total_frames (pmm m))) n (frame_bit m))
    \<and> distinct (filter (\<lambda>p. p \<noteq> 0) ps) \<and> set (filter (\<lambda>p. p \<noteq> 0) ps) \<inter> used_pages m = {}"
  using pages.alloc_run_fresh [OF assms] alloc_run_pick [OF assms(1), of n] assms(2) by simp

text \<open>With frame 0 of 64 in use, three requests are answered with the pages 1, 2 and 3.\<close>

theorem PMM_pages_distinct_witness:
  "\<forall>m. fst (alloc_run PMM_alloc_page 3 (mark_frame 0 (pmm_example m))) = [0x1000, 0x2000, 0x3000]"
proof
  fix m :: machine
  let ?m = "mark_frame 0 (pmm_example m)"
  have t: "\<not> bitset_test p f (\<lambda>_. 0)" for p f by (simp add: test_byte)
  have wf: "pmm_wf ?m"
    using mark_frame_step(1,3) [OF pmm_example_inv(2), of 0 m] by (simp add: pmm_wf_def pmm_step_def) (simp add: pmm_example_def)
  have tf: "unat (total_frames (pmm ?m)) = 64" by (simp add: mark_frame_def pmm_example_def)
  have "frame_bit ?m = (\<lambda>_. False)(0 := True)"
    using of_nat_inj_small [of _ 0, where 'a = 32]
    by (auto simp: fun_eq_iff frame_bit_def mark_frame_def pmm_example_def bitset.test_set t)
  moreover have "pick_frames 64 3 ((\<lambda>_. False)(0 := True)) = [Some 1, Some 2, Some 3]"
    by code_simp
  ultimately show "fst (alloc_run PMM_alloc_page 3 ?m) = [0x1000, 0x2000, 0x3000]"
    using PMM_pages_distinct [OF wf, of 3] tf by (cases "alloc_run PMM_alloc_page 3 ?m") (simp add: page_pointer_def)
qed

text \<open>
  Where the probe of \<^verbatim>\<open>bitset_find\<close> misleads the allocator.  With frames 0 and 2 of 32 in
  use, a request for two frames is answered with the frames 1 and 2, and the counter no longer
  agrees with the bitmap.  With the first 13 of 8192 frames in use, a request for one frame
  fails although all the others are free.
\<close>

theorem PMM_malloc_probe_defect:
  "(let m0 = m\<lparr>ram := (\<lambda>_. 0)(p := 5), pmm := \<lparr>total_frames = 32, used_frames = 2, frames_map = p\<rparr>\<rparr> in
      pmm_inv m0 \<and> 2 \<in> used_set m0 \<and> (\<exists>m1. PMM_malloc 8192 m0 = Done 0x1000 m1 \<and> \<not> pmm_inv m1))
   \<and> (let m0 = m\<lparr>ram := (\<lambda>_. 0)(p := 0xFF, p + 1 := 0x1F),
          pmm := \<lparr>total_frames = 8192, used_frames = 13, frames_map = p\<rparr>\<rparr> in
      PMM_malloc 4096 m0 = Done 0 m0 \<and> 13 < total_frames (pmm m0) \<and> 13 \<notin> used_set m0)"
proof -
  have clear: "\<not> bitset_test p f (\<lambda>_. 0)" for f by (simp add: test_byte)
  let ?r = "(\<lambda>_. 0)(p := 5) :: memory" and ?s = "(\<lambda>_. 0)(p := 0xFF, p + 1 := 0x1F) :: memory"
  let ?a = "m\<lparr>ram := ?r, pmm := \<lparr>total_frames = 32, used_frames = 2, frames_map = p\<rparr>\<rparr>"
  let ?b = "m\<lparr>ram := ?s, pmm := \<lparr>total_frames = 8192, used_frames = 13, frames_map = p\<rparr>\<rparr>"
  have "?r = fold (bitset_set p) [0, 2] (\<lambda>_. 0)" by (simp add: set_byte bit_addr_def)
  then have t: "bitset_test p f ?r \<longleftrightarrow> f = 0 \<or> f = 2" for f
    by (simp only: bitset.test_fold_set clear) auto
  then have ua: "used_set ?a = {0, 2}" by (auto simp: used_set_def)
  have ks: "[0..<3] = [0, 1, 2 :: nat]" by (simp add: upt_rec)
  have "load32 ?r (bitset_word p (of_nat 0)) = 5" by (simp add: bitset_word_def load32_def)
  then have "bitset_find_body p ?r 32 2 0 1 = Some (Some 1)"
    by (simp add: bitset_find_body_def BITSET_SIZE_def ks t)
  moreover have "bitset_find_body p ?r 32 2 0 0 = None"
    using find_body_used [of p 0 0 ?r 32 2] t by simp
  ultimately have "bitset_find p 32 2 ?r = Some 1"
    by (intro bitset_find_first_word [where j = 1]) auto
  moreover have "size2frame 8192 = 2" by (simp add: size2frame_def PMM_FRAME_SIZE_def)
  moreover have "[0..<2] = [0, 1 :: nat]" by (simp add: upt_rec)
  ultimately have ma: "PMM_malloc 8192 ?a = Done 0x1000 (?a\<lparr>ram := fold (bitset_set p) [1, 2] ?r,
      pmm := \<lparr>total_frames = 32, used_frames = 4, frames_map = p\<rparr>\<rparr>)" (is "_ = Done _ ?a1")
    by (simp add: PMM_malloc_def frames_free_word PMM_FRAME_SIZE_def del: fun_upd_apply)
  have "used_set ?a1 = {0, 1, 2}"
    by (auto simp: used_set_def bitset.test_set t)
  then have "\<not> pmm_inv ?a1" by (simp add: pmm_inv_def)
  moreover have "pmm_inv ?a" by (simp add: pmm_inv_def ua)
  moreover have "bitset_find p 8192 1 ?s = None"
  proof (rule bitset_find_first_word [where j = 13])
    fix j' :: nat
    assume "j' < 13"
    then have "j' \<in> set [0..<13]" by simp
    then have "bitset_test p (of_nat j') ?s"
      by (auto simp: upt_rec test_byte bit_addr_def bit_numeral_rec)
    then show "bitset_find_body p ?s 8192 1 0 j' = None"
      using \<open>j' < 13\<close> by (intro find_body_used) auto
  next
    have "load32 ?s (bitset_word p (of_nat 0)) = 0x1FFF"
      by (simp add: bitset_word_def load32_def)
    then show "bitset_find_body p ?s 8192 1 0 13 = Some None"
      by (simp add: bitset_find_body_def BITSET_SIZE_def)
  qed simp_all
  then have "PMM_malloc 4096 ?b = Done 0 ?b" by (simp add: PMM_malloc_def)
  moreover have "13 \<notin> used_set ?b" by (simp add: used_set_def test_byte bit_addr_def)
  ultimately show ?thesis
    using ua ma by (simp only: Let_def) auto
qed


text \<open>
  C28. The errors of the manager: a memory map with a region above 4 GiB stops
  \<^verbatim>\<open>PMM_init\<close> with its panic, whatever else is in the map, and a \<^verbatim>\<open>PMM_free\<close> of more
  frames than are in use stops with a panic that names the two counters.
\<close>

theorem PMM_errors:
  "(list_ex (\<lambda>e. \<not> below_4GB e) (take (unat n) mm) \<longrightarrow> (\<exists>m1. PMM_init n mm pms ks ksz m
      = Stop (Panic (cstr ''unable to address more then 4GB'' @ [0]) (cstr PMM_file @ [0]) 40) m1))
   \<and> (used_frames (pmm m) < size2frame sz \<longrightarrow> (\<exists>m1. PMM_free ptr sz m
      = Stop (Panic (used_frames_text (cstr ''PMM_free_frames'') (used_frames (pmm m))
          (total_frames (pmm m)) @ [0]) (cstr PMM_file @ [0]) 25) m1))"
proof (intro conjI impI)
  assume "list_ex (\<lambda>e. \<not> below_4GB e) (take (unat n) mm)"
  then have "\<not> list_all below_4GB (take (unat n) mm)" by (auto simp: list_ex_iff list_all_iff)
  from PMM_high_end_panic [OF this, of 0 m]
  show "\<exists>m1. PMM_init n mm pms ks ksz m
      = Stop (Panic (cstr ''unable to address more then 4GB'' @ [0]) (cstr PMM_file @ [0]) 40) m1"
    by (auto simp: PMM_init_def Let_def bind_def [of "PMM_high_end _ _"])
next
  assume "used_frames (pmm m) < size2frame sz"
  from PMM_free_panic [OF this, of ptr]
  show "\<exists>m1. PMM_free ptr sz m = Stop (Panic (used_frames_text (cstr ''PMM_free_frames'')
      (used_frames (pmm m)) (total_frames (pmm m)) @ [0]) (cstr PMM_file @ [0]) 25) m1" by blast
qed

theorem PMM_errors_witness:
  "\<forall>m. \<exists>msg m1. PMM_free 0 8192 (m\<lparr>pmm := \<lparr>total_frames = 64, used_frames = 1, frames_map = 0\<rparr>\<rparr>)
     = Stop (Panic msg (cstr PMM_file @ [0]) 25) m1"
proof
  fix m :: machine
  have "(1 :: u32) < size2frame 8192" by (simp add: size2frame_def PMM_FRAME_SIZE_def)
  then show "\<exists>msg m1. PMM_free 0 8192 (m\<lparr>pmm := \<lparr>total_frames = 64, used_frames = 1, frames_map = 0\<rparr>\<rparr>)
     = Stop (Panic msg (cstr PMM_file @ [0]) 25) m1"
    using PMM_errors [where m = "m\<lparr>pmm := \<lparr>total_frames = 64, used_frames = 1, frames_map = 0\<rparr>\<rparr>"
        and sz = 8192 and ptr = 0] by simp blast
qed

end
