(* ===== verification/Pic.thy ===== *)
theory Pic
  imports Machine
begin

text \<open>
  \<^verbatim>\<open>arch/x86/PIC.c\<close>: programming the two cascaded 8259 interrupt controllers.  The port
  writes are read through the documented initialisation sequence of the controller.
\<close>

section \<open>Definitions\<close>

definition PIC1_REG_CMD :: u16 where "PIC1_REG_CMD = 0x20"
definition PIC1_REG_STATUS :: u16 where "PIC1_REG_STATUS = 0x20"
definition PIC1_REG_DATA :: u16 where "PIC1_REG_DATA = 0x21"
definition PIC2_REG_CMD :: u16 where "PIC2_REG_CMD = 0xA0"
definition PIC2_REG_STATUS :: u16 where "PIC2_REG_STATUS = 0xA0"
definition PIC2_REG_DATA :: u16 where "PIC2_REG_DATA = 0xA1"

definition PIC1_BASE_INT :: u8 where "PIC1_BASE_INT = 0x20"
definition PIC2_BASE_INT :: u8 where "PIC2_BASE_INT = 0x28"

definition PIC_ICW1_IC4_EXPECT :: u8 where "PIC_ICW1_IC4_EXPECT = 1"
definition PIC_ICW1_INIT_YES :: u8 where "PIC_ICW1_INIT_YES = 0x10"
definition PIC_ICW4_UPM_86MODE :: u8 where "PIC_ICW4_UPM_86MODE = 1"
definition PIC_OCW2_MASK_EOI :: u8 where "PIC_OCW2_MASK_EOI = 0x20"

definition PIC_init :: "unit K" where
  "PIC_init = exec [
     outb PIC1_REG_CMD (PIC_ICW1_INIT_YES OR PIC_ICW1_IC4_EXPECT),
     outb PIC2_REG_CMD (PIC_ICW1_INIT_YES OR PIC_ICW1_IC4_EXPECT),
     outb PIC1_REG_DATA PIC1_BASE_INT,
     outb PIC2_REG_DATA PIC2_BASE_INT,
     outb PIC1_REG_DATA 0x04,
     outb PIC2_REG_DATA 0x02,
     outb PIC1_REG_DATA PIC_ICW4_UPM_86MODE,
     outb PIC2_REG_DATA PIC_ICW4_UPM_86MODE]"

definition PIC_EOI :: "u8 \<Rightarrow> unit K" where
  "PIC_EOI num_int = exec [
     k_when (num_int > 7) (outb PIC2_REG_STATUS PIC_OCW2_MASK_EOI),
     outb PIC1_REG_STATUS PIC_OCW2_MASK_EOI]"

text \<open>\<^verbatim>\<open>PIC_disable\<close> has an empty body.\<close>

definition PIC_disable :: "unit K" where
  "PIC_disable = ret ()"

text \<open>The second controller's status is read first.\<close>

definition pic_get_irq_reg :: "u8 \<Rightarrow> u16 K" where
  "pic_get_irq_reg ocw3 =
     bind (outb PIC1_REG_CMD ocw3) (\<lambda>_.
     bind (outb PIC2_REG_CMD ocw3) (\<lambda>_.
     bind (inb PIC2_REG_STATUS) (\<lambda>hi.
     bind (inb PIC1_REG_STATUS) (\<lambda>lo.
     ret (push_bit 8 (ucast hi) OR ucast lo)))))"

definition PIC_get_irr :: "u16 K" where "PIC_get_irr = pic_get_irq_reg 0x0A"
definition PIC_get_isr :: "u16 K" where "PIC_get_isr = pic_get_irq_reg 0x0B"

lemmas pic_defs = PIC1_REG_CMD_def PIC1_REG_STATUS_def PIC1_REG_DATA_def PIC2_REG_CMD_def
  PIC2_REG_STATUS_def PIC2_REG_DATA_def PIC1_BASE_INT_def PIC2_BASE_INT_def
  PIC_ICW1_IC4_EXPECT_def PIC_ICW1_INIT_YES_def PIC_ICW4_UPM_86MODE_def PIC_OCW2_MASK_EOI_def

section \<open>The controller\<close>

text \<open>
  The 8259: a command with bit 4 set is ICW1, which clears the interrupt mask and is followed
  on the data port by ICW2 (vector base), ICW3 (unless bit 1 of ICW1) and ICW4 (if bit 0);
  other data writes set the mask, and a command with bits 7 to 3 equal to \<open>00100\<close> is a
  non-specific end of interrupt.
\<close>

record i8259 =
  expects :: "nat list"
  icw2 :: u8
  icw3 :: u8
  icw4 :: u8
  imr :: u8
  level_triggered :: bool
  eois :: nat

definition i8259_cmd :: "u8 \<Rightarrow> i8259 \<Rightarrow> i8259" where
  "i8259_cmd v s =
     (if bit v 4 then
        s\<lparr>expects := 2 # (if bit v 1 then [] else [3]) @ (if bit v 0 then [4] else []),
          imr := 0, icw4 := 0, level_triggered := bit v 3\<rparr>
      else if v AND 0xF8 = 0x20 then s\<lparr>eois := Suc (eois s)\<rparr> else s)"

definition i8259_data :: "u8 \<Rightarrow> i8259 \<Rightarrow> i8259" where
  "i8259_data v s = (case expects s of
       [] \<Rightarrow> s\<lparr>imr := v\<rparr>
     | k # ks \<Rightarrow> (if k = 2 then s\<lparr>icw2 := v, expects := ks\<rparr>
         else if k = 3 then s\<lparr>icw3 := v, expects := ks\<rparr>
         else s\<lparr>icw4 := v, expects := ks\<rparr>))"

fun i8259_step :: "u16 \<Rightarrow> event \<Rightarrow> i8259 \<Rightarrow> i8259" where
  "i8259_step base (Out8 p v) s =
     (if p = base then i8259_cmd v s else if p = base + 1 then i8259_data v s else s)"
| "i8259_step _ _ s = s"

definition i8259_run :: "u16 \<Rightarrow> event list \<Rightarrow> i8259 \<Rightarrow> i8259" where
  "i8259_run base es s = fold (i8259_step base) es s"

section \<open>Properties\<close>

text \<open>
  C37. Whatever state the controllers are in, after \<^verbatim>\<open>PIC_init\<close> both have finished their
  initialisation: the first maps its lines to interrupts from \<open>0x20\<close> and has its slave on line
  2, the second maps its lines to interrupts from \<open>0x28\<close> and answers to line 2, both run in
  8086 mode, edge triggered, without automatic end of interrupt and with no line masked.
\<close>

theorem PIC_init_correct:
  "\<exists>m1 es. PIC_init m = Done () m1 \<and> m1 = m\<lparr>trace := trace m @ es\<rparr>
     \<and> i8259_run 0x20 es s1 = s1\<lparr>expects := [], icw2 := 0x20, icw3 := push_bit 2 1, icw4 := 1,
          imr := 0, level_triggered := False\<rparr>
     \<and> i8259_run 0xA0 es s2 = s2\<lparr>expects := [], icw2 := 0x28, icw3 := 2, icw4 := 1,
          imr := 0, level_triggered := False\<rparr>"
proof -
  define es where "es = [Out8 0x20 0x11, Out8 0xA0 0x11, Out8 0x21 0x20, Out8 0xA1 0x28,
     Out8 0x21 4, Out8 0xA1 2, Out8 0x21 1, Out8 0xA1 1]"
  have "PIC_init m = Done () (m\<lparr>trace := trace m @ es\<rparr>)"
    by (simp add: PIC_init_def pic_defs run es_def)
  moreover have "i8259_run 0x20 es s1 = s1\<lparr>expects := [], icw2 := 0x20, icw3 := push_bit 2 1, icw4 := 1,
      imr := 0, level_triggered := False\<rparr>"
    by (cases s1) (simp add: i8259_run_def es_def i8259_cmd_def i8259_data_def)
  moreover have "i8259_run 0xA0 es s2 = s2\<lparr>expects := [], icw2 := 0x28, icw3 := 2, icw4 := 1,
      imr := 0, level_triggered := False\<rparr>"
    by (cases s2) (simp add: i8259_run_def es_def i8259_cmd_def i8259_data_def)
  ultimately show ?thesis by blast
qed

text \<open>
  An end of interrupt for line \<open>n\<close> reaches the first controller always and the second one
  exactly for the lines above 7, once each.
\<close>

theorem PIC_EOI_correct:
  "\<exists>es. PIC_EOI n m = Done () (m\<lparr>trace := trace m @ es\<rparr>)
     \<and> i8259_run 0x20 es s1 = s1\<lparr>eois := Suc (eois s1)\<rparr>
     \<and> i8259_run 0xA0 es s2 = (if unat n \<le> 7 then s2 else s2\<lparr>eois := Suc (eois s2)\<rparr>)"
proof -
  define es where "es = (if unat n \<le> 7 then [Out8 0x20 0x20] else [Out8 0xA0 0x20, Out8 0x20 (0x20 :: u8)])"
  have "PIC_EOI n m = Done () (m\<lparr>trace := trace m @ es\<rparr>)"
    by (simp add: PIC_EOI_def pic_defs run es_def word_less_nat_alt)
  moreover have "i8259_run 0x20 es s1 = s1\<lparr>eois := Suc (eois s1)\<rparr>"
    by (simp add: i8259_run_def es_def i8259_cmd_def)
  moreover have "i8259_run 0xA0 es s2 = (if unat n \<le> 7 then s2 else s2\<lparr>eois := Suc (eois s2)\<rparr>)"
    by (simp add: i8259_run_def es_def i8259_cmd_def)
  ultimately show ?thesis by blast
qed

end
