(* ===== verification/Interrupts.thy ===== *)
theory Interrupts
  imports Vga Strings Pic
begin

text \<open>
  Loading the descriptor tables (\<^verbatim>\<open>arch/x86/descriptors.c\<close>), the interrupt gates and the
  dispatch of interrupts to handlers (\<^verbatim>\<open>arch/x86/ISR_IRQ.{h,c}\<close>, \<^verbatim>\<open>ISR.S\<close>,
  \<^verbatim>\<open>IRQ.S\<close>), and the way the machine takes interrupts while the kernel waits.  The handlers
  belong to other components: the definitions here take the function \<open>call\<close> that runs the
  handler behind a function pointer.
\<close>

section \<open>Loading the tables\<close>

definition gdtr :: "machine \<Rightarrow> DT_register_t" where
  "gdtr m = \<lparr>dt_size = of_nat (sizeof_GDT_descriptor_t * MAX_GDT_DESCRIPTORS - 1),
     dt_offset = symaddr m Sym_gdtd\<rparr>"

definition idtr :: "machine \<Rightarrow> DT_register_t" where
  "idtr m = \<lparr>dt_size = of_nat (sizeof_IDT_descriptor_t * MAX_INTERRUPTS - 1),
     dt_offset = symaddr m Sym_idtd\<rparr>"

definition GDT_load :: "DT_register_t \<Rightarrow> unit K" where
  "GDT_load dtr = log (Lgdt dtr)"

definition IDT_load :: "DT_register_t \<Rightarrow> unit K" where
  "IDT_load dtr = log (Lidt dtr)"

definition GDT_reload_segments :: "unit K" where
  "GDT_reload_segments = log (Reload_segments GDT_KERNEL_CODE_SEL GDT_KERNEL_DATA_SEL)"

definition GDT_init :: "unit K" where
  "GDT_init = exec [
     modify (\<lambda>m. m\<lparr>gdtd := GDT_set_tss_base (symaddr m Sym_g_tss) (gdtd m)\<rparr>),
     bind (gets gdtr) GDT_load,
     GDT_reload_segments]"

text \<open>\<^verbatim>\<open>IDT_default_handler\<close> loops forever.\<close>

definition IDT_default_handler :: "unit K" where
  "IDT_default_handler = exec [VGA_clear, VGA_WriteChar 0 0 88 15, stop Hang]"

definition IDT_set_gate :: "u8 \<Rightarrow> symbol \<Rightarrow> unit K" where
  "IDT_set_gate numInt idt_func = modify (\<lambda>m. m\<lparr>idtd := (idtd m)[unat numInt :=
     IDT_set_IDT_handler IDT_GATE_INT32 IDT_DPL_RING0 GDT_KERNEL_CODE_SEL (symaddr m idt_func)]\<rparr>)"

definition IDT_init :: "unit K" where
  "IDT_init = exec [
     for_each (\<lambda>i. modify (\<lambda>m. m\<lparr>idtd := (idtd m)[i :=
       IDT_set_IDT_handler IDT_GATE_INT32 IDT_DPL_RING0 GDT_KERNEL_CODE_SEL
         (symaddr m Sym_IDT_default_handler)]\<rparr>)) [0..<MAX_INTERRUPTS],
     bind (gets idtr) IDT_load]"

definition init_descriptor_tables :: "unit K" where
  "init_descriptor_tables = exec [cli, GDT_init, IDT_init]"

section \<open>Interrupt numbers\<close>

definition INT_Divide_Error :: u8 where "INT_Divide_Error = 0"
definition INT_Debug_Exception :: u8 where "INT_Debug_Exception = 1"
definition INT_NMI_Interrupt :: u8 where "INT_NMI_Interrupt = 2"
definition INT_Breakpoint :: u8 where "INT_Breakpoint = 3"
definition INT_Overflow :: u8 where "INT_Overflow = 4"
definition INT_Bbounds_Range_Exceeded :: u8 where "INT_Bbounds_Range_Exceeded = 5"
definition INT_Invalid_Opcode :: u8 where "INT_Invalid_Opcode = 6"
definition INT_Device_Not_Available :: u8 where "INT_Device_Not_Available = 7"
definition INT_Double_Fault :: u8 where "INT_Double_Fault = 8"
definition INT_Coprocessor_Segment_Overrun :: u8 where "INT_Coprocessor_Segment_Overrun = 9"
definition INT_Invalid_TSS :: u8 where "INT_Invalid_TSS = 10"
definition INT_Segment_Not_Present :: u8 where "INT_Segment_Not_Present = 11"
definition INT_Stack_Segment_Fault :: u8 where "INT_Stack_Segment_Fault = 12"
definition INT_General_Protection :: u8 where "INT_General_Protection = 13"
definition INT_Page_Fault :: u8 where "INT_Page_Fault = 14"
definition INT_FPU_Error :: u8 where "INT_FPU_Error = 16"
definition INT_Alignment_Check :: u8 where "INT_Alignment_Check = 17"
definition INT_Machine_Check :: u8 where "INT_Machine_Check = 18"
definition INT_SIMD_Floating_Point_Exception :: u8 where "INT_SIMD_Floating_Point_Exception = 19"
definition INT_Virtualization_Exception :: u8 where "INT_Virtualization_Exception = 20"
definition INT_Control_Protection_Exception :: u8 where "INT_Control_Protection_Exception = 21"

definition IRQ_TIMER :: u8 where "IRQ_TIMER = 0"
definition IRQ_KEYBOARD :: u8 where "IRQ_KEYBOARD = 1"
definition IRQ_CASCADE :: u8 where "IRQ_CASCADE = 2"
definition IRQ_SERIAL2 :: u8 where "IRQ_SERIAL2 = 3"
definition IRQ_SERIAL1 :: u8 where "IRQ_SERIAL1 = 4"
definition IRQ_PARALLEL2 :: u8 where "IRQ_PARALLEL2 = 5"
definition IRQ_DISKETTE :: u8 where "IRQ_DISKETTE = 6"
definition IRQ_PARALLEL1 :: u8 where "IRQ_PARALLEL1 = 7"
definition IRQ_CMOSTIMER :: u8 where "IRQ_CMOSTIMER = 8"
definition IRQ_CGARETRACE :: u8 where "IRQ_CGARETRACE = 9"
definition IRQ_OPEN1 :: u8 where "IRQ_OPEN1 = 10"
definition IRQ_OPEN2 :: u8 where "IRQ_OPEN2 = 11"
definition IRQ_AUX :: u8 where "IRQ_AUX = 12"
definition IRQ_FPU :: u8 where "IRQ_FPU = 13"
definition IRQ_ATA_PRIMARY :: u8 where "IRQ_ATA_PRIMARY = 14"
definition IRQ_ATA_SECONDARY :: u8 where "IRQ_ATA_SECONDARY = 15"

definition ISR_init :: "unit K" where
  "ISR_init = exec [
     IDT_set_gate INT_Divide_Error (ISR_INT 0),
     IDT_set_gate INT_Debug_Exception (ISR_INT 1),
     IDT_set_gate INT_NMI_Interrupt (ISR_INT 2),
     IDT_set_gate INT_Breakpoint (ISR_INT 3),
     IDT_set_gate INT_Overflow (ISR_INT 4),
     IDT_set_gate INT_Bbounds_Range_Exceeded (ISR_INT 5),
     IDT_set_gate INT_Invalid_Opcode (ISR_INT 6),
     IDT_set_gate INT_Device_Not_Available (ISR_INT 7),
     IDT_set_gate INT_Double_Fault (ISR_INT 8),
     IDT_set_gate INT_Coprocessor_Segment_Overrun (ISR_INT 9),
     IDT_set_gate INT_Invalid_TSS (ISR_INT 10),
     IDT_set_gate INT_Segment_Not_Present (ISR_INT 11),
     IDT_set_gate INT_Stack_Segment_Fault (ISR_INT 12),
     IDT_set_gate INT_General_Protection (ISR_INT 13),
     IDT_set_gate INT_Page_Fault (ISR_INT 14),
     IDT_set_gate INT_FPU_Error (ISR_INT 16),
     IDT_set_gate INT_Alignment_Check (ISR_INT 17),
     IDT_set_gate INT_Machine_Check (ISR_INT 18),
     IDT_set_gate INT_SIMD_Floating_Point_Exception (ISR_INT 19),
     IDT_set_gate INT_Virtualization_Exception (ISR_INT 20),
     IDT_set_gate INT_Control_Protection_Exception (ISR_INT 21)]"

definition IRQ_init :: "unit K" where
  "IRQ_init = exec [
     IDT_set_gate (PIC1_BASE_INT + IRQ_TIMER) (IRQ_INT 0),
     IDT_set_gate (PIC1_BASE_INT + IRQ_KEYBOARD) (IRQ_INT 1),
     IDT_set_gate (PIC1_BASE_INT + IRQ_CASCADE) (IRQ_INT 2),
     IDT_set_gate (PIC1_BASE_INT + IRQ_SERIAL2) (IRQ_INT 3),
     IDT_set_gate (PIC1_BASE_INT + IRQ_SERIAL1) (IRQ_INT 4),
     IDT_set_gate (PIC1_BASE_INT + IRQ_PARALLEL2) (IRQ_INT 5),
     IDT_set_gate (PIC1_BASE_INT + IRQ_DISKETTE) (IRQ_INT 6),
     IDT_set_gate (PIC1_BASE_INT + IRQ_PARALLEL1) (IRQ_INT 7),
     IDT_set_gate (PIC1_BASE_INT + IRQ_CMOSTIMER) (IRQ_INT 8),
     IDT_set_gate (PIC1_BASE_INT + IRQ_CGARETRACE) (IRQ_INT 9),
     IDT_set_gate (PIC1_BASE_INT + IRQ_OPEN1) (IRQ_INT 10),
     IDT_set_gate (PIC1_BASE_INT + IRQ_OPEN2) (IRQ_INT 11),
     IDT_set_gate (PIC1_BASE_INT + IRQ_AUX) (IRQ_INT 12),
     IDT_set_gate (PIC1_BASE_INT + IRQ_FPU) (IRQ_INT 13),
     IDT_set_gate (PIC1_BASE_INT + IRQ_ATA_PRIMARY) (IRQ_INT 14),
     IDT_set_gate (PIC1_BASE_INT + IRQ_ATA_SECONDARY) (IRQ_INT 15)]"

section \<open>Dispatch\<close>

definition ISR_register_interrupt_handler :: "u8 \<Rightarrow> handler \<Rightarrow> unit K" where
  "ISR_register_interrupt_handler n h =
     modify (\<lambda>m. m\<lparr>isr_handlers := (isr_handlers m)[unat n := Some h]\<rparr>)"

definition IRQ_register_interrupt_handler :: "u8 \<Rightarrow> handler \<Rightarrow> unit K" where
  "IRQ_register_interrupt_handler n h = ISR_register_interrupt_handler (PIC1_BASE_INT + n) h"

text \<open>
  \<^verbatim>\<open>char buf[10]; itoa(n, buf, 16); VGA_WriteString(1, y, buf, 15);\<close> with the conversion of
  the \<^verbatim>\<open>uint32_t\<close> to \<^verbatim>\<open>int\<close>.
\<close>

definition show_hex :: "u32 \<Rightarrow> int \<Rightarrow> unit K" where
  "show_hex n y = (case itoa (sint n) 16 of
       None \<Rightarrow> stop (Undefined ''ISR_UniversalHandler: itoa'')
     | Some bytes \<Rightarrow> if length bytes > 10 then stop (Undefined ''ISR_UniversalHandler: buffer overflow'')
         else VGA_WriteString 1 y bytes 15)"

definition ISR_UniversalHandler :: "(handler \<Rightarrow> ISR_registers_t \<Rightarrow> unit K) \<Rightarrow> ISR_registers_t \<Rightarrow> unit K" where
  "ISR_UniversalHandler call r =
     bind (undefined_if (unat (int_no r) \<ge> MAX_INTERRUPTS) ''isr_handlers: index'') (\<lambda>_.
     bind (gets (\<lambda>m. isr_handlers m ! unat (int_no r))) (\<lambda>slot.
     case slot of
       Some h \<Rightarrow> call h r
     | None \<Rightarrow> exec [VGA_clear, show_hex (int_no r) 2, show_hex (err_code r) 3]))"

definition IRQ_UniversalHandler :: "(handler \<Rightarrow> ISR_registers_t \<Rightarrow> unit K) \<Rightarrow> ISR_registers_t \<Rightarrow> unit K" where
  "IRQ_UniversalHandler call r0 =
     bind (PIC_EOI (ucast (int_no r0))) (\<lambda>_.
     let r = r0\<lparr>int_no := int_no r0 + ucast PIC1_BASE_INT\<rparr> in
     bind (undefined_if (unat (int_no r) \<ge> MAX_INTERRUPTS) ''isr_handlers: index'') (\<lambda>_.
     bind (gets (\<lambda>m. isr_handlers m ! unat (int_no r))) (\<lambda>slot.
     case slot of Some h \<Rightarrow> call h r | None \<Rightarrow> ret ())))"

text \<open>
  The stubs: \<^verbatim>\<open>cli\<close>, the C handler on the saved registers, \<^verbatim>\<open>sti\<close>, and \<^verbatim>\<open>iretd\<close>, which takes
  the interrupt flag from the flags that were saved at the entry.
\<close>

definition iretd :: "bool \<Rightarrow> unit K" where
  "iretd f = modify (iflag_update (\<lambda>_. f))"

definition ISR_stub :: "(handler \<Rightarrow> ISR_registers_t \<Rightarrow> unit K) \<Rightarrow> ISR_registers_t \<Rightarrow> unit K" where
  "ISR_stub call r = bind (gets iflag) (\<lambda>f. exec [cli, ISR_UniversalHandler call r, sti, iretd f])"

definition IRQ_stub :: "(handler \<Rightarrow> ISR_registers_t \<Rightarrow> unit K) \<Rightarrow> ISR_registers_t \<Rightarrow> unit K" where
  "IRQ_stub call r = bind (gets iflag) (\<lambda>f. exec [cli, IRQ_UniversalHandler call r, sti, iretd f])"

section \<open>Waiting for interrupts\<close>

text \<open>
  A loop that tests a condition until an interrupt handler makes it true.  Each round takes the
  next group of interrupts of the schedule; with interrupts disabled, or when the schedule is
  exhausted, the loop never ends.
\<close>

primrec wait_loop :: "(machine \<Rightarrow> bool) \<Rightarrow> unit K \<Rightarrow> (ISR_registers_t \<Rightarrow> unit K)
    \<Rightarrow> ISR_registers_t list list \<Rightarrow> unit K" where
  "wait_loop ready body irq [] m =
     (if ready m then Done () m else bind body (\<lambda>_. stop Hang) m)"
| "wait_loop ready body irq (rs # rest) m =
     (if ready m then Done () m
      else bind body (\<lambda>_ m1. if \<not> iflag m1 then Stop Hang m1
        else bind (for_each irq rs) (\<lambda>_. wait_loop ready body irq rest) (m1\<lparr>irq_sched := rest\<rparr>)) m)"

definition wait_until :: "(machine \<Rightarrow> bool) \<Rightarrow> unit K \<Rightarrow> (ISR_registers_t \<Rightarrow> unit K) \<Rightarrow> unit K" where
  "wait_until ready body irq m = wait_loop ready body irq (irq_sched m) m"


section \<open>Lemmas: the interrupt table\<close>

text \<open>A gate that the CPU accepts: present, ring 0, 32-bit interrupt gate, kernel code segment.\<close>

definition kernel_gate :: "u32 \<Rightarrow> IDT_descriptor_t" where
  "kernel_gate f = IDT_set_IDT_handler IDT_GATE_INT32 IDT_DPL_RING0 GDT_KERNEL_CODE_SEL f"

lemma kernel_gate_fields [simp]:
  "gate_offset (kernel_gate f) = f" "gate_present (kernel_gate f)" "gate_dpl (kernel_gate f) = 0"
  "gate_type (kernel_gate f) = 0xE" "selector (kernel_gate f) = 8"
  by (simp_all add: kernel_gate_def)
     (simp_all add: IDT_set_IDT_handler_def gate_present_def gate_dpl_def gate_type_def
       IDT_GATE_INT32_def IDT_DPL_RING0_def GDT_KERNEL_CODE_SEL_def sizeof_GDT_descriptor_t_def
       bit_simps)

lemma kernel_gate_fold [simp]: "IDT_set_IDT_handler IDT_GATE_INT32 IDT_DPL_RING0 8 f = kernel_gate f"
  by (simp add: kernel_gate_def GDT_KERNEL_CODE_SEL_def sizeof_GDT_descriptor_t_def)

lemma IDT_set_gate_eq: "IDT_set_gate n f = modify (\<lambda>m. m\<lparr>idtd := (idtd m)[unat n := kernel_gate (symaddr m f)]\<rparr>)"
  by (simp add: IDT_set_gate_def GDT_KERNEL_CODE_SEL_def sizeof_GDT_descriptor_t_def)

lemma IDT_fill:
  "for_each (\<lambda>i. modify (\<lambda>m. m\<lparr>idtd := (idtd m)[i := g m]\<rparr>)) xs m
     = Done () (m\<lparr>idtd := fold (\<lambda>i t. t[i := g m]) xs (idtd m)\<rparr>)"
  if "\<And>m t. g (m\<lparr>idtd := t\<rparr>) = g m"
  by (induction xs arbitrary: m) (simp_all add: run that)

lemma fold_update_all: "length t = n \<Longrightarrow> fold (\<lambda>i t. t[i := g]) [0..<n] t = replicate n g"
proof -
  have "k \<le> length t \<Longrightarrow> fold (\<lambda>i t. t[i := g]) [0..<k] t = replicate k g @ drop k t" for k
  proof (induction k)
    case 0
    then show ?case by simp
  next
    case (Suc k)
    then have "drop k t = t ! k # drop (Suc k) t" by (simp add: Cons_nth_drop_Suc)
    with Suc show ?case by (simp add: list_update_append replicate_app_Cons_same)
  qed
  then show "length t = n \<Longrightarrow> fold (\<lambda>i t. t[i := g]) [0..<n] t = replicate n g" by simp
qed

lemma init_descriptor_tables_done:
  assumes "length (idtd m) = 256"
  shows "\<exists>m1. init_descriptor_tables m = Done () m1
    \<and> idtd m1 = replicate 256 (kernel_gate (symaddr m Sym_IDT_default_handler))
    \<and> gdtd m1 = GDT_set_tss_base (symaddr m Sym_g_tss) (gdtd m)
    \<and> m1 = m\<lparr>gdtd := gdtd m1, idtd := idtd m1, iflag := False,
        trace := trace m @ [Cli, Lgdt \<lparr>dt_size = 47, dt_offset = symaddr m Sym_gdtd\<rparr>,
          Reload_segments 8 16, Lidt \<lparr>dt_size = 2047, dt_offset = symaddr m Sym_idtd\<rparr>]\<rparr>"
  using assms
  by (simp add: init_descriptor_tables_def GDT_init_def IDT_init_def GDT_load_def IDT_load_def
      GDT_reload_segments_def gdtr_def idtr_def run
      IDT_fill fold_update_all sizeof_GDT_descriptor_t_def MAX_GDT_DESCRIPTORS_def
      sizeof_IDT_descriptor_t_def MAX_INTERRUPTS_def GDT_KERNEL_CODE_SEL_def GDT_KERNEL_DATA_SEL_def)

text \<open>A sequence of gates installed one after the other.\<close>

primrec set_gates :: "(u8 \<times> symbol) list \<Rightarrow> unit K" where
  "set_gates [] = ret ()"
| "set_gates (g # gs) = bind (IDT_set_gate (fst g) (snd g)) (\<lambda>_. set_gates gs)"

lemma set_gates_done:
  "set_gates gs m = Done () (m\<lparr>idtd := fold (\<lambda>(n, f) t. t[unat n := kernel_gate (symaddr m f)]) gs (idtd m)\<rparr>)"
  by (induction gs arbitrary: m) (auto simp: IDT_set_gate_eq run split: prod.splits)

definition isr_gates :: "(u8 \<times> symbol) list" where
  "isr_gates = map (\<lambda>k. (of_nat k, ISR_INT k)) ([0..<15] @ [16..<22])"

definition irq_gates :: "(u8 \<times> symbol) list" where
  "irq_gates = map (\<lambda>k. (of_nat (32 + k), IRQ_INT k)) [0..<16]"

lemma upt_lists:
  "[0..<15] = [0, 1, 2, 3, 4, 5, 6, 7, 8, 9, 10, 11, 12, 13, 14 :: nat]"
  "[16..<22] = [16, 17, 18, 19, 20, 21 :: nat]"
  "[0..<16] = [0, 1, 2, 3, 4, 5, 6, 7, 8, 9, 10, 11, 12, 13, 14, 15 :: nat]"
  by (simp_all add: upt_rec)

lemma ISR_init_gates: "ISR_init = set_gates isr_gates"
  by (simp add: ISR_init_def isr_gates_def upt_lists INT_Divide_Error_def INT_Debug_Exception_def
      INT_NMI_Interrupt_def INT_Breakpoint_def INT_Overflow_def INT_Bbounds_Range_Exceeded_def
      INT_Invalid_Opcode_def INT_Device_Not_Available_def INT_Double_Fault_def
      INT_Coprocessor_Segment_Overrun_def INT_Invalid_TSS_def INT_Segment_Not_Present_def
      INT_Stack_Segment_Fault_def INT_General_Protection_def INT_Page_Fault_def INT_FPU_Error_def
      INT_Alignment_Check_def INT_Machine_Check_def INT_SIMD_Floating_Point_Exception_def
      INT_Virtualization_Exception_def INT_Control_Protection_Exception_def)

lemma IRQ_init_gates: "IRQ_init = set_gates irq_gates"
  by (simp add: IRQ_init_def irq_gates_def upt_lists PIC1_BASE_INT_def IRQ_TIMER_def IRQ_KEYBOARD_def
      IRQ_CASCADE_def IRQ_SERIAL2_def IRQ_SERIAL1_def IRQ_PARALLEL2_def IRQ_DISKETTE_def
      IRQ_PARALLEL1_def IRQ_CMOSTIMER_def IRQ_CGARETRACE_def IRQ_OPEN1_def IRQ_OPEN2_def
      IRQ_AUX_def IRQ_FPU_def IRQ_ATA_PRIMARY_def IRQ_ATA_SECONDARY_def)


lemma nth_fold_gates:
  "c \<le> 256 \<Longrightarrow> i < length t \<Longrightarrow>
     fold (\<lambda>(n, f) t. t[unat n := kernel_gate (g f)]) (map (\<lambda>k. (of_nat k :: u8, F k)) [a..<c]) t ! i
       = (if a \<le> i \<and> i < c then kernel_gate (g (F i)) else t ! i)"
proof (induction c)
  case 0
  then show ?case by simp
next
  case (Suc c)
  have len: "length (fold (\<lambda>(n, f) t. t[unat n := kernel_gate (g f)]) xs t) = length t"
    for xs :: "(u8 \<times> 'a) list" and t
    by (induction xs arbitrary: t) (auto split: prod.splits)
  have "unat (of_nat c :: u8) = c" using Suc.prems by (intro unat_of_nat_small) simp
  then show ?case
    using Suc len by (cases "a \<le> c") (auto simp: nth_list_update less_Suc_eq)
qed

lemma irq_gates_eq: "irq_gates = map (\<lambda>k. (of_nat k, IRQ_INT (k - 32))) [32..<48]"
proof -
  have "[32..<48] = map (\<lambda>k. k + 32) [0..<16]" by (simp only: map_add_upt) simp
  then show ?thesis
    by (simp add: irq_gates_def comp_def add.commute del: upt_rec_numeral)
qed

text \<open>The entry point that vector \<open>n\<close> leads to.\<close>

definition vector_symbol :: "nat \<Rightarrow> symbol" where
  "vector_symbol n = (if n < 22 \<and> n \<noteq> 15 then ISR_INT n
     else if 32 \<le> n \<and> n < 48 then IRQ_INT (n - 32) else Sym_IDT_default_handler)"

lemma all_gates:
  assumes "t = replicate 256 (kernel_gate (g Sym_IDT_default_handler))"
  shows "fold (\<lambda>(n, f) t. t[unat n := kernel_gate (g f)]) (isr_gates @ irq_gates) t
    = map (\<lambda>n. kernel_gate (g (vector_symbol n))) [0..<256]"
proof (rule nth_equalityI)
  have len: "length (fold (\<lambda>(n, f) t. t[unat n := kernel_gate (g f)]) xs t) = length t"
    for xs :: "(u8 \<times> symbol) list" and t
    by (induction xs arbitrary: t) (auto split: prod.splits)
  then show "length (fold (\<lambda>(n, f) t. t[unat n := kernel_gate (g f)]) (isr_gates @ irq_gates) t)
    = length (map (\<lambda>n. kernel_gate (g (vector_symbol n))) [0..<256])"
    using assms by simp
  fix i
  assume "i < length (fold (\<lambda>(n, f) t. t[unat n := kernel_gate (g f)]) (isr_gates @ irq_gates) t)"
  then have i: "i < 256" using assms by (simp add: len)
  then show "fold (\<lambda>(n, f) t. t[unat n := kernel_gate (g f)]) (isr_gates @ irq_gates) t ! i
      = map (\<lambda>n. kernel_gate (g (vector_symbol n))) [0..<256] ! i"
    using assms
    by (simp add: isr_gates_def irq_gates_eq nth_fold_gates len vector_symbol_def del: upt_rec_numeral)
qed


section \<open>Lemmas: dispatch and waiting\<close>

lemma IRQ_UniversalHandler_eq:
  assumes "unat n < 16"
  shows "IRQ_UniversalHandler call (r\<lparr>int_no := ucast (n :: u8)\<rparr>) m
    = (case isr_handlers m ! (32 + unat n) of
         Some h \<Rightarrow> call h (r\<lparr>int_no := 0x20 + ucast n\<rparr>)
       | None \<Rightarrow> ret ())
      (m\<lparr>trace := trace m @ (if unat n > 7 then [Out8 0xA0 0x20] else []) @ [Out8 0x20 0x20]\<rparr>)"
proof -
  have 1: "unat (0x20 + ucast n :: u32) = 32 + unat n"
    using assms by (simp add: unat_word_ariths unsigned_ucast_eq take_bit_nat_eq_self)
  have 2: "ucast (ucast n :: u32) = n"
    by (rule bit_word_eqI) (auto simp: bit_simps)
  have 3: "7 < n \<longleftrightarrow> 7 < unat n" by (simp add: word_less_nat_alt)
  have 4: "ucast PIC1_BASE_INT = (0x20 :: u32)" by (simp add: PIC1_BASE_INT_def)
  have 5: "ucast n + 0x20 = (0x20 + ucast n :: u32)" by (rule add.commute)
  have eoi: "PIC_EOI n m = Done () (m\<lparr>trace := trace m
      @ (if unat n > 7 then [Out8 0xA0 0x20] else []) @ [Out8 0x20 0x20]\<rparr>)"
    by (simp add: PIC_EOI_def PIC2_REG_STATUS_def PIC1_REG_STATUS_def PIC_OCW2_MASK_EOI_def run 3)
  from assms have "\<not> unat (0x20 + ucast n :: u32) \<ge> MAX_INTERRUPTS"
    by (simp add: 1 MAX_INTERRUPTS_def)
  then show ?thesis
    by (simp only: IRQ_UniversalHandler_def ISR_registers_t.simps ISR_registers_t.update_convs Let_def 2 4)
       (simp add: bind_def eoi undefined_if_def ret_def gets_def 1 2 5)
qed

text \<open>A request is only taken while interrupts are on, and they are on again when it returns.\<close>

lemma IRQ_stub_on:
  assumes "iflag m"
  shows "IRQ_stub call r m = exec [cli, IRQ_UniversalHandler call r, sti] m"
proof -
  have "exec [sti, iretd True] = exec [sti]"
    by (rule ext) (simp add: iretd_def sti_def log_def modify_def ret_def bind_def)
  then show ?thesis
    using assms by (simp add: IRQ_stub_def bind_def [of "gets iflag"] gets_def)
qed

lemma wait_loop_ready:
  "wait_loop ready body irq rss m = Done x m1 \<Longrightarrow> ready m1"
  by (induction rss arbitrary: m) (auto simp: bind_def stop_def split: if_splits outcome.splits)

text \<open>An invariant that every interrupt and the loop body keep is kept by the wait.\<close>

lemma wait_loop_preserves:
  assumes "\<And>r. preserves I (irq r)" "preserves I body" "\<And>m s. I m \<Longrightarrow> I (m\<lparr>irq_sched := s\<rparr>)"
  shows "preserves I (wait_loop ready body irq rss)"
proof (induction rss)
  case Nil
  have "preserves I (bind body (\<lambda>_. stop Hang))" using assms(2) by (auto intro!: frame)
  then show ?case unfolding preserves_def triple_def by auto
next
  case (Cons rs rss)
  have "preserves I (bind (for_each irq rs) (\<lambda>_. wait_loop ready body irq rss))"
    using assms(1) Cons by (auto intro!: frame)
  then have "preserves I (bind body (\<lambda>_ m1. if \<not> iflag m1 then Stop Hang m1
        else bind (for_each irq rs) (\<lambda>_. wait_loop ready body irq rss) (m1\<lparr>irq_sched := rss\<rparr>)))"
    using assms(3) by (intro preserves_bind assms(2)) (simp add: preserves_def triple_def)
  then show ?case unfolding preserves_def triple_def by auto
qed

section \<open>What an interrupt keeps\<close>

text \<open>
  The interface between the stubs and the handlers.  A handler that returns keeps a consistency
  condition of the static variables and changes only what the frame allows, and so does the
  display of an exception that has no handler; neither depends on the trace or the interrupt
  flag, which the stubs change.
\<close>

locale interrupt_service =
  fixes call :: "handler \<Rightarrow> ISR_registers_t \<Rightarrow> unit K"
    and ok :: "machine \<Rightarrow> bool" and changes :: "machine \<Rightarrow> machine \<Rightarrow> bool"
  assumes handler: "ok m \<Longrightarrow> call h r m = Done () m1 \<Longrightarrow> changes m m1 \<and> ok m1"
    and unhandled: "ok m \<Longrightarrow> exec [VGA_clear, show_hex n 2, show_hex e 3] m = Done () m1 \<Longrightarrow> changes m m1 \<and> ok m1"
    and changes_refl: "changes m m"
    and ok_cpu: "ok (m\<lparr>trace := t, iflag := b\<rparr>) = ok m"
    and changes_from: "changes (m\<lparr>trace := t, iflag := b\<rparr>) m1 = changes m m1"
    and changes_to: "changes m (m1\<lparr>trace := t, iflag := b\<rparr>) = changes m m1"
begin

lemma keeps_trace: "ok (m\<lparr>trace := t\<rparr>) = ok m" "changes (m\<lparr>trace := t\<rparr>) m1 = changes m m1"
  using ok_cpu [where m = m and t = t and b = "iflag m"] changes_from [where m = m and t = t and b = "iflag m"]
  by simp_all

lemma stub:
  assumes "ok m" "bind (gets iflag) (\<lambda>f. exec [cli, k, sti, iretd f]) m = Done () m1"
    and k: "\<And>m m1. ok m \<Longrightarrow> k m = Done () m1 \<Longrightarrow> changes m m1 \<and> ok m1"
  shows "changes m m1 \<and> ok m1 \<and> iflag m1 = iflag m"
proof -
  let ?m = "m\<lparr>trace := trace m @ [Cli], iflag := False\<rparr>"
  have "cli m = Done () ?m" by (simp add: cli_def log_def modify_def ret_def bind_def)
  with assms(2) obtain m2 m3 where m2: "k ?m = Done () m2" "sti m2 = Done () m3" "iretd (iflag m) m3 = Done () m1"
    by (auto simp: bind_def gets_def ret_def split: outcome.splits)
  then have "m1 = m2\<lparr>trace := trace m2 @ [Sti], iflag := iflag m\<rparr>"
    by (auto simp: sti_def iretd_def log_def modify_def ret_def bind_def)
  moreover have "changes ?m m2 \<and> ok m2" using assms(1) by (intro k [OF _ m2(1)]) (simp add: ok_cpu)
  ultimately show ?thesis by (simp add: changes_from changes_to ok_cpu)
qed

lemma exception: "ok m \<Longrightarrow> ISR_stub call r m = Done () m1 \<Longrightarrow> changes m m1 \<and> ok m1 \<and> iflag m1 = iflag m"
  unfolding ISR_stub_def
proof (erule (1) stub)
  fix m m1
  assume "ok m" "ISR_UniversalHandler call r m = Done () m1"
  then show "changes m m1 \<and> ok m1"
    using handler [of m _ r m1] unhandled [of m "int_no r" "err_code r" m1]
    by (cases "isr_handlers m ! unat (int_no r)")
       (simp_all add: ISR_UniversalHandler_def bind_def [of "undefined_if _ _"] bind_def [of "gets _"] undefined_if_def
          gets_def ret_def stop_def split: if_splits)
qed

lemma request:
  assumes "ok m" "unat n < 16" "IRQ_stub call (r\<lparr>int_no := ucast (n :: u8)\<rparr>) m = Done () m1"
  shows "changes m m1 \<and> ok m1 \<and> iflag m1 = iflag m"
  using assms(1) assms(3) [unfolded IRQ_stub_def]
proof (rule stub)
  fix m m1
  assume m: "ok m" "IRQ_UniversalHandler call (r\<lparr>int_no := ucast n\<rparr>) m = Done () m1"
  let ?m = "m\<lparr>trace := trace m @ (if unat n > 7 then [Out8 0xA0 0x20] else []) @ [Out8 0x20 0x20]\<rparr>"
  have "ok ?m" "changes ?m m1 = changes m m1" for m1
    using m(1) by (simp_all add: keeps_trace)
  then show "changes m m1 \<and> ok m1"
    using m(2) handler [of ?m _ "r\<lparr>int_no := 0x20 + ucast n\<rparr>" m1] changes_refl [of ?m]
    by (cases "isr_handlers m ! (32 + unat n)") (auto simp: IRQ_UniversalHandler_eq [OF assms(2)] ret_def)
qed

end

section \<open>Properties\<close>

text \<open>
  After the boot sequence has set up its tables, the CPU is given a table whose 256 entries
  are all gates it accepts (present, ring 0, 32-bit interrupt gate, kernel code selector), each
  leading to its own entry point: the exception stubs 0 to 21 but 15, the interrupt request
  stubs for the vectors 32 to 47, and the default handler elsewhere.  Interrupts are off.
\<close>

theorem interrupt_table_correct:
  "\<exists>m1. exec [init_descriptor_tables, ISR_init, IRQ_init] (m\<lparr>idtd := replicate 256 idt_descriptor_zero\<rparr>)
       = Done () m1
     \<and> map gate_offset (idtd m1) = map (\<lambda>n. symaddr m (if n < 22 \<and> n \<noteq> 15 then ISR_INT n
         else if 32 \<le> n \<and> n < 48 then IRQ_INT (n - 32) else Sym_IDT_default_handler)) [0..<256]
     \<and> list_all (\<lambda>g. gate_present g \<and> gate_dpl g = 0 \<and> gate_type g = 0xE \<and> selector g = 8) (idtd m1)
     \<and> last (trace m1) = Lidt \<lparr>dt_size = 2047, dt_offset = symaddr m Sym_idtd\<rparr> \<and> \<not> iflag m1"
proof -
  let ?m = "m\<lparr>idtd := replicate 256 idt_descriptor_zero\<rparr>"
  obtain m1 where m1: "init_descriptor_tables ?m = Done () m1"
    "idtd m1 = replicate 256 (kernel_gate (symaddr m Sym_IDT_default_handler))"
    "last (trace m1) = Lidt \<lparr>dt_size = 2047, dt_offset = symaddr m Sym_idtd\<rparr>" "\<not> iflag m1"
    "symaddr m1 = symaddr m"
    using init_descriptor_tables_done [of ?m] by (auto simp del: upt_rec_numeral)
  have "exec [init_descriptor_tables, ISR_init, IRQ_init] ?m = Done ()
      (m1\<lparr>idtd := map (\<lambda>n. kernel_gate (symaddr m (vector_symbol n))) [0..<256]\<rparr>)"
    using all_gates [where g = "symaddr m", OF m1(2)]
    by (simp add: bind_def m1(1,5) ISR_init_gates IRQ_init_gates set_gates_done ret_def
        del: upt_rec_numeral)
  then show ?thesis
    using m1 by (simp add: comp_def vector_symbol_def list_all_iff del: upt_rec_numeral)
qed

text \<open>
  An interrupt request on a line whose handler was registered ends the interrupt at the
  right controllers first and then runs that handler, with the line's vector as its number; a
  line without a handler is only acknowledged.
\<close>

theorem IRQ_dispatch_correct:
  assumes "unat n < 16" "length (isr_handlers m) = 256"
  shows "bind (IRQ_register_interrupt_handler n h)
      (\<lambda>_. IRQ_UniversalHandler call (r\<lparr>int_no := ucast n\<rparr>)) m
    = call h (r\<lparr>int_no := 0x20 + ucast n\<rparr>)
        (m\<lparr>isr_handlers := (isr_handlers m)[32 + unat n := Some h],
           trace := trace m @ (if unat n > 7 then [Out8 0xA0 0x20] else []) @ [Out8 0x20 0x20]\<rparr>)
   \<and> (isr_handlers m ! (32 + unat n) = None \<longrightarrow>
        IRQ_UniversalHandler call (r\<lparr>int_no := ucast n\<rparr>) m
      = Done () (m\<lparr>trace := trace m @ (if unat n > 7 then [Out8 0xA0 0x20] else []) @ [Out8 0x20 0x20]\<rparr>))"
proof -
  have "unat (PIC1_BASE_INT + n) = 32 + unat n"
    using assms(1) by (simp add: PIC1_BASE_INT_def unat_word_ariths)
  then show ?thesis
    using assms
    by (simp add: IRQ_register_interrupt_handler_def ISR_register_interrupt_handler_def
        IRQ_UniversalHandler_eq ret_def)
qed

theorem IRQ_dispatch_correct_witness:
  "\<forall>m r. IRQ_UniversalHandler (\<lambda>h r. log Hlt) (r\<lparr>int_no := ucast (12 :: u8)\<rparr>)
     (m\<lparr>isr_handlers := replicate 256 None\<rparr>)
   = Done () (m\<lparr>isr_handlers := replicate 256 None, trace := trace m @ [Out8 0xA0 0x20, Out8 0x20 0x20]\<rparr>)"
proof (intro allI)
  fix m :: machine and r :: ISR_registers_t
  show "IRQ_UniversalHandler (\<lambda>h r. log Hlt) (r\<lparr>int_no := ucast (12 :: u8)\<rparr>)
     (m\<lparr>isr_handlers := replicate 256 None\<rparr>)
   = Done () (m\<lparr>isr_handlers := replicate 256 None, trace := trace m @ [Out8 0xA0 0x20, Out8 0x20 0x20]\<rparr>)"
    using IRQ_dispatch_correct [of 12 "m\<lparr>isr_handlers := replicate 256 None\<rparr>" Timer_callback "\<lambda>h r. log Hlt" r]
    by simp
qed

end
