(* ===== verification/Vmm.thy ===== *)
theory Vmm
  imports Pmm Interrupts
begin

text \<open>
  \<^verbatim>\<open>arch/x86/mmu/VMM.{h,c}\<close> and \<^verbatim>\<open>VMM.S\<close>: the kernel's page directory and its one
  page table, the switch to them and the page-fault handler.  What the tables mean is given by
  the page walk of the CPU; the two pages come from the physical memory manager through its
  allocator contract.
\<close>

section \<open>Definitions\<close>

definition PAGE_DIR_ENTRIES :: nat where "PAGE_DIR_ENTRIES = 1024"
definition PAGE_TABLE_ENTRIES :: nat where "PAGE_TABLE_ENTRIES = 1024"
definition sizeof_page_directory_t :: u32 where "sizeof_page_directory_t = of_nat (PAGE_DIR_ENTRIES * 4)"
definition sizeof_page_table_t :: u32 where "sizeof_page_table_t = of_nat (PAGE_TABLE_ENTRIES * 4)"

definition PTE_FRAME :: "u32 \<Rightarrow> u32" where "PTE_FRAME x = push_bit 12 x"
definition PTE_PRESENT :: u32 where "PTE_PRESENT = 1"
definition PTE_WRITABLE :: u32 where "PTE_WRITABLE = 2"
definition PDE_PRESENT :: u32 where "PDE_PRESENT = 1"
definition PDE_WRITABLE :: u32 where "PDE_WRITABLE = 2"

definition CR0_PG_MASK :: u32 where "CR0_PG_MASK = 0x80000000"

definition page_fault_handler :: "ISR_registers_t \<Rightarrow> unit K" where
  "page_fault_handler regs =
     bind (gets cr2) (\<lambda>faulting_addr.
     let present = err_code regs AND 0x1;
         rw = (if err_code regs AND push_bit 1 1 \<noteq> 0 then 1 else 0);
         user = (if err_code regs AND push_bit 2 1 \<noteq> 0 then 1 else 0);
         id = (if err_code regs AND push_bit 4 1 \<noteq> 0 then 1 else 0)
     in exec [
       bind (CON_printf (cstr ''PAGE FAULT addr: %X -- err_code=%X'' @ [10, 0])
         [VInt faulting_addr, VInt (err_code regs)]) (\<lambda>_. ret ()),
       bind (CON_printf (cstr ''- present=%d, rw=%d, user=%d, id=%d'' @ [10, 0])
         [VInt present, VInt rw, VInt user, VInt id]) (\<lambda>_. ret ())])"

definition set_cr0 :: "u32 \<Rightarrow> unit K" where
  "set_cr0 v = exec [log (Set_CR0 v), modify (\<lambda>m. m\<lparr>cr0 := v\<rparr>)]"

definition VMM_enable_paging :: "unit K" where
  "VMM_enable_paging = bind (gets cr0) (\<lambda>eax. set_cr0 (eax OR CR0_PG_MASK))"

definition VMM_disable_paging :: "unit K" where
  "VMM_disable_paging = bind (gets cr0) (\<lambda>eax. set_cr0 (eax OR NOT CR0_PG_MASK))"

definition VMM_switch_page_directory :: "u32 \<Rightarrow> bool K" where
  "VMM_switch_page_directory page_directory =
     (if page_directory = 0 then ret False
      else bind (modify (\<lambda>m. m\<lparr>vmm := (vmm m)\<lparr>current_directory := page_directory\<rparr>\<rparr>)) (\<lambda>_.
        bind (exec [log (Set_CR3 page_directory), modify (\<lambda>m. m\<lparr>cr3 := page_directory\<rparr>)]) (\<lambda>_.
        ret True)))"

text \<open>\<^verbatim>\<open>page_table->entries[i] = PTE_FRAME(i) | PTE_PRESENT | PTE_WRITABLE\<close>\<close>

definition set_pte :: "u32 \<Rightarrow> nat \<Rightarrow> unit K" where
  "set_pte page_table i = modify (\<lambda>m. m\<lparr>ram :=
     store32 (page_table + 4 * of_nat i) (PTE_FRAME (of_nat i) OR PTE_PRESENT OR PTE_WRITABLE) (ram m)\<rparr>)"

definition VMM_init :: "bool K" where
  "VMM_init =
     bind (PMM_malloc sizeof_page_directory_t) (\<lambda>directory.
     bind (modify (\<lambda>m. m\<lparr>vmm := (vmm m)\<lparr>kernel_directory := directory\<rparr>\<rparr>)) (\<lambda>_.
     bind (PMM_malloc sizeof_page_table_t) (\<lambda>page_table.
     if page_table = 0 \<or> directory = 0 then ret False
     else bind (exec [
       modify (\<lambda>m. m\<lparr>ram := memset directory 0 (unat sizeof_page_directory_t) (ram m)\<rparr>),
       modify (\<lambda>m. m\<lparr>ram := memset page_table 0 (unat sizeof_page_table_t) (ram m)\<rparr>),
       for_each (set_pte page_table) [0..<1024 * 1024 div unat PMM_FRAME_SIZE],
       for_each (set_pte page_table) [1024 * 1024 div unat PMM_FRAME_SIZE..<PAGE_TABLE_ENTRIES],
       modify (\<lambda>m. m\<lparr>ram := store32 directory (page_table OR PDE_PRESENT OR PDE_WRITABLE) (ram m)\<rparr>),
       ISR_register_interrupt_handler INT_Page_Fault Page_fault_handler]) (\<lambda>_.
     bind (VMM_switch_page_directory directory) (\<lambda>switched.
     if \<not> switched then ret False
     else bind VMM_enable_paging (\<lambda>_. ret True))))))"

section \<open>Address translation\<close>

text \<open>The 32-bit two-level page walk of the CPU, with 4 KiB pages.\<close>

definition page_walk :: "memory \<Rightarrow> u32 \<Rightarrow> u32 \<Rightarrow> u32 option" where
  "page_walk r dir va =
     (let pde = load32 r ((dir AND NOT 0xFFF) + 4 * drop_bit 22 va) in
      if \<not> bit pde 0 then None
      else let pte = load32 r ((pde AND NOT 0xFFF) + 4 * (drop_bit 12 va AND 0x3FF)) in
        if \<not> bit pte 0 then None else Some ((pte AND NOT 0xFFF) OR (va AND 0xFFF)))"

text \<open>With paging off an address is its own translation.\<close>

definition translate :: "machine \<Rightarrow> u32 \<Rightarrow> u32 option" where
  "translate m va = (if bit (cr0 m) 31 then page_walk (ram m) (cr3 m) va else Some va)"


section \<open>Lemmas: pages and tables in memory\<close>

lemma page_addr_inj:
  assumes "unat f < 2 ^ 20" "unat g < 2 ^ 20" "x < 4096" "y < 4096"
    and eq: "f * 4096 + of_nat x = (g * 4096 + of_nat y :: u32)"
  shows "f = g \<and> x = y"
proof -
  have u: "unat (h * 4096 + of_nat z :: u32) = unat h * 4096 + z" if "unat h < 2 ^ 20" "z < 4096" for h z
    using that by (simp add: unat_word_ariths unat_of_nat_small)
  have "unat f * 4096 + x = unat g * 4096 + y"
    using arg_cong [OF eq, of unat] u [OF assms(1,3)] u [OF assms(2,4)] by simp
  then have "(unat f * 4096 + x) div 4096 = (unat g * 4096 + y) div 4096"
    "(unat f * 4096 + x) mod 4096 = (unat g * 4096 + y) mod 4096" by simp_all
  with assms(3,4) show ?thesis by (simp add: word_unat_eq_iff)
qed

lemma entry_addr: "p + 4 * of_nat i + of_nat k = (p + of_nat (4 * i + k) :: u32)"
  by simp

lemma store32_other_page:
  assumes "unat f < 2 ^ 20" "unat g < 2 ^ 20" "i < 1024" "y < 4096" "f \<noteq> g"
  shows "store32 (f * 4096 + 4 * of_nat i) w r (g * 4096 + of_nat y) = r (g * 4096 + of_nat y)"
proof -
  have "\<not> in_region (f * 4096 + 4 * of_nat i) 4 (g * 4096 + of_nat y)"
  proof
    assume "in_region (f * 4096 + 4 * of_nat i) 4 (g * 4096 + of_nat y)"
    then obtain k where k: "k < 4" "g * 4096 + of_nat y = f * 4096 + 4 * of_nat i + (of_nat k :: u32)"
      by (blast dest: in_region_ex)
    then have "g * 4096 + of_nat y = f * 4096 + (of_nat (4 * i + k) :: u32)"
      by (simp only: entry_addr)
    moreover have "4 * i + k < 4096" using k(1) assms(3) by linarith
    ultimately show False using page_addr_inj [of g f y "4 * i + k"] assms by blast
  qed
  then show ?thesis by (simp add: store32_apply)
qed

lemma load32_store32_entry:
  assumes "i < 1024" "j < 1024" "i \<noteq> j"
  shows "load32 (store32 (p + 4 * of_nat i) w r) (p + 4 * of_nat j) = load32 r (p + 4 * of_nat j)"
proof (rule load32_cong)
  fix k :: nat
  assume k: "k < 4"
  have "\<not> in_region (p + 4 * of_nat i) 4 (p + 4 * of_nat j + of_nat k)"
  proof
    assume "in_region (p + 4 * of_nat i) 4 (p + 4 * of_nat j + of_nat k)"
    then obtain l where l: "l < 4" "p + 4 * of_nat j + of_nat k = p + 4 * of_nat i + (of_nat l :: u32)"
      by (blast dest: in_region_ex)
    then have "p + of_nat (4 * j + k) = (p + of_nat (4 * i + l) :: u32)"
      by (simp only: entry_addr)
    then have "(of_nat (4 * j + k) :: u32) = of_nat (4 * i + l)" by (simp only: add_left_cancel)
    then have "4 * j + k = 4 * i + l"
      using assms k l(1) by (subst (asm) of_nat_inj_small) simp_all
    with k l(1) assms(3) show False by presburger
  qed
  then show "store32 (p + 4 * of_nat i) w r (p + 4 * of_nat j + of_nat k) = r (p + 4 * of_nat j + of_nat k)"
    by (simp add: store32_apply)
qed

text \<open>A loop that fills the entries of a table.\<close>

definition fill_table :: "u32 \<Rightarrow> (nat \<Rightarrow> u32) \<Rightarrow> nat list \<Rightarrow> memory \<Rightarrow> memory" where
  "fill_table p e is r = fold (\<lambda>i. store32 (p + 4 * of_nat i) (e i)) is r"

lemma fill_table_entry:
  assumes "n \<le> 1024" "j < 1024"
  shows "load32 (fill_table p e [0..<n] r) (p + 4 * of_nat j)
    = (if j < n then e j else load32 r (p + 4 * of_nat j))"
  using assms(1)
proof (induction n)
  case 0
  then show ?case by (simp add: fill_table_def)
next
  case (Suc n)
  then show ?case
    using assms(2) load32_store32_entry [of n j]
    by (cases "j = n") (simp_all add: fill_table_def)
qed

lemma fill_table_other_page:
  assumes "unat f < 2 ^ 20" "unat g < 2 ^ 20" "f \<noteq> g" "y < 4096" "set is \<subseteq> {..<1024}"
  shows "fill_table (f * 4096) e is r (g * 4096 + of_nat y) = r (g * 4096 + of_nat y)"
  using assms(5)
proof (induction "is" arbitrary: r)
  case Nil
  then show ?case by (simp add: fill_table_def)
next
  case (Cons i "is")
  then show ?case
    using store32_other_page [OF assms(1,2) _ assms(4,3), of i] by (simp add: fill_table_def)
qed

lemma memset_other_page:
  assumes "unat f < 2 ^ 20" "unat g < 2 ^ 20" "f \<noteq> g" "y < 4096"
  shows "memset (f * 4096) v 4096 r (g * 4096 + of_nat y) = r (g * 4096 + of_nat y)"
proof -
  have "\<not> in_region (f * 4096) 4096 (g * 4096 + of_nat y)"
    using page_addr_inj [OF assms(2,1,4)] assms(3) by (blast dest: in_region_ex)
  then show ?thesis by (simp add: memset_apply)
qed

lemma set_pte_loop:
  "for_each (set_pte p) is m
     = Done () (m\<lparr>ram := fill_table p (\<lambda>i. PTE_FRAME (of_nat i) OR PTE_PRESENT OR PTE_WRITABLE) is (ram m)\<rparr>)"
  by (induction "is" arbitrary: m) (simp_all add: fill_table_def set_pte_def ret_def)


section \<open>Lemmas: the tables of the kernel\<close>

definition identity_pte :: "nat \<Rightarrow> u32" where
  "identity_pte i = PTE_FRAME (of_nat i) OR PTE_PRESENT OR PTE_WRITABLE"

definition kernel_tables :: "u32 \<Rightarrow> u32 \<Rightarrow> memory \<Rightarrow> memory" where
  "kernel_tables d t r = store32 d (t OR PDE_PRESENT OR PDE_WRITABLE)
     (fill_table t identity_pte [0..<1024] (memset t 0 4096 (memset d 0 4096 r)))"

lemma kernel_tables_directory:
  assumes "unat f < 2 ^ 20" "unat g < 2 ^ 20" "f \<noteq> g" "i < 1024"
  shows "load32 (kernel_tables (f * 4096) (g * 4096) r) (f * 4096 + 4 * of_nat i)
    = (if i = 0 then g * 4096 OR 3 else 0)"
proof (cases "i = 0")
  case True
  then show ?thesis by (simp add: kernel_tables_def PDE_PRESENT_def PDE_WRITABLE_def or.assoc)
next
  case False
  let ?d = "f * 4096" and ?t = "g * 4096"
  let ?r = "fill_table ?t identity_pte [0..<1024] (memset ?t 0 4096 (memset ?d 0 4096 r))"
  have "load32 (kernel_tables ?d ?t r) (?d + 4 * of_nat i) = load32 ?r (?d + 4 * of_nat i)"
    using load32_store32_entry [of 0 i ?d _ ?r] assms(4) False
    by (simp add: kernel_tables_def del: upt_rec_numeral)
  also have "\<dots> = load32 (memset ?d 0 4096 r) (?d + 4 * of_nat i)"
  proof (rule load32_cong)
    fix k :: nat
    assume "k < 4"
    then have lt: "4 * i + k < 4096" using assms(4) by linarith
    show "?r (?d + 4 * of_nat i + of_nat k) = memset ?d 0 4096 r (?d + 4 * of_nat i + of_nat k)"
      unfolding entry_addr
      using fill_table_other_page [OF assms(2,1) assms(3) [symmetric] lt, of "[0..<1024]"]
        memset_other_page [OF assms(2,1) assms(3) [symmetric] lt]
      by (simp add: atLeast0LessThan del: upt_rec_numeral of_nat_add of_nat_mult)
  qed
  also have "\<dots> = 0"
  proof (rule load32_memset_zero)
    fix k :: nat
    assume "k < 4"
    then have lt: "4 * i + k < 4096" using assms(4) by linarith
    then show "in_region ?d 4096 (?d + 4 * of_nat i + of_nat k)"
      unfolding entry_addr by (simp add: in_region_offset del: of_nat_add of_nat_mult)
  qed simp
  finally show ?thesis using False by simp
qed

lemma kernel_tables_table:
  assumes "unat f < 2 ^ 20" "unat g < 2 ^ 20" "f \<noteq> g" "i < 1024"
  shows "load32 (kernel_tables (f * 4096) (g * 4096) r) (g * 4096 + 4 * of_nat i) = identity_pte i"
proof -
  let ?d = "f * 4096" and ?t = "g * 4096"
  let ?r = "fill_table ?t identity_pte [0..<1024] (memset ?t 0 4096 (memset ?d 0 4096 r))"
  have "load32 (kernel_tables ?d ?t r) (?t + 4 * of_nat i) = load32 ?r (?t + 4 * of_nat i)"
  proof (rule load32_cong)
    fix k :: nat
    assume "k < 4"
    then have lt: "4 * i + k < 4096" using assms(4) by linarith
    show "kernel_tables ?d ?t r (?t + 4 * of_nat i + of_nat k) = ?r (?t + 4 * of_nat i + of_nat k)"
      unfolding entry_addr using store32_other_page [OF assms(1,2) _ lt assms(3), of 0]
      by (simp add: kernel_tables_def del: upt_rec_numeral of_nat_add of_nat_mult)
  qed
  then show ?thesis by (simp add: fill_table_entry assms(4) del: upt_rec_numeral)
qed

lemma page_base: "f * 4096 AND NOT 0xFFF = (f * 4096 :: u32)" "(f * 4096 OR 3) AND NOT 0xFFF = (f * 4096 :: u32)"
  "bit (f * 4096 OR 3 :: u32) 0"
proof -
  have eq: "f * 4096 = (push_bit 12 f :: u32)" by (simp add: push_bit_eq_mult)
  have m: "bit (0xFFF :: u32) n \<longleftrightarrow> n < 12" for n
    by (auto simp: bit_low_masks)
  have m3: "bit (3 :: u32) n \<longleftrightarrow> n < 2" for n
  proof -
    have "(3 :: u32) = mask 2" by (simp add: mask_eq_exp_minus_1)
    then show ?thesis by (simp only: bit_mask_iff) auto
  qed
  show "f * 4096 AND NOT 0xFFF = (f * 4096 :: u32)" "(f * 4096 OR 3) AND NOT 0xFFF = (f * 4096 :: u32)"
    unfolding eq by (rule bit_word_eqI; simp only: bit_and_iff bit_or_iff bit_not_iff bit_push_bit_iff m m3; auto)+
  show "bit (f * 4096 OR 3 :: u32) 0" by (simp add: bit_or_iff)
qed

lemma identity_pte_bits:
  "bit (identity_pte i) 0" "(identity_pte i AND NOT 0xFFF) = push_bit 12 (of_nat i)"
proof -
  have eq: "identity_pte i = of_nat i * 4096 OR 3"
    by (simp add: identity_pte_def PTE_FRAME_def PTE_PRESENT_def PTE_WRITABLE_def push_bit_eq_mult or.assoc)
  show "bit (identity_pte i) 0" "(identity_pte i AND NOT 0xFFF) = push_bit 12 (of_nat i)"
    unfolding eq page_base by (simp_all add: page_base push_bit_eq_mult)
qed

lemma page_walk_kernel_tables:
  assumes "unat f < 2 ^ 20" "unat g < 2 ^ 20" "f \<noteq> g"
  shows "page_walk (kernel_tables (f * 4096) (g * 4096) r) (f * 4096) va
    = (if va < 0x400000 then Some va else None)"
proof -
  let ?r = "kernel_tables (f * 4096) (g * 4096) r"
  let ?i = "unat va div 2 ^ 22" and ?j = "unat va div 2 ^ 12 mod 2 ^ 10"
  have va: "unat va < 2 ^ 32" using unat_le_2p [of va] by simp
  have i: "?i < 1024" using va by (simp add: less_mult_imp_div_less)
  have di: "drop_bit 22 va = of_nat ?i"
    using i unat_of_nat_small [of ?i, where 'a = 32]
    by (simp only: word_unat_eq_iff unat_drop_bit_eq) (simp add: drop_bit_eq_div)
  have j: "?j < 1024" by simp
  have m: "0x3FF = (mask 10 :: u32)" "0xFFF = (mask 12 :: u32)" by (simp_all add: mask_eq_exp_minus_1)
  have dj: "drop_bit 12 va AND 0x3FF = of_nat ?j"
    using j unat_of_nat_small [of ?j, where 'a = 32] unfolding m
    by (simp only: word_unat_eq_iff unsigned_take_bit_eq unat_drop_bit_eq flip: take_bit_eq_mask)
       (simp add: drop_bit_eq_div take_bit_eq_mod)
  have iff: "va < 0x400000 \<longleftrightarrow> ?i = 0" by (simp add: word_less_nat_alt div_eq_0_iff)
  have split: "va = push_bit 12 (of_nat ?j) OR (va AND 0xFFF)" if "va < 0x400000"
  proof (rule bit_word_eqI)
    fix n
    have "take_bit 22 va = va"
      using that by (simp add: word_unat_eq_iff unsigned_take_bit_eq take_bit_nat_eq_self word_less_nat_alt)
    then have "bit va n \<longleftrightarrow> n < 22 \<and> bit va n" by (metis bit_take_bit_iff)
    then show "bit va n \<longleftrightarrow> bit (push_bit 12 (of_nat ?j) OR (va AND 0xFFF)) n"
      unfolding dj [symmetric] m by (auto simp: bit_simps)
  qed
  have pde: "load32 ?r (f * 4096 + 4 * drop_bit 22 va) = (if ?i = 0 then g * 4096 OR 3 else 0)"
    unfolding di by (rule kernel_tables_directory [OF assms i])
  have pte: "load32 ?r (g * 4096 + 4 * (drop_bit 12 va AND 0x3FF)) = identity_pte ?j"
    unfolding dj by (rule kernel_tables_table [OF assms]) simp
  show ?thesis
  proof (cases "?i = 0")
    case True
    then have "page_walk ?r (f * 4096) va = Some ((identity_pte ?j AND NOT 0xFFF) OR (va AND 0xFFF))"
      by (simp only: page_walk_def page_base pde Let_def pte identity_pte_bits if_True if_False
          not_True_eq_False simp_thms)
    with True split iff show ?thesis by (simp only: identity_pte_bits if_True simp_thms)
  next
    case False
    with iff show ?thesis by (simp only: page_walk_def page_base pde Let_def if_False) simp
  qed
qed

section \<open>Lemmas: execution\<close>

lemma table_loops:
  "[0..<1024 * 1024 div unat PMM_FRAME_SIZE] @ [1024 * 1024 div unat PMM_FRAME_SIZE..<PAGE_TABLE_ENTRIES]
     = [0..<1024]"
proof -
  have "[0..<256] @ [256..<1024] = [0..<(1024::nat)]"
    using upt_add_eq_append [of 0 256 768] by (simp del: upt_rec_numeral)
  then show ?thesis by (simp add: PMM_FRAME_SIZE_def PAGE_TABLE_ENTRIES_def del: upt_rec_numeral)
qed

lemma fill_table_append: "fill_table p e (is @ js) r = fill_table p e js (fill_table p e is r)"
  by (simp add: fill_table_def)

lemma VMM_init_done:
  assumes "PMM_malloc 4096 m = Done d m1" "PMM_malloc 4096 (m1\<lparr>vmm := (vmm m1)\<lparr>kernel_directory := d\<rparr>\<rparr>) = Done t m2"
  shows "VMM_init m = (if t = 0 \<or> d = 0 then Done False m2
     else Done True (m2\<lparr>ram := kernel_tables d t (ram m2),
       isr_handlers := (isr_handlers m2)[14 := Some Page_fault_handler],
       vmm := (vmm m2)\<lparr>current_directory := d\<rparr>, cr3 := d, cr0 := cr0 m2 OR 0x80000000,
       trace := trace m2 @ [Set_CR3 d, Set_CR0 (cr0 m2 OR 0x80000000)]\<rparr>))"
proof -
  have sz: "sizeof_page_directory_t = 4096" "sizeof_page_table_t = 4096"
    by (simp_all add: sizeof_page_directory_t_def sizeof_page_table_t_def PAGE_DIR_ENTRIES_def PAGE_TABLE_ENTRIES_def)
  have "fill_table t identity_pte [1024 * 1024 div unat PMM_FRAME_SIZE..<PAGE_TABLE_ENTRIES]
      (fill_table t identity_pte [0..<1024 * 1024 div unat PMM_FRAME_SIZE] r) = fill_table t identity_pte [0..<1024] r" for r
    by (simp only: fill_table_append [symmetric] table_loops)
  then show ?thesis
    unfolding VMM_init_def sz
    by (simp add: bind_def [of "PMM_malloc _"] assms set_pte_loop bind_def [of "for_each _ _"]
      identity_pte_def [abs_def, symmetric] kernel_tables_def ISR_register_interrupt_handler_def INT_Page_Fault_def
      VMM_switch_page_directory_def VMM_enable_paging_def set_cr0_def log_def CR0_PG_MASK_def ret_def bind_assoc)
qed

lemma PMM_malloc_vmm:
  "PMM_malloc sz m = Done p m1 \<Longrightarrow> PMM_malloc sz (m\<lparr>vmm := v\<rparr>) = Done p (m1\<lparr>vmm := v\<rparr>)"
  by (auto simp: PMM_malloc_def PMM_frames_free_def Let_def split: if_splits option.splits)

lemma PMM_malloc_page:
  assumes "pmm_wf m"
  shows "\<exists>f m1. PMM_malloc 4096 m = Done (f * 4096) m1 \<and> unat f < 2 ^ 20 \<and> pmm_step m m1 \<and> pmm_wf m1"
proof -
  have wf1: "pmm_wf m1" if "PMM_malloc 4096 m = Done p m1" for p m1
    using pages.alloc_wf [OF assms] PMM_alloc_page_Done [OF that] by simp
  consider "PMM_malloc 4096 m = Done 0 m"
    | f m1 where "PMM_malloc 4096 m = Done (f * 4096) m1" "f < total_frames (pmm m)" "pmm_step m m1"
    using PMM_malloc_one [of m 4096] assms by (auto simp: pmm_wf_def)
  then show ?thesis
  proof cases
    case 1
    with assms show ?thesis by (intro exI [of _ 0] exI [of _ m]) simp
  next
    case (2 f m1)
    then have "unat f < 2 ^ 20" using assms by (simp add: pmm_wf_def word_less_nat_alt)
    with 2 wf1 show ?thesis by blast
  qed
qed

lemma pmm_step_frame:
  "pmm_step m m1 \<Longrightarrow> cr0 m1 = cr0 m \<and> cr3 m1 = cr3 m \<and> isr_handlers m1 = isr_handlers m"
  unfolding pmm_step_def by (elim conjE, erule ssubst) simp

lemma VMM_init_result:
  assumes "pmm_wf m" "alloc_run PMM_alloc_page 2 m = ([d, t], m2)"
  shows "\<exists>m1. VMM_init m = Done (d \<noteq> 0 \<and> t \<noteq> 0) m1
    \<and> (if d \<noteq> 0 \<and> t \<noteq> 0
       then isr_handlers m1 = (isr_handlers m)[14 := Some Page_fault_handler] \<and> cr3 m1 = d
         \<and> (\<forall>va. translate m1 va = (if va < 0x400000 then Some va else None))
       else cr0 m1 = cr0 m \<and> cr3 m1 = cr3 m \<and> isr_handlers m1 = isr_handlers m)"
proof -
  obtain f ma where a: "PMM_malloc 4096 m = Done (f * 4096) ma" "unat f < 2 ^ 20" "pmm_step m ma" "pmm_wf ma"
    using PMM_malloc_page [OF assms(1)] by blast
  obtain g mb where b: "PMM_malloc 4096 ma = Done (g * 4096) mb" "unat g < 2 ^ 20" "pmm_step ma mb" "pmm_wf mb"
    using PMM_malloc_page [OF a(4)] by blast
  have dt: "d = f * 4096" "t = g * 4096"
    using assms(2) PMM_alloc_page_Done [OF a(1)] PMM_alloc_page_Done [OF b(1)]
    by (simp_all add: numeral_2_eq_2)
  have frame: "cr0 mb = cr0 m" "cr3 mb = cr3 m" "isr_handlers mb = isr_handlers m"
    using pmm_step_frame [OF pmm_step_trans [OF a(3) b(3)]] by simp_all
  note run = VMM_init_done [OF a(1) PMM_malloc_vmm [OF b(1)]]
  show ?thesis
  proof (cases "d \<noteq> 0 \<and> t \<noteq> 0")
    case False
    then show ?thesis by (auto simp: run dt [symmetric] frame)
  next
    case True
    then have "d \<noteq> t"
      using pages.two_allocs_distinct [OF assms(1) PMM_alloc_page_Done [OF a(1)] PMM_alloc_page_Done [OF b(1)]]
      by (simp add: dt)
    then have "f \<noteq> g" using dt by blast
    with True show ?thesis
      using page_walk_kernel_tables [OF a(2) b(2)]
      by (simp add: run dt [symmetric] frame translate_def bit_or_iff)
  qed
qed

lemma VMM_init_frame:
  assumes "pmm_wf m" "VMM_init m = Done b m1"
  shows "\<exists>r p v h k0 k3 t. m1 = m\<lparr>ram := r, pmm := p, vmm := v, isr_handlers := h, cr0 := k0, cr3 := k3, trace := t\<rparr>
    \<and> (b \<longrightarrow> bit k0 31)"
proof -
  obtain f ma where a: "PMM_malloc 4096 m = Done (f * 4096) ma" "pmm_step m ma" "pmm_wf ma"
    using PMM_malloc_page [OF assms(1)] by blast
  obtain g mb where b: "PMM_malloc 4096 ma = Done (g * 4096) mb" "pmm_step ma mb"
    using PMM_malloc_page [OF a(3)] by blast
  obtain r p where mb: "mb = m\<lparr>ram := r, pmm := p\<rparr>"
    using pmm_step_trans [OF a(2) b(2)] unfolding pmm_step_def by blast
  note run = VMM_init_done [OF a(1) PMM_malloc_vmm [OF b(1)]]
  show ?thesis
  proof (cases "g * 4096 = 0 \<or> f * 4096 = 0")
    case True
    then have "b = False" "m1 = mb\<lparr>vmm := (vmm ma)\<lparr>kernel_directory := f * 4096\<rparr>\<rparr>"
      using assms(2) by (simp_all add: run)
    then have "m1 = m\<lparr>ram := r, pmm := p, vmm := (vmm ma)\<lparr>kernel_directory := f * 4096\<rparr>, isr_handlers := isr_handlers m,
        cr0 := cr0 m, cr3 := cr3 m, trace := trace m\<rparr>" by (simp add: mb)
    with \<open>b = False\<close> show ?thesis by blast
  next
    case False
    let ?k0 = "cr0 m OR 0x80000000"
    have "m1 = m\<lparr>ram := kernel_tables (f * 4096) (g * 4096) r, pmm := p,
        vmm := ((vmm ma)\<lparr>kernel_directory := f * 4096\<rparr>)\<lparr>current_directory := f * 4096\<rparr>,
        isr_handlers := (isr_handlers m)[14 := Some Page_fault_handler], cr0 := ?k0, cr3 := f * 4096,
        trace := trace m @ [Set_CR3 (f * 4096), Set_CR0 ?k0]\<rparr>"
      using assms(2) False by (auto simp: run mb)
    moreover have "bit ?k0 31" by (simp add: bit_or_iff)
    ultimately show ?thesis by blast
  qed
qed

text \<open>What the page-fault handler prints.\<close>

definition page_fault_report :: "u32 \<Rightarrow> u32 \<Rightarrow> cstring" where
  "page_fault_report addr err =
     (let flag = (\<lambda>n. Dec False (if bit err n then 1 else 0)) in
      text_of [Lit (cstr ''PAGE FAULT addr: ''), Hex True addr, Lit (cstr '' -- err_code=''), Hex True err,
        Lit [10], Lit (cstr ''- present=''), flag 0, Lit (cstr '', rw=''), flag 1, Lit (cstr '', user=''),
        flag 2, Lit (cstr '', id=''), flag 4, Lit [10]])"

lemma page_fault_reports:
  assumes "con_wf m"
  shows "\<exists>m1. page_fault_handler r m = Done () m1 \<and> con_wf m1
    \<and> term_of m1 = fold term_putc (page_fault_report (cr2 m) (err_code r)) (term_of m) \<and> console_step m m1"
proof -
  let ?e = "err_code r" and ?flag = "\<lambda>n. if bit (err_code r) n then 1 else 0 :: u32"
  let ?p = "[Lit (cstr ''PAGE FAULT addr: ''), Hex True (cr2 m), Lit (cstr '' -- err_code=''), Hex True ?e, Lit [10]]"
  let ?q = "[Lit (cstr ''- present=''), Dec False (?flag 0), Lit (cstr '', rw=''), Dec False (?flag 1),
    Lit (cstr '', user=''), Dec False (?flag 2), Lit (cstr '', id=''), Dec False (?flag 4), Lit [10]]"
  have "list_all piece_printable ?p" "list_all piece_printable ?q"
    by (auto simp: piece_printable_def cstr_def)
  then obtain m1 m2 where
    m1: "CON_printf (fmt_of ?p @ [0]) (args_of ?p) m = Done (int (length (text_of ?p)) + 1) m1" "con_wf m1"
      "term_of m1 = fold term_putc (text_of ?p) (term_of m)" "console_step m m1" and
    m2: "CON_printf (fmt_of ?q @ [0]) (args_of ?q) m1 = Done (int (length (text_of ?q)) + 1) m2" "con_wf m2"
      "term_of m2 = fold term_putc (text_of ?q) (term_of m1)" "console_step m1 m2"
    using CON_printf_pieces_w [OF assms, of ?p] CON_printf_pieces_w [of _ ?q] by fastforce
  have f: "fmt_of ?p @ [0] = cstr ''PAGE FAULT addr: %X -- err_code=%X'' @ [10, 0]"
    "args_of ?p = [VInt (cr2 m), VInt ?e]"
    "fmt_of ?q @ [0] = cstr ''- present=%d, rw=%d, user=%d, id=%d'' @ [10, 0]"
    "args_of ?q = [VInt (?flag 0), VInt (?flag 1), VInt (?flag 2), VInt (?flag 4)]"
    by (simp_all add: pieces_simps cstr_def)
  have b: "(?e AND push_bit n 1 = 0) \<longleftrightarrow> \<not> bit ?e n" if "n < 32" for n
    using bit_iff_and_push_bit [of ?e n] that by auto
  have b: "?e AND 1 = ?flag 0" "(?e AND 2 = 0) \<longleftrightarrow> \<not> bit ?e 1" "(?e AND 4 = 0) \<longleftrightarrow> \<not> bit ?e 2"
    "(?e AND 16 = 0) \<longleftrightarrow> \<not> bit ?e 4"
    using b [of 1] b [of 2] b [of 4] by (simp_all add: and_one_eq bit_0 mod2_eq_if)
  have "page_fault_handler r m = Done () m2"
    unfolding page_fault_handler_def Let_def
    by (simp add: b bind_def [of "CON_printf _ _"] m1(1) [unfolded f] m2(1) [unfolded f] bind_assoc del: One_nat_def)
       (simp add: ret_def)
  moreover have "page_fault_report (cr2 m) ?e = text_of ?p @ text_of ?q"
    by (simp add: page_fault_report_def text_of_def)
  ultimately show ?thesis
    using m1 m2 console_step_trans [OF m1(4) m2(4)] by simp
qed

text \<open>The first two allocations after frame 0 of 64 was taken.\<close>

definition vmm_example :: "u8 \<Rightarrow> machine \<Rightarrow> machine" where
  "vmm_example b m = m\<lparr>ram := (\<lambda>_. 0)(0x5000 := b),
     pmm := \<lparr>total_frames = 64, used_frames = (if b = 1 then 1 else 2), frames_map = 0x5000\<rparr>\<rparr>"

lemma vmm_example_test: "bitset_test 0x5000 f ((\<lambda>_. 0)(0x5000 := b)) \<longleftrightarrow> f div 8 = 0 \<and> bit b (unat (f mod 8))"
  by (simp add: test_byte bit_addr_def)

lemma vmm_example_find:
  "bitset_find 0x5000 64 1 ((\<lambda>_. 0)(0x5000 := 1)) = Some 1"
  "bitset_find 0x5000 64 1 ((\<lambda>_. 0)(0x5000 := 3)) = Some 2"
proof -
  have l: "load32 ((\<lambda>_. 0)(0x5000 := b)) 0x5000 = ucast b" for b
    by (simp add: load32_def)
  have used: "bitset_find_body 0x5000 ((\<lambda>_. 0)(0x5000 := b)) 64 1 0 j' = None" if "j' = 0 \<and> bit b 0 \<or> j' = 1 \<and> bit b 1" for b j'
    using that by (intro find_body_used) (auto simp: vmm_example_test)
  show "bitset_find 0x5000 64 1 ((\<lambda>_. 0)(0x5000 := 1)) = Some 1"
    by (rule bitset_find_first_word [where j = 1])
       (auto simp: used l bitset_find_body_def BITSET_SIZE_def bitset_word_def vmm_example_test upt_rec bit_numeral_rec)
  have j2: "j' = 0 \<or> j' = 1" if "j' < 2" for j' :: nat using that by linarith
  show "bitset_find 0x5000 64 1 ((\<lambda>_. 0)(0x5000 := 3)) = Some 2"
    by (rule bitset_find_first_word [where j = 2])
       (auto simp: used l bitset_find_body_def BITSET_SIZE_def bitset_word_def vmm_example_test upt_rec bit_numeral_rec dest: j2)
qed

lemma vmm_example_malloc:
  "PMM_malloc 4096 (vmm_example 1 m) = Done 0x1000 (vmm_example 3 m)"
  "\<exists>m1. PMM_malloc 4096 (vmm_example 3 m) = Done 0x2000 m1"
  by (simp_all add: PMM_malloc_def frames_free_word PMM_FRAME_SIZE_def vmm_example_def vmm_example_find
      set_byte bit_addr_def)

lemma vmm_example_alloc:
  "alloc_run PMM_alloc_page 2 (vmm_example 1 m) = ([0x1000, 0x2000], snd (alloc_run PMM_alloc_page 2 (vmm_example 1 m)))"
  using PMM_alloc_page_Done [OF vmm_example_malloc(1)] vmm_example_malloc(2) [of m] PMM_alloc_page_Done
  by (fastforce simp: numeral_2_eq_2)

lemma vmm_example_wf: "pmm_wf (vmm_example 1 m)"
proof -
  have "f = 0" if "f div 8 = 0" "bit (1 :: u8) (unat (f mod 8))" for f :: u32
    using that by (simp add: bit_1_iff word_unat_eq_iff unat_div unat_mod)
  then have "used_set (vmm_example 1 m) = {0}"
    by (auto simp: used_set_def vmm_example_def vmm_example_test)
  then show ?thesis by (simp add: pmm_wf_def pmm_inv_def vmm_example_def)
qed

section \<open>Properties\<close>

text \<open>
  C7. The virtual memory manager starts exactly when the physical one provides two pages.  Then
  paging is on and the CPU translates every address below 4 MiB to itself and no other
  address, whatever the two pages held before, with the page-fault handler in place;
  otherwise the CPU's paging registers and the handlers are untouched.
\<close>

theorem VMM_init_correct:
  assumes "pmm_wf m" "alloc_run PMM_alloc_page 2 m = ([d, t], m2)"
  shows "\<exists>m1. VMM_init m = Done (d \<noteq> 0 \<and> t \<noteq> 0) m1
    \<and> (if d \<noteq> 0 \<and> t \<noteq> 0
       then isr_handlers m1 = (isr_handlers m)[14 := Some Page_fault_handler] \<and> cr3 m1 = d
         \<and> (\<forall>va. translate m1 va = (if va < 0x400000 then Some va else None))
       else cr0 m1 = cr0 m \<and> cr3 m1 = cr3 m \<and> isr_handlers m1 = isr_handlers m)"
  by (rule VMM_init_result [OF assms])

theorem VMM_init_correct_witness:
  "\<forall>m. \<exists>m1. VMM_init (vmm_example 1 m) = Done True m1 \<and> cr3 m1 = 0x1000
     \<and> translate m1 0xB8000 = Some 0xB8000 \<and> translate m1 0xFFFFFFFF = None"
proof
  fix m :: machine
  obtain m1 where "VMM_init (vmm_example 1 m) = Done True m1" "cr3 m1 = 0x1000"
    "\<forall>va. translate m1 va = (if va < 0x400000 then Some va else None)"
    using VMM_init_correct [OF vmm_example_wf vmm_example_alloc] by auto
  then show "\<exists>m1. VMM_init (vmm_example 1 m) = Done True m1 \<and> cr3 m1 = 0x1000
     \<and> translate m1 0xB8000 = Some 0xB8000 \<and> translate m1 0xFFFFFFFF = None" by auto
qed

text \<open>
  Disabling paging does not disable it: \<^verbatim>\<open>or eax, ~CR0_PG_MASK\<close> keeps the paging bit as it
  is and sets every other bit of CR0.
\<close>

theorem VMM_disable_paging_defect:
  "VMM_disable_paging m = Done () (m\<lparr>cr0 := cr0 m OR 0x7FFFFFFF,
     trace := trace m @ [Set_CR0 (cr0 m OR 0x7FFFFFFF)]\<rparr>)
   \<and> (bit (cr0 m OR 0x7FFFFFFF) 31 \<longleftrightarrow> bit (cr0 m) 31)"
proof -
  have "NOT CR0_PG_MASK = 0x7FFFFFFF" by (simp add: CR0_PG_MASK_def)
  then show ?thesis
    by (simp add: VMM_disable_paging_def set_cr0_def log_def bit_or_iff) (simp add: modify_def)
qed

text \<open>
  C35. The page-fault handler always returns and prints the faulting address, the error code and
  its present, write, user and fetch bits; it changes nothing but the screen.
\<close>

theorem page_fault_handler_correct:
  assumes "con_wf m"
  shows "\<exists>m1. page_fault_handler r m = Done () m1 \<and> con_wf m1
    \<and> term_of m1 = fold term_putc (page_fault_report (cr2 m) (err_code r)) (term_of m) \<and> console_step m m1"
  by (rule page_fault_reports [OF assms])

theorem page_fault_handler_correct_witness:
  "\<forall>m r. \<exists>m1. page_fault_handler r (m\<lparr>con := \<lparr>con_attr = 7, curX = 0, curY = 0\<rparr>\<rparr>) = Done () m1 \<and> con_wf m1"
proof (intro allI)
  fix m :: machine and r :: ISR_registers_t
  show "\<exists>m1. page_fault_handler r (m\<lparr>con := \<lparr>con_attr = 7, curX = 0, curY = 0\<rparr>\<rparr>) = Done () m1 \<and> con_wf m1"
    using page_fault_handler_correct [of "m\<lparr>con := \<lparr>con_attr = 7, curX = 0, curY = 0\<rparr>\<rparr>" r]
    by (auto simp: con_wf_def)
qed

end
