(* ===== verification/Pit.thy ===== *)
theory Pit
  imports Interrupts
begin

text \<open>
  \<^verbatim>\<open>arch/x86/PIT.{h,c}\<close>: the interval timer, its interrupt handler and \<^verbatim>\<open>sleep\<close>.  The bytes
  sent to the timer are decoded by a model of the 8253's first counter.
\<close>

section \<open>Definitions\<close>

definition PIT_FREQ :: u32 where "PIT_FREQ = 1193180"
definition PIT_REG_COUNTER0 :: u16 where "PIT_REG_COUNTER0 = 0x40"
definition PIT_REG_CMD :: u16 where "PIT_REG_CMD = 0x43"
definition PIT_OCW_BINCOUNT_BINARY :: u8 where "PIT_OCW_BINCOUNT_BINARY = 0"
definition PIT_OCW_MODE_SQUAREWAVEGEN :: u8 where "PIT_OCW_MODE_SQUAREWAVEGEN = 6"
definition PIT_OCW_RL_DATA :: u8 where "PIT_OCW_RL_DATA = 0x30"
definition PIT_OCW_COUNTER_0 :: u8 where "PIT_OCW_COUNTER_0 = 0"

lemmas pit_defs = PIT_FREQ_def PIT_REG_COUNTER0_def PIT_REG_CMD_def PIT_OCW_BINCOUNT_BINARY_def
  PIT_OCW_MODE_SQUAREWAVEGEN_def PIT_OCW_RL_DATA_def PIT_OCW_COUNTER_0_def

text \<open>
  \<^verbatim>\<open>itoa\<close> takes the counter as an \<^verbatim>\<open>int\<close>, and its result must fit the 11 bytes of
  \<^verbatim>\<open>buf\<close>.
\<close>

definition timer_callback :: "unit K" where
  "timer_callback = exec [
     modify (\<lambda>m. m\<lparr>ticks := ticks m + 1\<rparr>),
     bind (gets ticks) (\<lambda>t. case itoa (sint t) 10 of
         None \<Rightarrow> stop (Undefined ''timer_callback: itoa'')
       | Some bytes \<Rightarrow> if length bytes > 11 then stop (Undefined ''timer_callback: buffer overflow'')
           else VGA_WriteString 70 0 bytes VGA_COLOR_BRIGHT_GREEN)]"

definition PIT_set_timer_freq :: "u32 \<Rightarrow> unit K" where
  "PIT_set_timer_freq freq =
     (if freq = 0 then ret ()
      else let divisor = ucast (PIT_FREQ div freq) :: u16 in exec [
        pushfd,
        cli,
        outb PIT_REG_CMD (PIT_OCW_BINCOUNT_BINARY OR PIT_OCW_MODE_SQUAREWAVEGEN OR PIT_OCW_RL_DATA OR PIT_OCW_COUNTER_0),
        outb PIT_REG_COUNTER0 (ucast (divisor AND 0xFF)),
        outb PIT_REG_COUNTER0 (ucast (drop_bit 8 divisor AND 0xFF)),
        modify (\<lambda>m. m\<lparr>ticks := 0\<rparr>),
        popfd])"

definition PIT_init :: "u32 \<Rightarrow> unit K" where
  "PIT_init freq = exec [PIT_set_timer_freq freq, IRQ_register_interrupt_handler IRQ_TIMER Timer_callback]"

text \<open>\<^verbatim>\<open>unsigned long\<close> has 32 bits on this target.\<close>

definition sleep :: "(ISR_registers_t \<Rightarrow> unit K) \<Rightarrow> u32 \<Rightarrow> unit K" where
  "sleep irq nticks =
     bind (gets (\<lambda>m. ticks m + nticks)) (\<lambda>target_ticks. wait_until (\<lambda>m. \<not> ticks m < target_ticks) hlt irq)"

section \<open>The timer\<close>

text \<open>
  Counter 0 of the 8253: a control word selects the access (low byte, high byte, or low byte
  then high byte), the mode and binary or BCD counting; data bytes set the divisor, where 0
  stands for 65536.
\<close>

record i8253 =
  access :: u8
  op_mode :: u8
  bcd :: bool
  low_byte :: "u8 option"
  divisor0 :: u16

fun i8253_step :: "event \<Rightarrow> i8253 \<Rightarrow> i8253" where
  "i8253_step (Out8 p v) s =
     (if p = 0x43 \<and> drop_bit 6 v = 0 then
        (if drop_bit 4 v = 0 then s
         else s\<lparr>access := drop_bit 4 v, op_mode := drop_bit 1 v AND 7, bcd := bit v 0, low_byte := None\<rparr>)
      else if p = 0x40 then
        (if access s = 1 then s\<lparr>divisor0 := ucast v\<rparr>
         else if access s = 2 then s\<lparr>divisor0 := push_bit 8 (ucast v)\<rparr>
         else case low_byte s of
             None \<Rightarrow> s\<lparr>low_byte := Some v\<rparr>
           | Some l \<Rightarrow> s\<lparr>low_byte := None, divisor0 := push_bit 8 (ucast v) OR ucast l\<rparr>)
      else s)"
| "i8253_step _ s = s"

definition i8253_run :: "event list \<Rightarrow> i8253 \<Rightarrow> i8253" where
  "i8253_run es s = fold i8253_step es s"

definition i8253_divisor :: "i8253 \<Rightarrow> nat" where
  "i8253_divisor s = (if divisor0 s = 0 then 65536 else unat (divisor0 s))"

section \<open>Lemmas\<close>

lemma PIT_set_timer_freq_done:
  assumes "freq \<noteq> 0"
  shows "PIT_set_timer_freq freq m = Done () (m\<lparr>ticks := 0, trace := trace m @
     [Pushfd, Cli, Out8 0x43 0x36, Out8 0x40 (ucast (ucast (PIT_FREQ div freq) :: u16)),
      Out8 0x40 (ucast (drop_bit 8 (ucast (PIT_FREQ div freq) :: u16))), Popfd]\<rparr>)"
proof -
  have "ucast (d AND 0xFF) = (ucast d :: u8)" "ucast (drop_bit 8 d AND 0xFF) = (ucast (drop_bit 8 d) :: u8)" for d :: u16
    by (rule bit_word_eqI; auto simp: bit_simps bit_low_masks)+
  then show ?thesis
    using assms
    by (simp add: PIT_set_timer_freq_def pit_defs pushfd_def cli_def outb_def log_def bind_assoc Let_def)
       (simp add: popfd_def log_def modify_def)
qed

lemma two_bytes_word: "push_bit 8 (ucast (ucast (drop_bit 8 d) :: u8)) OR ucast (ucast d :: u8) = (d :: u16)"
  by (rule bit_word_eqI) (auto simp: bit_simps)

text \<open>One timer interrupt, while the tick counter is a non-negative \<^verbatim>\<open>int\<close>.\<close>

lemma timer_callback_done:
  assumes "unat (ticks m) + 1 < 2 ^ 31"
  shows "\<exists>r. timer_callback m = Done () (m\<lparr>ticks := ticks m + 1, ram := r\<rparr>)
    \<and> (\<forall>x < 80. \<forall>y < 25. vga_cell x y r =
        (let ds = digit_chars (digits 10 (int (unat (ticks m) + 1))) in
         if y = 0 \<and> 70 \<le> x \<and> x < 70 + length ds then (ds ! (x - 70), VGA_COLOR_BRIGHT_GREEN)
         else vga_cell x y (ram m)))
    \<and> (\<forall>a. \<not> vga_region a \<longrightarrow> r a = ram m a)"
proof -
  let ?n = "unat (ticks m) + 1" and ?m = "m\<lparr>ticks := ticks m + 1\<rparr>"
  have u: "unat (ticks m + 1) = ?n" using assms by (simp add: unat_word_ariths)
  have b: "int ?n < 2 ^ 31"
  proof -
    have "int ?n < int (2 ^ 31)" using assms by (simp only: of_nat_less_iff)
    then show ?thesis by (simp only: of_nat_power of_nat_numeral)
  qed
  have "uint (ticks m + 1) = int ?n" using u by (metis uint_nat)
  then have s: "sint (ticks m + 1) = int ?n"
    using b by (simp only: sint_uint) (rule signed_take_bit_int_eq_self, simp_all)
  let ?ds = "digit_chars (digits 10 (int ?n))"
  have l: "length ?ds \<le> 10"
    using length_digits_le [of 10 "int ?n" 10] unsigned_less [of "ticks m", where ?'a = int] by simp
  have "itoa (int ?n) 10 = Some (?ds @ [0])"
    using itoa_nonneg [of 10 "int ?n"] b by simp
  moreover obtain r where "VGA_WriteString 70 0 (?ds @ 0 # []) VGA_COLOR_BRIGHT_GREEN ?m = Done () (?m\<lparr>ram := r\<rparr>)"
    "\<forall>x < 80. \<forall>y < 25. vga_cell x y r
       = (if y = 0 \<and> 70 \<le> x \<and> x < 70 + length ?ds then (?ds ! (x - 70), VGA_COLOR_BRIGHT_GREEN)
          else vga_cell x y (ram ?m))"
    "\<forall>a. \<not> vga_region a \<longrightarrow> r a = ram ?m a"
    using VGA_WriteString_cells [of 0 ?ds 70 "[]" VGA_COLOR_BRIGHT_GREEN ?m] l digit_chars_nonzero [of 10 "int ?n"]
    by auto
  ultimately show ?thesis
    using l by (intro exI [of _ r]) (simp add: timer_callback_def s Let_def)
qed

text \<open>The timer's interrupt request, with its handler registered.\<close>

definition timer_ready :: "machine \<Rightarrow> bool" where
  "timer_ready m \<longleftrightarrow> length (isr_handlers m) = 256 \<and> isr_handlers m ! 32 = Some Timer_callback \<and> iflag m"

text \<open>What passes while the program sleeps: ticks, their display, and interrupts.\<close>

definition timer_event :: "event \<Rightarrow> bool" where
  "timer_event e \<longleftrightarrow> e \<in> {Hlt, Cli, Sti, Out8 0x20 0x20}"

definition timer_step :: "machine \<Rightarrow> machine \<Rightarrow> bool" where
  "timer_step m m1 \<longleftrightarrow> (\<exists>k es r s. m1 = m\<lparr>ticks := k, trace := trace m @ es, ram := r, irq_sched := s\<rparr>
     \<and> list_all timer_event es \<and> (\<forall>a. \<not> vga_region a \<longrightarrow> r a = ram m a))"

lemma timer_stepI:
  "list_all timer_event es \<Longrightarrow> (\<And>a. \<not> vga_region a \<Longrightarrow> r a = ram m a)
   \<Longrightarrow> timer_step m (m\<lparr>ticks := k, trace := trace m @ es, ram := r, irq_sched := s\<rparr>)"
  unfolding timer_step_def by blast

lemma timer_stepE:
  assumes "timer_step m m1"
  obtains k es r s where "m1 = m\<lparr>ticks := k, trace := trace m @ es, ram := r, irq_sched := s\<rparr>"
    "list_all timer_event es" "\<And>a. \<not> vga_region a \<Longrightarrow> r a = ram m a"
  using assms unfolding timer_step_def by blast

lemma timer_step_refl [simp]: "timer_step m m"
  using timer_stepI [where es = "[]" and r = "ram m" and m = m and k = "ticks m" and s = "irq_sched m"] by simp

lemma timer_step_trans: "timer_step m m1 \<Longrightarrow> timer_step m1 m2 \<Longrightarrow> timer_step m m2"
proof (elim timer_stepE)
  fix k es r s k' es' r' s'
  assume m1: "m1 = m\<lparr>ticks := k, trace := trace m @ es, ram := r, irq_sched := s\<rparr>"
    and m2: "m2 = m1\<lparr>ticks := k', trace := trace m1 @ es', ram := r', irq_sched := s'\<rparr>"
    and h: "list_all timer_event es" "list_all timer_event es'"
      "\<And>a. \<not> vga_region a \<Longrightarrow> r a = ram m a" "\<And>a. \<not> vga_region a \<Longrightarrow> r' a = ram m1 a"
  have "m2 = m\<lparr>ticks := k', trace := trace m @ es @ es', ram := r', irq_sched := s'\<rparr>"
    unfolding m2 m1 by simp
  then show "timer_step m m2"
    using timer_stepI [where es = "es @ es'" and r = r' and m = m and k = k' and s = s'] h m1 by simp
qed

lemma timer_step_frame:
  assumes "timer_step m m1"
  shows "hw m1 = hw m" "isr_handlers m1 = isr_handlers m" "iflag m1 = iflag m" "fdc m1 = fdc m"
    "timer_ready m \<Longrightarrow> timer_ready m1"
  using assms by (elim timer_stepE; simp add: timer_ready_def)+

lemma timer_irq:
  assumes "timer_ready m" "unat (ticks m) + 1 < 2 ^ 31" "call Timer_callback = (\<lambda>_. timer_callback)" "int_no r = 0"
  shows "\<exists>m1. IRQ_stub call r m = Done () m1 \<and> timer_step m m1 \<and> ticks m1 = ticks m + 1
    \<and> irq_sched m1 = irq_sched m"
proof -
  let ?m = "m\<lparr>iflag := False, trace := trace m @ [Cli, Out8 0x20 0x20]\<rparr>"
  obtain r' where t: "timer_callback ?m = Done () (?m\<lparr>ticks := ticks ?m + 1, ram := r'\<rparr>)"
    "\<forall>a. \<not> vga_region a \<longrightarrow> r' a = ram m a"
    using timer_callback_done [of ?m] assms(2) by auto
  have r: "r\<lparr>int_no := 0\<rparr> = r" using assms(4) by simp
  have "IRQ_UniversalHandler call r (m\<lparr>trace := trace m @ [Cli], iflag := False\<rparr>) = timer_callback ?m"
    using IRQ_UniversalHandler_eq [of 0 call r "m\<lparr>trace := trace m @ [Cli], iflag := False\<rparr>"] assms r
    by (simp add: timer_ready_def)
  with t(1) have "IRQ_stub call r m = Done () (m\<lparr>trace := trace m @ [Cli, Out8 0x20 0x20, Sti], iflag := True,
      ticks := ticks m + 1, ram := r'\<rparr>)"
    using assms(1)
    by (simp add: timer_ready_def IRQ_stub_on cli_def sti_def log_def bind_assoc bind_def [of "IRQ_UniversalHandler _ _"])
       (simp add: modify_def)
  moreover have "m\<lparr>trace := trace m @ [Cli, Out8 0x20 0x20, Sti], iflag := True, ticks := ticks m + 1, ram := r'\<rparr>
      = m\<lparr>ticks := ticks m + 1, trace := trace m @ [Cli, Out8 0x20 0x20, Sti], ram := r', irq_sched := irq_sched m\<rparr>"
    using assms(1) by (cases m) (simp add: timer_ready_def)
  ultimately show ?thesis
    using timer_stepI [where es = "[Cli, Out8 0x20 0x20, Sti]" and r = r' and m = m and k = "ticks m + 1" and s = "irq_sched m"] t(2)
    by (simp add: timer_event_def)
qed

lemma sleep_wakes:
  assumes "call Timer_callback = (\<lambda>_. timer_callback)" "int_no r = 0"
    and "timer_ready m" "unat (ticks m) + d < 2 ^ 31" "n = unat (ticks m) + d"
    and "irq_sched m = replicate d [r] @ rest"
  shows "\<exists>m1. wait_loop (\<lambda>m. \<not> ticks m < of_nat n) hlt (IRQ_stub call) (irq_sched m) m = Done () m1
    \<and> unat (ticks m1) = n \<and> irq_sched m1 = rest \<and> timer_step m m1"
  using assms(3-)
proof (induction d arbitrary: m)
  case 0
  then have n: "unat (ticks m) = n" and s: "irq_sched m = rest" by simp_all
  from n have l: "\<not> ticks m < of_nat n" by (simp flip: n)
  show ?case by (cases rest) (simp_all add: s l n)
next
  case (Suc d)
  have less: "ticks m < of_nat n"
    using Suc.prems(2,3) unat_of_nat_small [of n, where 'a = 32] unfolding word_less_nat_alt by simp
  let ?m = "m\<lparr>trace := trace m @ [Hlt], irq_sched := replicate d [r] @ rest\<rparr>"
  obtain m1 where m1: "IRQ_stub call r ?m = Done () m1" "timer_step ?m m1" "ticks m1 = ticks m + 1"
    "irq_sched m1 = replicate d [r] @ rest"
    using timer_irq [of ?m call r] Suc.prems(1,2) assms(1,2) by (auto simp: timer_ready_def)
  have step: "timer_step m m1"
  proof (rule timer_step_trans [OF _ m1(2)])
    show "timer_step m ?m"
      using timer_stepI [where es = "[Hlt]" and r = "ram m" and m = m and k = "ticks m" and s = "replicate d [r] @ rest"] by (simp add: timer_event_def)
  qed
  have "unat (ticks m1) = unat (ticks m) + 1"
    using Suc.prems(2) by (simp add: m1(3) unat_word_ariths)
  then obtain m2 where "wait_loop (\<lambda>m. \<not> ticks m < of_nat n) hlt (IRQ_stub call) (irq_sched m1) m1 = Done () m2"
    "unat (ticks m2) = n" "irq_sched m2 = rest" "timer_step m1 m2"
    using Suc.IH [of m1] Suc.prems(2,3) timer_step_frame(5) [OF step Suc.prems(1)] m1(4) by auto
  then show ?case
    using Suc.prems(1,4) m1(1,4) less timer_step_trans [OF step]
    by (auto simp: timer_ready_def hlt_def log_def bind_assoc bind_def [of "IRQ_stub _ _"])
qed

lemma sleep_done:
  assumes "call Timer_callback = (\<lambda>_. timer_callback)" "int_no r = 0" "timer_ready m"
    and "unat (ticks m) + unat n < 2 ^ 31" "irq_sched m = replicate (unat n) [r] @ rest"
  shows "\<exists>m1. sleep (IRQ_stub call) n m = Done () m1 \<and> unat (ticks m1) = unat (ticks m) + unat n
    \<and> irq_sched m1 = rest \<and> timer_step m m1"
proof -
  have "ticks m + n = of_nat (unat (ticks m) + unat n)" by simp
  with sleep_wakes [where d = "unat n" and m = m and call = call and r = r, OF assms(1-4) refl assms(5)] show ?thesis
    by (simp add: sleep_def wait_until_def del: of_nat_add)
qed

section \<open>Properties\<close>

text \<open>
  C31. Programming the timer with a frequency leaves counter 0, whatever state it was in, as a
  binary square-wave generator whose divisor is \<open>1193180 div freq\<close>, reduced to 16 bits with 0
  standing for 65536; so the rate is the one asked for from 19 Hz up, and for the 1 Hz of the
  boot sequence it is 1193180 / 13532, about 88 Hz.  The tick counter restarts and the interrupt
  flag and the stack are as before.
\<close>

theorem PIT_set_timer_freq_correct:
  assumes "0 < freq"
  shows "\<exists>m1 es. PIT_set_timer_freq freq m = Done () m1 \<and> m1 = m\<lparr>ticks := 0, trace := trace m @ es\<rparr>
    \<and> (let s1 = i8253_run es s; d = 1193180 div unat freq in
       op_mode s1 = 3 \<and> \<not> bcd s1 \<and> access s1 = 3 \<and> low_byte s1 = None
       \<and> i8253_divisor s1 = (if d mod 65536 = 0 then 65536 else d mod 65536)
       \<and> (19 \<le> freq \<and> freq \<le> 1193180 \<longrightarrow> i8253_divisor s1 = d)
       \<and> (freq = 1 \<longrightarrow> i8253_divisor s1 = 13532))"
proof -
  define d where "d = (ucast (PIT_FREQ div freq) :: u16)"
  define es where "es = [Pushfd, Cli, Out8 0x43 0x36, Out8 0x40 (ucast d), Out8 0x40 (ucast (drop_bit 8 d)), Popfd]"
  have f: "freq \<noteq> 0" using assms by auto
  have c36: "drop_bit 6 (0x36 :: u8) = 0" "drop_bit 4 (0x36 :: u8) = 3" "drop_bit (Suc 0) (0x36 :: u8) AND 7 = 3"
    by (simp_all add: drop_bit_eq_div)
  have run: "PIT_set_timer_freq freq m = Done () (m\<lparr>ticks := 0, trace := trace m @ es\<rparr>)"
    using PIT_set_timer_freq_done [OF f, of m] by (simp add: es_def d_def)
  have s: "i8253_run es s = s\<lparr>access := 3, op_mode := 3, bcd := False, low_byte := None, divisor0 := d\<rparr>"
    by (cases s) (simp add: i8253_run_def es_def two_bytes_word c36)
  have ud: "unat d = 1193180 div unat freq mod 65536"
    by (simp add: d_def unsigned_ucast_eq take_bit_eq_mod unat_div PIT_FREQ_def)
  then have dv: "i8253_divisor (i8253_run es s)
      = (if 1193180 div unat freq mod 65536 = 0 then 65536 else 1193180 div unat freq mod 65536)"
    by (simp add: s i8253_divisor_def word_unat_eq_iff)
  have "1193180 div unat freq mod 65536 = 1193180 div unat freq \<and> 1193180 div unat freq \<noteq> 0"
    if "19 \<le> freq" "freq \<le> 1193180"
  proof -
    have b: "19 \<le> unat freq" "unat freq \<le> 1193180" using that by (simp_all add: word_le_nat_alt)
    have "1193180 div unat freq \<le> 1193180 div 19" by (rule div_le_mono2) (use b in simp_all)
    then show ?thesis using b by (simp add: div_eq_0_iff)
  qed
  then show ?thesis
    using run dv s by (intro exI conjI) (auto simp: Let_def)
qed

theorem PIT_set_timer_freq_correct_witness:
  "\<forall>m s. \<exists>es. PIT_set_timer_freq 100 m = Done () (m\<lparr>ticks := 0, trace := trace m @ es\<rparr>)
     \<and> i8253_divisor (i8253_run es s) = 11931"
proof (intro allI)
  fix m s
  show "\<exists>es. PIT_set_timer_freq 100 m = Done () (m\<lparr>ticks := 0, trace := trace m @ es\<rparr>)
     \<and> i8253_divisor (i8253_run es s) = 11931"
    using PIT_set_timer_freq_correct [of 100 m s] by (auto simp: Let_def)
qed

text \<open>
  C24. \<^verbatim>\<open>sleep(n)\<close> returns once the timer has interrupted \<open>n\<close> times: with interrupts on, the
  handler registered, no overflow of the tick counter and \<open>n\<close> timer interrupts to come, it
  ends with the counter exactly \<open>n\<close> higher, having taken no other interrupt, and with nothing
  changed but the counter, the screen and the trace.
\<close>

theorem sleep_returns:
  assumes "timer_ready m" "call Timer_callback = (\<lambda>_. timer_callback)" "int_no r = 0"
    and "unat (ticks m) + unat n < 2 ^ 31" "irq_sched m = replicate (unat n) [r] @ rest"
  shows "\<exists>m1. sleep (IRQ_stub call) n m = Done () m1 \<and> unat (ticks m1) = unat (ticks m) + unat n
    \<and> irq_sched m1 = rest \<and> timer_step m m1"
  by (rule sleep_done [where call = call and r = r, OF assms(2,3,1,4,5)])

theorem sleep_returns_witness:
  "\<forall>m r. \<exists>m1. sleep (IRQ_stub (\<lambda>_ _. timer_callback)) 2
      (m\<lparr>isr_handlers := replicate 256 (Some Timer_callback), iflag := True, ticks := 40,
         irq_sched := replicate 2 [r\<lparr>int_no := 0\<rparr>]\<rparr>) = Done () m1 \<and> unat (ticks m1) = 42"
proof (intro allI)
  fix m :: machine and r :: ISR_registers_t
  let ?m = "m\<lparr>isr_handlers := replicate 256 (Some Timer_callback), iflag := True, ticks := 40,
         irq_sched := replicate 2 [r\<lparr>int_no := 0\<rparr>]\<rparr>"
  have "timer_ready ?m" "irq_sched ?m = replicate (unat (2 :: u32)) [r\<lparr>int_no := 0\<rparr>] @ []"
    by (simp_all add: timer_ready_def)
  with sleep_returns [of ?m "\<lambda>_ _. timer_callback" "r\<lparr>int_no := 0\<rparr>" 2 "[]"]
  show "\<exists>m1. sleep (IRQ_stub (\<lambda>_ _. timer_callback)) 2 ?m = Done () m1 \<and> unat (ticks m1) = 42"
    by auto
qed

text \<open>
  The tick counter of the timer's handler may be any 32-bit number, but past
  \<open>2 ^ 31\<close> ticks its conversion yields a sign and up to ten digits, and the 12 bytes overflow
  the 11-byte buffer.
\<close>

theorem timer_callback_overflow:
  "\<exists>m1. timer_callback (m\<lparr>ticks := 0x80000000\<rparr>)
     = Stop (Undefined ''timer_callback: buffer overflow'') m1"
proof -
  have s: "sint (0x80000001 :: u32) = - 2147483647" by simp
  have "length (digits 10 2147483647) = 10" by (simp add: digits.simps [of 10])
  then show ?thesis
    using itoa_neg [of 10 "- 2147483647"] by (simp add: timer_callback_def s stop_def digit_chars_def)
qed

end
