(* ===== verification/Dma.thy ===== *)
theory Dma
  imports Machine
begin

text \<open>
  \<^verbatim>\<open>drivers/dma.{h,c}\<close>: the two 8237 DMA controllers.  The port writes of the driver are read
  by a model of the controllers and of the page registers of the AT.
\<close>

section \<open>Definitions\<close>

definition DMA0_CHANMASK_REG :: u16 where "DMA0_CHANMASK_REG = 0x0A"
definition DMA0_MODE_REG :: u16 where "DMA0_MODE_REG = 0x0B"
definition DMA0_CLEARBYTE_FLIPFLOP_REG :: u16 where "DMA0_CLEARBYTE_FLIPFLOP_REG = 0x0C"
definition DMA0_UNMASK_ALL_REG :: u16 where "DMA0_UNMASK_ALL_REG = 0x0E"
definition DMA1_CHANMASK_REG :: u16 where "DMA1_CHANMASK_REG = 0xD4"
definition DMA1_MODE_REG :: u16 where "DMA1_MODE_REG = 0xD6"
definition DMA1_CLEARBYTE_FLIPFLOP_REG :: u16 where "DMA1_CLEARBYTE_FLIPFLOP_REG = 0xD8"
definition DMA1_UNMASK_ALL_REG :: u16 where "DMA1_UNMASK_ALL_REG = 0xDC"
definition DMA0_CHAN0_ADDR_REG :: u16 where "DMA0_CHAN0_ADDR_REG = 0"
definition DMA0_CHAN0_COUNT_REG :: u16 where "DMA0_CHAN0_COUNT_REG = 1"
definition DMA0_CHAN1_ADDR_REG :: u16 where "DMA0_CHAN1_ADDR_REG = 2"
definition DMA0_CHAN1_COUNT_REG :: u16 where "DMA0_CHAN1_COUNT_REG = 3"
definition DMA0_CHAN2_ADDR_REG :: u16 where "DMA0_CHAN2_ADDR_REG = 4"
definition DMA0_CHAN2_COUNT_REG :: u16 where "DMA0_CHAN2_COUNT_REG = 5"
definition DMA0_CHAN3_ADDR_REG :: u16 where "DMA0_CHAN3_ADDR_REG = 6"
definition DMA0_CHAN3_COUNT_REG :: u16 where "DMA0_CHAN3_COUNT_REG = 7"
definition DMA1_CHAN4_ADDR_REG :: u16 where "DMA1_CHAN4_ADDR_REG = 0xC0"
definition DMA1_CHAN4_COUNT_REG :: u16 where "DMA1_CHAN4_COUNT_REG = 0xC2"
definition DMA1_CHAN5_ADDR_REG :: u16 where "DMA1_CHAN5_ADDR_REG = 0xC4"
definition DMA1_CHAN5_COUNT_REG :: u16 where "DMA1_CHAN5_COUNT_REG = 0xC6"
definition DMA1_CHAN6_ADDR_REG :: u16 where "DMA1_CHAN6_ADDR_REG = 0xC8"
definition DMA1_CHAN6_COUNT_REG :: u16 where "DMA1_CHAN6_COUNT_REG = 0xCA"
definition DMA1_CHAN7_ADDR_REG :: u16 where "DMA1_CHAN7_ADDR_REG = 0xCC"
definition DMA1_CHAN7_COUNT_REG :: u16 where "DMA1_CHAN7_COUNT_REG = 0xCE"
definition DMA_PAGE_CHAN1_ADDRBYTE2 :: u16 where "DMA_PAGE_CHAN1_ADDRBYTE2 = 0x83"
definition DMA_PAGE_CHAN2_ADDRBYTE2 :: u16 where "DMA_PAGE_CHAN2_ADDRBYTE2 = 0x81"
definition DMA_PAGE_CHAN3_ADDRBYTE2 :: u16 where "DMA_PAGE_CHAN3_ADDRBYTE2 = 0x82"
definition DMA_PAGE_CHAN5_ADDRBYTE2 :: u16 where "DMA_PAGE_CHAN5_ADDRBYTE2 = 0x89"
definition DMA_PAGE_CHAN6_ADDRBYTE2 :: u16 where "DMA_PAGE_CHAN6_ADDRBYTE2 = 0x87"
definition DMA_PAGE_CHAN7_ADDRBYTE2 :: u16 where "DMA_PAGE_CHAN7_ADDRBYTE2 = 0x88"

definition DMA_MODE_READ_TRANSFER :: u8 where "DMA_MODE_READ_TRANSFER = 4"
definition DMA_MODE_WRITE_TRANSFER :: u8 where "DMA_MODE_WRITE_TRANSFER = 8"
definition DMA_MODE_MASK_AUTO :: u8 where "DMA_MODE_MASK_AUTO = 0x10"
definition DMA_MODE_TRANSFER_SINGLE :: u8 where "DMA_MODE_TRANSFER_SINGLE = 0x40"

lemmas dma_regs = DMA0_CHANMASK_REG_def DMA0_MODE_REG_def DMA0_CLEARBYTE_FLIPFLOP_REG_def
  DMA0_UNMASK_ALL_REG_def DMA1_CHANMASK_REG_def DMA1_MODE_REG_def DMA1_CLEARBYTE_FLIPFLOP_REG_def
  DMA1_UNMASK_ALL_REG_def DMA0_CHAN0_ADDR_REG_def DMA0_CHAN0_COUNT_REG_def
  DMA0_CHAN1_ADDR_REG_def DMA0_CHAN1_COUNT_REG_def DMA0_CHAN2_ADDR_REG_def
  DMA0_CHAN2_COUNT_REG_def DMA0_CHAN3_ADDR_REG_def DMA0_CHAN3_COUNT_REG_def
  DMA1_CHAN4_ADDR_REG_def DMA1_CHAN4_COUNT_REG_def DMA1_CHAN5_ADDR_REG_def
  DMA1_CHAN5_COUNT_REG_def DMA1_CHAN6_ADDR_REG_def DMA1_CHAN6_COUNT_REG_def
  DMA1_CHAN7_ADDR_REG_def DMA1_CHAN7_COUNT_REG_def DMA_PAGE_CHAN1_ADDRBYTE2_def
  DMA_PAGE_CHAN2_ADDRBYTE2_def DMA_PAGE_CHAN3_ADDRBYTE2_def DMA_PAGE_CHAN5_ADDRBYTE2_def
  DMA_PAGE_CHAN6_ADDRBYTE2_def DMA_PAGE_CHAN7_ADDRBYTE2_def

text \<open>The \<^verbatim>\<open>switch\<close> statements; \<open>None\<close> is their \<^verbatim>\<open>return\<close>.\<close>

definition dma_addr_port :: "u8 \<Rightarrow> u16 option" where
  "dma_addr_port channel =
     (if channel = 0 then Some DMA0_CHAN0_ADDR_REG
      else if channel = 1 then Some DMA0_CHAN1_ADDR_REG
      else if channel = 2 then Some DMA0_CHAN2_ADDR_REG
      else if channel = 3 then Some DMA0_CHAN3_ADDR_REG
      else if channel = 4 then Some DMA1_CHAN4_ADDR_REG
      else if channel = 5 then Some DMA1_CHAN5_ADDR_REG
      else if channel = 6 then Some DMA1_CHAN6_ADDR_REG
      else if channel = 7 then Some DMA1_CHAN7_ADDR_REG
      else None)"

definition dma_set_address :: "u8 \<Rightarrow> u8 \<Rightarrow> u8 \<Rightarrow> unit K" where
  "dma_set_address channel low high = (case dma_addr_port channel of
       None \<Rightarrow> ret ()
     | Some port \<Rightarrow> exec [outb port low, outb port high])"

definition dma_count_port :: "u8 \<Rightarrow> u16 option" where
  "dma_count_port channel =
     (if channel = 0 then Some DMA0_CHAN0_COUNT_REG
      else if channel = 1 then Some DMA0_CHAN1_COUNT_REG
      else if channel = 2 then Some DMA0_CHAN2_COUNT_REG
      else if channel = 3 then Some DMA0_CHAN3_COUNT_REG
      else if channel = 4 then Some DMA1_CHAN4_COUNT_REG
      else if channel = 5 then Some DMA1_CHAN5_COUNT_REG
      else if channel = 6 then Some DMA1_CHAN6_COUNT_REG
      else if channel = 7 then Some DMA1_CHAN7_COUNT_REG
      else None)"

definition dma_set_count :: "u8 \<Rightarrow> u8 \<Rightarrow> u8 \<Rightarrow> unit K" where
  "dma_set_count channel low high = (case dma_count_port channel of
       None \<Rightarrow> ret ()
     | Some port \<Rightarrow> exec [outb port low, outb port high])"

definition dma_page_port :: "u8 \<Rightarrow> u16 option" where
  "dma_page_port reg =
     (if reg = 1 then Some DMA_PAGE_CHAN1_ADDRBYTE2
      else if reg = 2 then Some DMA_PAGE_CHAN2_ADDRBYTE2
      else if reg = 3 then Some DMA_PAGE_CHAN3_ADDRBYTE2
      else if reg = 4 then None
      else if reg = 5 then Some DMA_PAGE_CHAN5_ADDRBYTE2
      else if reg = 6 then Some DMA_PAGE_CHAN6_ADDRBYTE2
      else if reg = 7 then Some DMA_PAGE_CHAN7_ADDRBYTE2
      else None)"

definition dma_set_external_page_register :: "u8 \<Rightarrow> u8 \<Rightarrow> unit K" where
  "dma_set_external_page_register reg val = (case dma_page_port reg of
       None \<Rightarrow> ret ()
     | Some port \<Rightarrow> outb port val)"

definition dma_mask_channel :: "u8 \<Rightarrow> unit K" where
  "dma_mask_channel channel =
     (if channel < 4 then outb DMA0_CHANMASK_REG (4 OR channel)
      else outb DMA1_CHANMASK_REG (4 OR (channel - 4)))"

definition dma_unmask_channel :: "u8 \<Rightarrow> unit K" where
  "dma_unmask_channel channel =
     (if channel < 4 then outb DMA0_CHANMASK_REG channel
      else outb DMA1_CHANMASK_REG (channel - 4))"

definition dma_set_mode :: "u8 \<Rightarrow> u8 \<Rightarrow> unit K" where
  "dma_set_mode channel mode =
     (let dma = (if channel < 4 then 0 else 1 :: u8);
          chan = (if dma = 0 then channel else channel - 4)
      in exec [
        dma_mask_channel channel,
        outb (if channel < 4 then DMA0_MODE_REG else DMA1_MODE_REG) (chan OR mode),
        dma_unmask_channel channel])"

definition dma_set_read :: "u8 \<Rightarrow> unit K" where
  "dma_set_read channel =
     dma_set_mode channel (DMA_MODE_READ_TRANSFER OR DMA_MODE_TRANSFER_SINGLE OR DMA_MODE_MASK_AUTO)"

definition dma_set_write :: "u8 \<Rightarrow> unit K" where
  "dma_set_write channel =
     dma_set_mode channel (DMA_MODE_WRITE_TRANSFER OR DMA_MODE_TRANSFER_SINGLE OR DMA_MODE_MASK_AUTO)"

definition dma_reset_flipflop :: "u8 \<Rightarrow> unit K" where
  "dma_reset_flipflop dma =
     outb (if dma = 0 then DMA0_CLEARBYTE_FLIPFLOP_REG else DMA1_CLEARBYTE_FLIPFLOP_REG) 0xFF"

definition dma_reset :: "u8 \<Rightarrow> unit K" where
  "dma_reset dma =
     outb (if dma = 0 then DMA0_CLEARBYTE_FLIPFLOP_REG else DMA1_CLEARBYTE_FLIPFLOP_REG) 0xFF"

definition dma_unmask_all :: "u8 \<Rightarrow> unit K" where
  "dma_unmask_all dma =
     outb (if dma = 0 then DMA0_UNMASK_ALL_REG else DMA1_UNMASK_ALL_REG) 0xFF"

lemmas dma_ops = dma_set_address_def dma_addr_port_def dma_set_count_def dma_count_port_def
  dma_set_external_page_register_def dma_page_port_def dma_mask_channel_def dma_unmask_channel_def
  dma_set_mode_def dma_set_read_def dma_set_write_def dma_reset_flipflop_def dma_reset_def dma_unmask_all_def

section \<open>The controllers\<close>

text \<open>
  One 8237: four channels with an address and a count of 16 bits, written low byte first under
  the control of a flip-flop that all of them share, a mode and a mask.  Controller 0 has its
  registers at the ports 0 to 15, controller 1 at every second port from \<open>0xC0\<close>.
\<close>

record i8237 =
  flipflop :: bool
  base_addr :: "nat \<Rightarrow> u16"
  base_count :: "nat \<Rightarrow> u16"
  ch_mode :: "nat \<Rightarrow> u8"
  masked :: "nat \<Rightarrow> bool"

definition put_byte :: "bool \<Rightarrow> u8 \<Rightarrow> u16 \<Rightarrow> u16" where
  "put_byte high v w = (if high then push_bit 8 (ucast v) OR take_bit 8 w else push_bit 8 (drop_bit 8 w) OR ucast v)"

definition i8237_write :: "nat \<Rightarrow> u8 \<Rightarrow> i8237 \<Rightarrow> i8237" where
  "i8237_write k v s =
     (let c = k div 2; sel = unat (v AND 3) in
      if k < 8 \<and> even k then
        s\<lparr>base_addr := (base_addr s)(c := put_byte (flipflop s) v (base_addr s c)), flipflop := \<not> flipflop s\<rparr>
      else if k < 8 then
        s\<lparr>base_count := (base_count s)(c := put_byte (flipflop s) v (base_count s c)), flipflop := \<not> flipflop s\<rparr>
      else if k = 0xA then s\<lparr>masked := (masked s)(sel := bit v 2)\<rparr>
      else if k = 0xB then s\<lparr>ch_mode := (ch_mode s)(sel := drop_bit 2 v)\<rparr>
      else if k = 0xC then s\<lparr>flipflop := False\<rparr>
      else if k = 0xD then s\<lparr>flipflop := False, masked := (\<lambda>_. True)\<rparr>
      else if k = 0xE then s\<lparr>masked := (\<lambda>_. False)\<rparr>
      else if k = 0xF then s\<lparr>masked := (\<lambda>c. bit v c)\<rparr>
      else s)"

fun i8237_step :: "bool \<Rightarrow> event \<Rightarrow> i8237 \<Rightarrow> i8237" where
  "i8237_step second (Out8 p v) s =
     (let n = unat p in
      if \<not> second \<and> n < 16 then i8237_write n v s
      else if second \<and> 0xC0 \<le> n \<and> n < 0xE0 \<and> even n then i8237_write ((n - 0xC0) div 2) v s
      else s)"
| "i8237_step _ _ s = s"

definition i8237_run :: "bool \<Rightarrow> event list \<Rightarrow> i8237 \<Rightarrow> i8237" where
  "i8237_run second es s = fold (i8237_step second) es s"

text \<open>The page registers of the AT: the channel whose upper address byte a port holds.\<close>

definition page_channel :: "u16 \<Rightarrow> nat option" where
  "page_channel p = map_of [(0x87, 0), (0x83, 1), (0x81, 2), (0x82, 3), (0x8B, 5), (0x89, 6), (0x8A, 7)] p"

fun page_step :: "event \<Rightarrow> (nat \<Rightarrow> u8) \<Rightarrow> nat \<Rightarrow> u8" where
  "page_step (Out8 p v) pages = (case page_channel p of None \<Rightarrow> pages | Some c \<Rightarrow> pages(c := v))"
| "page_step _ pages = pages"

section \<open>Lemmas\<close>

lemma channel_cases:
  assumes "unat (c :: u8) < 8"
  obtains "c = 0" | "c = 1" | "c = 2" | "c = 3" | "c = 4" | "c = 5" | "c = 6" | "c = 7"
proof -
  have "c = of_nat (unat c)" by simp
  moreover have "unat c \<in> {0, 1, 2, 3, 4, 5, 6, 7}" using assms by auto
  ultimately show ?thesis using that by (auto simp del: of_nat_unat ucast_id)
qed

lemma put_word: "put_byte True hi (put_byte False lo w) = push_bit 8 (ucast hi) OR ucast lo"
  by (rule bit_word_eqI) (auto simp: put_byte_def bit_simps dest: bit_imp_le_length)

section \<open>Properties\<close>

text \<open>
  C32. After the byte flip-flop of its controller is reset, the address and the count written to
  a channel 0 to 7 are what the controller holds for that channel, low byte first; no other
  channel changes, nor does the other controller, and the flip-flop is ready for the next word.
  A channel above 7 is ignored.
\<close>

theorem dma_program_correct:
  assumes "unat c < 8"
  shows "\<exists>es. exec [dma_reset_flipflop (c div 4), dma_set_address c lo hi, dma_set_count c clo chi] m
      = Done () (m\<lparr>trace := trace m @ es\<rparr>)
    \<and> i8237_run (4 \<le> c) es s = s\<lparr>flipflop := False,
        base_addr := (base_addr s)(unat c mod 4 := push_bit 8 (ucast hi) OR ucast lo),
        base_count := (base_count s)(unat c mod 4 := push_bit 8 (ucast chi) OR ucast clo)\<rparr>
    \<and> i8237_run (c < 4) es s' = s'"
proof -
  let ?f = "if c < 4 then 0xC else 0xD8 :: u16"
    and ?a = "if c < 4 then 2 * ucast c else 0xC0 + 4 * (ucast c - 4) :: u16"
    and ?k = "if c < 4 then 2 * ucast c + 1 else 0xC2 + 4 * (ucast c - 4) :: u16"
  define es where "es = [Out8 ?f 0xFF, Out8 ?a lo, Out8 ?a hi, Out8 ?k clo, Out8 ?k chi]"
  have "exec [dma_reset_flipflop (c div 4), dma_set_address c lo hi, dma_set_count c clo chi] m
      = Done () (m\<lparr>trace := trace m @ es\<rparr>)"
    using assms
    by (cases c rule: channel_cases)
       (simp_all add: dma_ops dma_regs outb_def log_def modify_def ret_def es_def bind_assoc)
  moreover have "i8237_run (4 \<le> c) es s = s\<lparr>flipflop := False,
        base_addr := (base_addr s)(unat c mod 4 := push_bit 8 (ucast hi) OR ucast lo),
        base_count := (base_count s)(unat c mod 4 := push_bit 8 (ucast chi) OR ucast clo)\<rparr>"
    using assms
    by (cases c rule: channel_cases)
       (simp_all add: es_def i8237_run_def i8237_write_def put_word word_le_nat_alt)
  moreover have "i8237_run (c < 4) es s' = s'"
    using assms
    by (cases c rule: channel_cases) (simp_all add: es_def i8237_run_def)
  ultimately show ?thesis by blast
qed

theorem dma_program_correct_witness:
  "\<forall>m s. \<exists>es. exec [dma_reset_flipflop 0, dma_set_address 2 0x34 0x12, dma_set_count 2 0xFF 0x23] m
      = Done () (m\<lparr>trace := trace m @ es\<rparr>)
    \<and> base_addr (i8237_run False es s) 2 = 0x1234 \<and> base_count (i8237_run False es s) 2 = 0x23FF"
proof (intro allI)
  fix m s
  have e: "(4 \<le> (2 :: u8)) = False" "(2 :: u8) div 4 = 0" "unat (2 :: u8) mod 4 = 2" by simp_all
  obtain es where "exec [dma_reset_flipflop 0, dma_set_address 2 0x34 0x12, dma_set_count 2 0xFF 0x23] m
      = Done () (m\<lparr>trace := trace m @ es\<rparr>)"
    "i8237_run False es s = s\<lparr>flipflop := False,
        base_addr := (base_addr s)(2 := push_bit 8 (ucast (0x12 :: u8)) OR ucast (0x34 :: u8)),
        base_count := (base_count s)(2 := push_bit 8 (ucast (0x23 :: u8)) OR ucast (0xFF :: u8))\<rparr>"
    using dma_program_correct [where c = 2 and m = m and s = s, unfolded e] by fastforce
  then show "\<exists>es. exec [dma_reset_flipflop 0, dma_set_address 2 0x34 0x12, dma_set_count 2 0xFF 0x23] m
      = Done () (m\<lparr>trace := trace m @ es\<rparr>)
    \<and> base_addr (i8237_run False es s) 2 = 0x1234 \<and> base_count (i8237_run False es s) 2 = 0x23FF"
    by (intro exI [of _ es]) simp
qed

text \<open>
  Setting the mode of a channel writes it, without the two bits that select the channel, to
  the mode register of that channel only and leaves the channel unmasked; the bytes for a
  device read and a device write are single auto-initialised transfers in the two directions.
\<close>

theorem dma_set_mode_correct:
  assumes "unat c < 8" "mode AND 3 = 0"
  shows "\<exists>es. dma_set_mode c mode m = Done () (m\<lparr>trace := trace m @ es\<rparr>)
    \<and> i8237_run (4 \<le> c) es s = s\<lparr>ch_mode := (ch_mode s)(unat c mod 4 := drop_bit 2 mode),
        masked := (masked s)(unat c mod 4 := False)\<rparr>
    \<and> i8237_run (c < 4) es s' = s'
    \<and> dma_set_read c = dma_set_mode c 0x54 \<and> dma_set_write c = dma_set_mode c 0x58"
proof -
  let ?k = "if c < 4 then c else c - 4"
  define es where "es = [Out8 (if c < 4 then 0xA else 0xD4) (4 OR ?k), Out8 (if c < 4 then 0xB else 0xD6) (?k OR mode),
    Out8 (if c < 4 then 0xA else 0xD4) ?k]"
  have "dma_set_mode c mode m = Done () (m\<lparr>trace := trace m @ es\<rparr>)"
    by (simp add: dma_set_mode_def dma_mask_channel_def dma_unmask_channel_def dma_regs outb_def log_def
        modify_def ret_def es_def bind_assoc)
  moreover have sel: "(k OR mode) AND 3 = k AND 3" for k :: u8
    using assms(2) by (simp add: bit.conj_disj_distrib2)
  have dk: "drop_bit 2 (1 OR mode) = drop_bit 2 mode" "drop_bit 2 (2 OR mode) = drop_bit 2 mode"
    "drop_bit 2 (3 OR mode) = drop_bit 2 mode"
  proof -
    have "drop_bit 2 (1 :: u8) = 0" "drop_bit 2 (2 :: u8) = 0" "drop_bit 2 (3 :: u8) = 0"
      by (simp_all add: drop_bit_eq_div)
    then show "drop_bit 2 (1 OR mode) = drop_bit 2 mode" "drop_bit 2 (2 OR mode) = drop_bit 2 mode"
      "drop_bit 2 (3 OR mode) = drop_bit 2 mode" by (simp_all only: drop_bit_or or.left_neutral)
  qed
  have "i8237_run (4 \<le> c) es s = s\<lparr>ch_mode := (ch_mode s)(unat c mod 4 := drop_bit 2 mode),
        masked := (masked s)(unat c mod 4 := False)\<rparr>"
    using assms(1)
    by (cases c rule: channel_cases)
       (simp_all add: es_def i8237_run_def i8237_write_def word_le_nat_alt sel dk assms(2))
  moreover have "i8237_run (c < 4) es s' = s'"
    using assms(1) by (cases c rule: channel_cases) (simp_all add: es_def i8237_run_def)
  moreover have "dma_set_read c = dma_set_mode c 0x54" "dma_set_write c = dma_set_mode c 0x58"
    by (simp_all add: dma_set_read_def dma_set_write_def DMA_MODE_READ_TRANSFER_def DMA_MODE_WRITE_TRANSFER_def
        DMA_MODE_TRANSFER_SINGLE_def DMA_MODE_MASK_AUTO_def)
  ultimately show ?thesis by blast
qed

theorem dma_set_mode_correct_witness:
  "\<forall>m s. \<exists>es. dma_set_mode 6 0x58 m = Done () (m\<lparr>trace := trace m @ es\<rparr>)
    \<and> \<not> masked (i8237_run True es s) 2"
proof (intro allI)
  fix m s
  have e: "(4 \<le> (6 :: u8)) = True" "unat (6 :: u8) mod 4 = 2" by simp_all
  show "\<exists>es. dma_set_mode 6 0x58 m = Done () (m\<lparr>trace := trace m @ es\<rparr>) \<and> \<not> masked (i8237_run True es s) 2"
    using dma_set_mode_correct [where c = 6 and mode = "0x58" and m = m and s = s, unfolded e] by fastforce
qed

text \<open>
  \<^verbatim>\<open>dma_reset\<close> resets only the byte flip-flop: the masks, modes, addresses and counts stay
  what they were, where the controller's master clear (register 13) would mask every channel.
\<close>

theorem dma_reset_defect:
  "\<exists>es. dma_reset d m = Done () (m\<lparr>trace := trace m @ es\<rparr>)
    \<and> i8237_run (d \<noteq> 0) es s = s\<lparr>flipflop := False\<rparr> \<and> i8237_run (d = 0) es s' = s'
    \<and> dma_reset d = dma_reset_flipflop d"
proof -
  define es where "es = [Out8 (if d = 0 then 0xC else 0xD8) 0xFF]"
  have "dma_reset d m = Done () (m\<lparr>trace := trace m @ es\<rparr>)"
    by (simp add: dma_ops dma_regs outb_def log_def modify_def es_def)
  moreover have "i8237_run (d \<noteq> 0) es s = s\<lparr>flipflop := False\<rparr>" "i8237_run (d = 0) es s' = s'"
    by (simp_all add: es_def i8237_run_def i8237_write_def)
  moreover have "dma_reset d = dma_reset_flipflop d" by (simp add: dma_reset_def dma_reset_flipflop_def)
  ultimately show ?thesis by blast
qed

text \<open>
  The page of a channel 1 to 3 goes to the page register of that channel; the pages of the
  channels 5, 6 and 7 go elsewhere: the one of channel 5 to channel 6, the one of channel 6 to
  channel 0, and the one of channel 7 to no channel at all.  Any other register is ignored.
\<close>

theorem dma_page_registers:
  "\<exists>es. dma_set_external_page_register c v m = Done () (m\<lparr>trace := trace m @ es\<rparr>)
    \<and> fold page_step es pages =
        (if c \<in> {1, 2, 3} then pages(unat c := v)
         else if c = 5 then pages(6 := v) else if c = 6 then pages(0 := v) else pages)"
proof -
  define es where "es = (case dma_page_port c of None \<Rightarrow> [] | Some p \<Rightarrow> [Out8 p v])"
  have "dma_set_external_page_register c v m = Done () (m\<lparr>trace := trace m @ es\<rparr>)"
    by (simp add: dma_set_external_page_register_def outb_def log_def modify_def es_def ret_def
        split: option.splits)
  moreover have "fold page_step es pages =
        (if c \<in> {1, 2, 3} then pages(unat c := v)
         else if c = 5 then pages(6 := v) else if c = 6 then pages(0 := v) else pages)"
    by (auto simp: es_def dma_page_port_def dma_regs page_channel_def)
  ultimately show ?thesis by blast
qed

end
