(* ===== verification/Ps2.thy ===== *)
theory Ps2
  imports Console Interrupts
begin

text \<open>
  \<^verbatim>\<open>drivers/ps2.{h,c}\<close>, the controller: polling with its timeout, commands, acknowledged data
  and the initialisation of the two ports.  The initialisation is run against a model of the
  8042 controller with a keyboard and a mouse.
\<close>

section \<open>Definitions\<close>

definition PS2_file :: string where "PS2_file = ''src/drivers/ps2.c''"

definition PS2_DATA_PORT :: u16 where "PS2_DATA_PORT = 0x60"
definition PS2_STATUS :: u16 where "PS2_STATUS = 0x64"
definition PS2_COMMAND :: u16 where "PS2_COMMAND = 0x64"
definition PS2_POLL_TIMEOUT :: nat where "PS2_POLL_TIMEOUT = 1000000"

definition PS2_COMMAND_TEST :: u8 where "PS2_COMMAND_TEST = 0xAA"
definition PS2_COMMAND_TEST_PORT1 :: u8 where "PS2_COMMAND_TEST_PORT1 = 0xAB"
definition PS2_COMMAND_TEST_PORT2 :: u8 where "PS2_COMMAND_TEST_PORT2 = 0xA9"
definition PS2_COMMAND_READ_CFG :: u8 where "PS2_COMMAND_READ_CFG = 0x20"
definition PS2_COMMAND_WRITE_CFG :: u8 where "PS2_COMMAND_WRITE_CFG = 0x60"
definition PS2_COMMAND_DISABLE_PORT1 :: u8 where "PS2_COMMAND_DISABLE_PORT1 = 0xAD"
definition PS2_COMMAND_DISABLE_PORT2 :: u8 where "PS2_COMMAND_DISABLE_PORT2 = 0xA7"
definition PS2_COMMAND_ENABLE_PORT1 :: u8 where "PS2_COMMAND_ENABLE_PORT1 = 0xAE"
definition PS2_COMMAND_ENABLE_PORT2 :: u8 where "PS2_COMMAND_ENABLE_PORT2 = 0xA8"
definition PS2_COMMAND_WRITE_PORT2 :: u8 where "PS2_COMMAND_WRITE_PORT2 = 0xD4"

definition PS2_DATA_RESET :: u8 where "PS2_DATA_RESET = 0xFF"
definition PS2_DATA_KEYBOARD_SCANCODE :: u8 where "PS2_DATA_KEYBOARD_SCANCODE = 0xF0"
definition PS2_DATA_KEYBOARD_GET_SCANCODE :: u8 where "PS2_DATA_KEYBOARD_GET_SCANCODE = 0"
definition PS2_DATA_KEYBOARD_SET_SCANCODE2 :: u8 where "PS2_DATA_KEYBOARD_SET_SCANCODE2 = 2"
definition PS2_DATA_MOUSE_SET_SCALING1_1 :: u8 where "PS2_DATA_MOUSE_SET_SCALING1_1 = 0xE6"
definition PS2_DATA_MOUSE_SET_SCALING2_1 :: u8 where "PS2_DATA_MOUSE_SET_SCALING2_1 = 0xE7"
definition PS2_DATA_MOUSE_SET_RESOLUTION :: u8 where "PS2_DATA_MOUSE_SET_RESOLUTION = 0xE8"
definition PS2_DATA_MOUSE_SET_SAMPLE_RATE :: u8 where "PS2_DATA_MOUSE_SET_SAMPLE_RATE = 0xF3"
definition PS2_DATA_MOUSE_ENABLE_DATA_REPORTING :: u8 where "PS2_DATA_MOUSE_ENABLE_DATA_REPORTING = 0xF4"

definition PS2_RESPONSE_CTRL_TEST_OK :: u8 where "PS2_RESPONSE_CTRL_TEST_OK = 0x55"
definition PS2_RESPONSE_ACK :: u8 where "PS2_RESPONSE_ACK = 0xFA"
definition PS2_RESPONSE_SELF_TEST_OK :: u8 where "PS2_RESPONSE_SELF_TEST_OK = 0xAA"

lemmas ps2_codes = PS2_DATA_PORT_def PS2_STATUS_def PS2_COMMAND_def
  PS2_COMMAND_TEST_def PS2_COMMAND_TEST_PORT1_def PS2_COMMAND_TEST_PORT2_def PS2_COMMAND_READ_CFG_def
  PS2_COMMAND_WRITE_CFG_def PS2_COMMAND_DISABLE_PORT1_def PS2_COMMAND_DISABLE_PORT2_def
  PS2_COMMAND_ENABLE_PORT1_def PS2_COMMAND_ENABLE_PORT2_def PS2_COMMAND_WRITE_PORT2_def
  PS2_DATA_RESET_def PS2_DATA_KEYBOARD_SCANCODE_def PS2_DATA_KEYBOARD_GET_SCANCODE_def
  PS2_DATA_KEYBOARD_SET_SCANCODE2_def PS2_DATA_MOUSE_SET_SCALING1_1_def PS2_DATA_MOUSE_SET_SCALING2_1_def
  PS2_DATA_MOUSE_SET_RESOLUTION_def PS2_DATA_MOUSE_SET_SAMPLE_RATE_def
  PS2_DATA_MOUSE_ENABLE_DATA_REPORTING_def PS2_RESPONSE_CTRL_TEST_OK_def PS2_RESPONSE_ACK_def
  PS2_RESPONSE_SELF_TEST_OK_def

subsection \<open>Polling\<close>

definition PS2_send_command :: "u8 \<Rightarrow> unit K" where
  "PS2_send_command command = outb PS2_COMMAND command"

definition PS2_read_status :: "u8 K" where
  "PS2_read_status = inb PS2_STATUS"

text \<open>The two loops, with the number of iterations left.\<close>

primrec PS2_ready_loop :: "nat \<Rightarrow> unit K" where
  "PS2_ready_loop 0 = KERNEL_PANIC ''PS/2 POLL TIMED-OUT'' PS2_file 121"
| "PS2_ready_loop (Suc n) = bind PS2_read_status (\<lambda>s. if s AND 1 \<noteq> 0 then ret () else PS2_ready_loop n)"

definition PS2_polling_wait_until_is_ready :: "unit K" where
  "PS2_polling_wait_until_is_ready = PS2_ready_loop PS2_POLL_TIMEOUT"

primrec PS2_send_loop :: "nat \<Rightarrow> unit K" where
  "PS2_send_loop 0 = KERNEL_PANIC ''PS/2 POLL TIMED-OUT'' PS2_file 134"
| "PS2_send_loop (Suc n) = bind PS2_read_status (\<lambda>s. if s AND 2 = 0 then ret () else PS2_send_loop n)"

definition PS2_polling_wait_until_can_send :: "unit K" where
  "PS2_polling_wait_until_can_send = PS2_send_loop PS2_POLL_TIMEOUT"

definition PS2_polling_send_command :: "u8 \<Rightarrow> unit K" where
  "PS2_polling_send_command cmd = exec [PS2_polling_wait_until_can_send, PS2_send_command cmd]"

definition PS2_polling_send_data :: "u8 \<Rightarrow> unit K" where
  "PS2_polling_send_data data = exec [PS2_polling_wait_until_can_send, outb PS2_DATA_PORT data]"

definition PS2_read_data :: "u8 K" where
  "PS2_read_data = inb PS2_DATA_PORT"

definition PS2_polling_send_ack :: "u8 \<Rightarrow> unit K" where
  "PS2_polling_send_ack data = exec [
     PS2_polling_send_data data,
     PS2_polling_wait_until_is_ready,
     bind PS2_read_data (\<lambda>c. k_when (c \<noteq> PS2_RESPONSE_ACK) (KERNEL_PANIC ''PS/2 response not ACK'' PS2_file 159))]"

subsection \<open>Devices\<close>

definition PS2_scancode_set :: "u8 \<Rightarrow> unit K" where
  "PS2_scancode_set st = exec [PS2_polling_send_ack PS2_DATA_KEYBOARD_SCANCODE, PS2_polling_send_ack st]"

definition PS2_reset_device :: "unit K" where
  "PS2_reset_device = exec [
     PS2_polling_send_ack PS2_DATA_RESET,
     bind PS2_read_data (\<lambda>data. k_when (data \<noteq> PS2_RESPONSE_SELF_TEST_OK)
       (KERNEL_PANIC ''PS/2 PORT RESET FAIL'' PS2_file 175)),
     bind PS2_read_data (\<lambda>_. ret ()),
     bind PS2_read_data (\<lambda>_. ret ())]"

definition PS2_mouse_set_scaling :: "u8 \<Rightarrow> unit K" where
  "PS2_mouse_set_scaling scale = exec [
     PS2_polling_send_command PS2_COMMAND_WRITE_PORT2,
     PS2_polling_send_ack (if scale = 1 then PS2_DATA_MOUSE_SET_SCALING1_1 else PS2_DATA_MOUSE_SET_SCALING2_1)]"

definition PS2_mouse_set_resolution :: "u8 \<Rightarrow> unit K" where
  "PS2_mouse_set_resolution resolution = exec [
     PS2_polling_send_command PS2_COMMAND_WRITE_PORT2,
     PS2_polling_send_ack PS2_DATA_MOUSE_SET_RESOLUTION,
     PS2_polling_send_command PS2_COMMAND_WRITE_PORT2,
     PS2_polling_send_ack resolution]"

definition PS2_mouse_set_sample_rate :: "u8 \<Rightarrow> unit K" where
  "PS2_mouse_set_sample_rate rate = exec [
     PS2_polling_send_command PS2_COMMAND_WRITE_PORT2,
     PS2_polling_send_ack PS2_DATA_MOUSE_SET_SAMPLE_RATE,
     PS2_polling_send_command PS2_COMMAND_WRITE_PORT2,
     PS2_polling_send_ack rate]"

subsection \<open>Initialisation\<close>

text \<open>\<^verbatim>\<open>cfg &= ~(1 << n)\<close> and \<^verbatim>\<open>cfg |= (1 << n)\<close>\<close>

definition cfg_clear :: "nat \<Rightarrow> u8 \<Rightarrow> u8" where
  "cfg_clear n cfg = cfg AND NOT (push_bit n 1)"

definition cfg_set :: "nat \<Rightarrow> u8 \<Rightarrow> u8" where
  "cfg_set n cfg = cfg OR push_bit n 1"

text \<open>\<^verbatim>\<open>PS2_init\<close> in the sections its comments name; \<open>cfg\<close> and \<open>has_port2\<close> are its variables.\<close>

definition PS2_init_controller :: "unit K" where
  "PS2_init_controller = exec [
     PS2_polling_send_command PS2_COMMAND_DISABLE_PORT1,
     PS2_polling_send_command PS2_COMMAND_DISABLE_PORT2,
     bind PS2_read_data (\<lambda>_. ret ()),
     PS2_polling_send_command PS2_COMMAND_READ_CFG,
     bind PS2_read_data (\<lambda>cfg. exec [
       PS2_polling_send_command PS2_COMMAND_WRITE_CFG,
       PS2_polling_send_data (cfg_clear 4 (cfg_clear 6 (cfg_clear 0 cfg)))]),
     PS2_polling_send_command PS2_COMMAND_TEST,
     bind PS2_read_data (\<lambda>data. k_when (data \<noteq> PS2_RESPONSE_CTRL_TEST_OK)
       (KERNEL_PANIC ''PS/2 Controller TEST Failed'' PS2_file 283))]"

definition PS2_init_detect :: "(u8 \<times> bool) K" where
  "PS2_init_detect =
     bind (PS2_polling_send_command PS2_COMMAND_ENABLE_PORT2) (\<lambda>_.
     bind (PS2_polling_send_command PS2_COMMAND_READ_CFG) (\<lambda>_.
     bind PS2_read_data (\<lambda>cfg.
     if cfg AND 32 = 0 then
       let cfg1 = cfg_clear 5 (cfg_clear 1 cfg) in
       bind (exec [
         PS2_polling_send_command PS2_COMMAND_DISABLE_PORT2,
         PS2_polling_send_command PS2_COMMAND_WRITE_CFG,
         PS2_polling_send_data cfg1]) (\<lambda>_. ret (cfg1, True))
     else ret (cfg, False))))"

definition PS2_init_test_ports :: "bool \<Rightarrow> unit K" where
  "PS2_init_test_ports has_port2 = exec [
     PS2_polling_send_command PS2_COMMAND_TEST_PORT1,
     bind PS2_read_data (\<lambda>data. k_when (data \<noteq> 0) (KERNEL_PANIC ''PS/2 PORT1 TEST Failed'' PS2_file 304)),
     k_when has_port2 (exec [
       PS2_polling_send_command PS2_COMMAND_TEST_PORT2,
       bind PS2_read_data (\<lambda>data. k_when (data \<noteq> 0) (KERNEL_PANIC ''PS/2 PORT2 TEST Failed'' PS2_file 310))])]"

definition PS2_init_devices :: "bool \<Rightarrow> unit K" where
  "PS2_init_devices has_port2 = exec [
     PS2_scancode_set PS2_DATA_KEYBOARD_SET_SCANCODE2,
     PS2_scancode_set PS2_DATA_KEYBOARD_GET_SCANCODE,
     bind PS2_read_data (\<lambda>data. k_when (data \<noteq> PS2_DATA_KEYBOARD_SET_SCANCODE2)
       (KERNEL_PANIC ''PS/2 Keyboard error'' PS2_file 319)),
     PS2_reset_device,
     k_when has_port2 (exec [
       PS2_polling_send_command PS2_COMMAND_WRITE_PORT2,
       PS2_reset_device,
       PS2_mouse_set_scaling 1,
       PS2_mouse_set_resolution 0,
       PS2_mouse_set_sample_rate 20,
       PS2_polling_send_command PS2_COMMAND_WRITE_PORT2,
       PS2_polling_send_ack PS2_DATA_MOUSE_ENABLE_DATA_REPORTING])]"

definition PS2_init_enable :: "u8 \<Rightarrow> bool \<Rightarrow> unit K" where
  "PS2_init_enable cfg has_port2 = exec [
     PS2_polling_send_command PS2_COMMAND_ENABLE_PORT1,
     k_when has_port2 (PS2_polling_send_command PS2_COMMAND_ENABLE_PORT2),
     PS2_polling_send_command PS2_COMMAND_WRITE_CFG,
     PS2_polling_send_data (if has_port2 then cfg_set 1 (cfg_set 0 cfg) else cfg_set 0 cfg)]"

definition PS2_init :: "unit K" where
  "PS2_init =
     bind PS2_init_controller (\<lambda>_.
     bind PS2_init_detect (\<lambda>(cfg, has_port2). exec [
       PS2_init_test_ports has_port2,
       PS2_init_devices has_port2,
       PS2_init_enable cfg has_port2,
       IRQ_register_interrupt_handler IRQ_KEYBOARD Keyboard_handler,
       k_when has_port2 (IRQ_register_interrupt_handler IRQ_AUX Mouse_handler)]))"

section \<open>The controller and its devices\<close>

text \<open>
  The 8042 with a keyboard on the first and a mouse on the second port: the bytes waiting in the
  output buffer, the configuration byte, what the next data byte is for, and the state of the
  devices.  Answers are there as soon as they are asked for, as the driver expects.
\<close>

datatype expected = To_Keyboard | To_Mouse | To_Config
datatype parameter = No_Param | Scan_Set | Resolution | Sample_Rate

record i8042 =
  obuf :: "u8 list"
  latch :: u8
  config :: u8
  dest :: expected
  kbd_param :: parameter
  kbd_set :: u8
  mouse_param :: parameter
  mouse_scaling :: nat
  mouse_resolution :: u8
  mouse_rate :: u8
  mouse_reporting :: bool

definition answer :: "u8 list \<Rightarrow> i8042 \<Rightarrow> i8042" where
  "answer bs s = s\<lparr>obuf := obuf s @ bs\<rparr>"

definition i8042_command :: "u8 \<Rightarrow> i8042 \<Rightarrow> i8042" where
  "i8042_command c s =
     (if c = 0x20 then answer [config s] s
      else if c = 0x60 then s\<lparr>dest := To_Config\<rparr>
      else if c = 0xA7 then s\<lparr>config := config s OR 0x20\<rparr>
      else if c = 0xA8 then s\<lparr>config := config s AND NOT 0x20\<rparr>
      else if c = 0xA9 then answer [0] s
      else if c = 0xAA then answer [0x55] s
      else if c = 0xAB then answer [0] s
      else if c = 0xAD then s\<lparr>config := config s OR 0x10\<rparr>
      else if c = 0xAE then s\<lparr>config := config s AND NOT 0x10\<rparr>
      else if c = 0xD4 then s\<lparr>dest := To_Mouse\<rparr>
      else s)"

definition keyboard_byte :: "u8 \<Rightarrow> i8042 \<Rightarrow> i8042" where
  "keyboard_byte d s =
     (if kbd_param s = Scan_Set then
        (if d = 0 then answer [0xFA, kbd_set s] (s\<lparr>kbd_param := No_Param\<rparr>)
         else answer [0xFA] (s\<lparr>kbd_param := No_Param, kbd_set := d\<rparr>))
      else if d = 0xF0 then answer [0xFA] (s\<lparr>kbd_param := Scan_Set\<rparr>)
      else if d = 0xFF then answer [0xFA, 0xAA] (s\<lparr>kbd_set := 2\<rparr>)
      else answer [0xFE] s)"

definition mouse_byte :: "u8 \<Rightarrow> i8042 \<Rightarrow> i8042" where
  "mouse_byte d s =
     (case mouse_param s of
        Resolution \<Rightarrow> answer [0xFA] (s\<lparr>mouse_param := No_Param, mouse_resolution := d\<rparr>)
      | Sample_Rate \<Rightarrow> answer [0xFA] (s\<lparr>mouse_param := No_Param, mouse_rate := d\<rparr>)
      | _ \<Rightarrow>
        if d = 0xE6 then answer [0xFA] (s\<lparr>mouse_scaling := 1\<rparr>)
        else if d = 0xE7 then answer [0xFA] (s\<lparr>mouse_scaling := 2\<rparr>)
        else if d = 0xE8 then answer [0xFA] (s\<lparr>mouse_param := Resolution\<rparr>)
        else if d = 0xF3 then answer [0xFA] (s\<lparr>mouse_param := Sample_Rate\<rparr>)
        else if d = 0xF4 then answer [0xFA] (s\<lparr>mouse_reporting := True\<rparr>)
        else if d = 0xFF then answer [0xFA, 0xAA, 0]
          (s\<lparr>mouse_scaling := 1, mouse_resolution := 2, mouse_rate := 100, mouse_reporting := False\<rparr>)
        else answer [0xFE] s)"

definition i8042_data :: "u8 \<Rightarrow> i8042 \<Rightarrow> i8042" where
  "i8042_data d s = (case dest s of
       To_Config \<Rightarrow> s\<lparr>config := d, dest := To_Keyboard\<rparr>
     | To_Mouse \<Rightarrow> mouse_byte d (s\<lparr>dest := To_Keyboard\<rparr>)
     | To_Keyboard \<Rightarrow> keyboard_byte d s)"

definition i8042_read :: "i8042 \<Rightarrow> i8042" where
  "i8042_read s = (case obuf s of [] \<Rightarrow> s | b # bs \<Rightarrow> s\<lparr>obuf := bs, latch := b\<rparr>)"

fun i8042_step :: "event \<Rightarrow> i8042 \<Rightarrow> i8042" where
  "i8042_step (Out8 p v) s = (if p = 0x64 then i8042_command v s else if p = 0x60 then i8042_data v s else s)"
| "i8042_step (In8 p v) s = (if p = 0x60 then i8042_read s else s)"
| "i8042_step _ s = s"

definition i8042_port :: "i8042 \<Rightarrow> u16 \<Rightarrow> u8" where
  "i8042_port s p = (if p = 0x64 then (if obuf s = [] then 0 else 1)
     else if p = 0x60 then (case obuf s of [] \<Rightarrow> latch s | b # _ \<Rightarrow> b) else 0xFF)"

text \<open>A machine whose two ports are those of a controller in the state \<open>s\<close>, now and later.\<close>

definition connected :: "machine \<Rightarrow> i8042 \<Rightarrow> bool" where
  "connected m s \<longleftrightarrow> (\<forall>es. hw m (trace m @ es) 0x60 = i8042_port (fold i8042_step es s) 0x60
     \<and> hw m (trace m @ es) 0x64 = i8042_port (fold i8042_step es s) 0x64)"

section \<open>Lemmas: programs that talk to the controller\<close>

text \<open>
  Connected to a controller in state \<open>s\<close>, the program returns \<open>x\<close>, only adds to the trace, and
  leaves the controller in state \<open>s1\<close>.
\<close>

definition runs :: "'a K \<Rightarrow> i8042 \<Rightarrow> 'a \<Rightarrow> i8042 \<Rightarrow> bool" where
  "runs k s x s1 \<longleftrightarrow> (\<forall>m. connected m s \<longrightarrow>
     (\<exists>es. k m = Done x (m\<lparr>trace := trace m @ es\<rparr>) \<and> fold i8042_step es s = s1))"

lemma connected_later: "connected m s \<Longrightarrow> connected (m\<lparr>trace := trace m @ es\<rparr>) (fold i8042_step es s)"
  unfolding connected_def
proof
  fix fs
  assume "\<forall>es. hw m (trace m @ es) 0x60 = i8042_port (fold i8042_step es s) 0x60
     \<and> hw m (trace m @ es) 0x64 = i8042_port (fold i8042_step es s) 0x64"
  from this [rule_format, of "es @ fs"]
  show "hw (m\<lparr>trace := trace m @ es\<rparr>) (trace (m\<lparr>trace := trace m @ es\<rparr>) @ fs) 0x60
        = i8042_port (fold i8042_step fs (fold i8042_step es s)) 0x60
      \<and> hw (m\<lparr>trace := trace m @ es\<rparr>) (trace (m\<lparr>trace := trace m @ es\<rparr>) @ fs) 0x64
        = i8042_port (fold i8042_step fs (fold i8042_step es s)) 0x64" by simp
qed

lemma connected_now: "connected m s \<Longrightarrow> hw m (trace m) 0x60 = i8042_port s 0x60 \<and> hw m (trace m) 0x64 = i8042_port s 0x64"
  unfolding connected_def by (drule spec [of _ "[]"]) simp

lemma runs_bind:
  assumes "runs k s x s1" "runs (f x) s1 y s2"
  shows "runs (bind k f) s y s2"
  unfolding runs_def
proof (intro allI impI)
  fix m
  assume m: "connected m s"
  then obtain es where k: "k m = Done x (m\<lparr>trace := trace m @ es\<rparr>)" "fold i8042_step es s = s1"
    using assms(1) unfolding runs_def by blast
  then obtain fs where "f x (m\<lparr>trace := trace m @ es\<rparr>) = Done y (m\<lparr>trace := trace m @ es @ fs\<rparr>)"
    "fold i8042_step fs s1 = s2"
    using assms(2) connected_later [OF m, of es] unfolding runs_def by fastforce
  with k show "\<exists>es. bind k f m = Done y (m\<lparr>trace := trace m @ es\<rparr>) \<and> fold i8042_step es s = s2"
    by (intro exI [of _ "es @ fs"]) (simp add: bind_def)
qed

lemma runs_ret: "runs (ret x) s x s"
  by (simp add: runs_def ret_def) (metis append_Nil2 fold_simps(1) machine.surjective machine.update_convs(5))

lemma runs_outb: "runs (outb p v) s () (i8042_step (Out8 p v) s)"
  unfolding runs_def by (auto simp: outb_def log_def modify_def intro!: exI [of _ "[Out8 p v]"])

lemma runs_inb:
  "runs (inb 0x60) s (i8042_port s 0x60) (i8042_read s)"
  "runs (inb 0x64) s (i8042_port s 0x64) s"
  unfolding runs_def inb_def
  by (auto simp: Let_def dest!: connected_now intro!: exI [of _ "[In8 _ _]"])

lemma PS2_POLL_TIMEOUT_pos: "0 < PS2_POLL_TIMEOUT"
  by (simp add: PS2_POLL_TIMEOUT_def)

lemma runs_can_send: "runs PS2_polling_wait_until_can_send s () s"
proof -
  have "i8042_port s 0x64 AND 2 = 0" by (simp add: i8042_port_def)
  then have "runs (PS2_send_loop n) s () s" if "n \<noteq> 0" for n
    using that
    by (cases n) (auto simp: PS2_read_status_def PS2_STATUS_def intro!: runs_bind [OF runs_inb(2)] runs_ret)
  then show ?thesis by (simp add: PS2_polling_wait_until_can_send_def PS2_POLL_TIMEOUT_pos)
qed

lemma runs_ready:
  assumes "obuf s \<noteq> []"
  shows "runs PS2_polling_wait_until_is_ready s () s"
proof -
  have "i8042_port s 0x64 AND 1 \<noteq> 0" using assms by (simp add: i8042_port_def)
  then have "runs (PS2_ready_loop n) s () s" if "n \<noteq> 0" for n
    using that
    by (cases n) (auto simp: PS2_read_status_def PS2_STATUS_def intro!: runs_bind [OF runs_inb(2)] runs_ret)
  then show ?thesis by (simp add: PS2_polling_wait_until_is_ready_def PS2_POLL_TIMEOUT_pos)
qed

lemma runs_send_command: "runs (PS2_polling_send_command c) s () (i8042_command c s)"
  using runs_bind [OF runs_can_send [of s], where f = "\<lambda>_. PS2_send_command c"] runs_outb [of "0x64" c s]
  by (simp add: PS2_polling_send_command_def PS2_send_command_def PS2_COMMAND_def)

lemma runs_send_data: "runs (PS2_polling_send_data d) s () (i8042_data d s)"
  using runs_bind [OF runs_can_send [of s], where f = "\<lambda>_. outb 0x60 d"] runs_outb [of "0x60" d s]
  by (simp add: PS2_polling_send_data_def PS2_DATA_PORT_def)

lemma runs_read_data: "runs PS2_read_data s (i8042_port s 0x60) (i8042_read s)"
  using runs_inb(1) by (simp add: PS2_read_data_def PS2_DATA_PORT_def)

lemma runs_send_ack:
  assumes "obuf (i8042_data d s) = 0xFA # bs"
  shows "runs (PS2_polling_send_ack d) s () (i8042_data d s\<lparr>obuf := bs, latch := 0xFA\<rparr>)"
proof -
  let ?s = "i8042_data d s"
  have "i8042_port ?s 0x60 = 0xFA" "i8042_read ?s = ?s\<lparr>obuf := bs, latch := 0xFA\<rparr>"
    using assms by (simp_all add: i8042_port_def i8042_read_def)
  then show ?thesis
    using assms runs_read_data [of ?s]
    by (auto simp: PS2_polling_send_ack_def PS2_RESPONSE_ACK_def k_when_def
        intro!: runs_bind [OF runs_send_data] runs_bind [OF runs_ready] runs_bind [OF runs_read_data] runs_ret)
qed

lemma runs_bind_ack:
  assumes "hd (obuf (i8042_data d s)) = 0xFA \<and> obuf (i8042_data d s) \<noteq> []"
    "runs (f ()) (i8042_data d s\<lparr>obuf := tl (obuf (i8042_data d s)), latch := 0xFA\<rparr>) y s2"
  shows "runs (bind (PS2_polling_send_ack d) f) s y s2"
  using assms by (cases "obuf (i8042_data d s)") (auto intro: runs_bind [OF runs_send_ack])

lemma runs_last_ack:
  "hd (obuf (i8042_data d s)) = 0xFA \<and> obuf (i8042_data d s) \<noteq> []
   \<Longrightarrow> i8042_data d s\<lparr>obuf := tl (obuf (i8042_data d s)), latch := 0xFA\<rparr> = s1
   \<Longrightarrow> runs (PS2_polling_send_ack d) s () s1"
  by (cases "obuf (i8042_data d s)") (auto intro: runs_send_ack)

lemma runs_last_data: "i8042_data d s = s1 \<Longrightarrow> runs (PS2_polling_send_data d) s () s1"
  using runs_send_data by blast

lemmas runs_binds = runs_last_ack runs_last_data runs_bind [OF runs_send_command] runs_bind [OF runs_send_data] runs_bind_ack
  runs_bind [OF runs_read_data] runs_ret

lemmas i8042_defs = i8042_command_def i8042_data_def i8042_read_def i8042_port_def keyboard_byte_def
  mouse_byte_def answer_def k_when_def ps2_codes bind_assoc

text \<open>
  The initialisation by sections, for a controller that starts in the state \<open>s\<close>: each step is
  taken by its rule and the state of the controller is simplified.
\<close>

definition cfg_controller :: "u8 \<Rightarrow> u8" where
  "cfg_controller c = cfg_clear 4 (cfg_clear 6 (cfg_clear 0 ((c OR 0x10) OR 0x20)))"

lemma runs_init_controller:
  assumes "length (obuf s) \<le> 1" "dest s = To_Keyboard"
  shows "runs PS2_init_controller s () (s\<lparr>obuf := [], latch := 0x55, config := cfg_controller (config s)\<rparr>)"
proof -
  obtain bs l c kp ks mp ms mr mt me where s: "s = \<lparr>obuf = bs, latch = l, config = c, dest = To_Keyboard,
      kbd_param = kp, kbd_set = ks, mouse_param = mp, mouse_scaling = ms, mouse_resolution = mr,
      mouse_rate = mt, mouse_reporting = me\<rparr>"
    using assms(2) by (cases s) auto
  have "bs = [] \<or> (\<exists>b. bs = [b])" using assms(1) by (cases bs) (auto simp: s)
  then show ?thesis
    unfolding s PS2_init_controller_def
    by (elim disjE exE; simp only: exec.simps)
       (rule runs_binds | simp add: i8042_defs cfg_controller_def)+
qed

definition cfg_two_ports :: "u8 \<Rightarrow> u8" where
  "cfg_two_ports c = cfg_clear 5 (cfg_clear 1 (c AND NOT 0x20))"

lemma no_bit_32: "(c AND - 33) AND 32 = (0 :: u8)"
  by (simp add: and.assoc)

lemma runs_init_detect:
  assumes "obuf s = []" "dest s = To_Keyboard"
  shows "runs PS2_init_detect s (cfg_two_ports (config s), True)
    (s\<lparr>latch := config s AND NOT 0x20, config := cfg_two_ports (config s)\<rparr>)"
proof -
  obtain l c kp ks mp ms mr mt me where s: "s = \<lparr>obuf = [], latch = l, config = c, dest = To_Keyboard,
      kbd_param = kp, kbd_set = ks, mouse_param = mp, mouse_scaling = ms, mouse_resolution = mr,
      mouse_rate = mt, mouse_reporting = me\<rparr>"
    using assms by (cases s) auto
  show ?thesis
    unfolding s PS2_init_detect_def
    by (rule runs_binds | simp add: i8042_defs cfg_two_ports_def Let_def no_bit_32)+
qed

lemma runs_init_test_ports:
  assumes "obuf s = []" "dest s = To_Keyboard"
  shows "runs (PS2_init_test_ports True) s () (s\<lparr>latch := 0\<rparr>)"
proof -
  obtain l c kp ks mp ms mr mt me where s: "s = \<lparr>obuf = [], latch = l, config = c, dest = To_Keyboard,
      kbd_param = kp, kbd_set = ks, mouse_param = mp, mouse_scaling = ms, mouse_resolution = mr,
      mouse_rate = mt, mouse_reporting = me\<rparr>"
    using assms by (cases s) auto
  show ?thesis
    unfolding s PS2_init_test_ports_def
    by (rule runs_binds | simp add: i8042_defs)+
qed

lemma runs_init_devices:
  assumes "obuf s = []" "dest s = To_Keyboard" "kbd_param s = No_Param" "mouse_param s = No_Param"
  shows "\<exists>l. runs (PS2_init_devices True) s () (s\<lparr>latch := l, kbd_set := 2, mouse_scaling := 1,
    mouse_resolution := 0, mouse_rate := 20, mouse_reporting := True\<rparr>)"
proof -
  obtain l c ks ms mr mt me where s: "s = \<lparr>obuf = [], latch = l, config = c, dest = To_Keyboard,
      kbd_param = No_Param, kbd_set = ks, mouse_param = No_Param, mouse_scaling = ms, mouse_resolution = mr,
      mouse_rate = mt, mouse_reporting = me\<rparr>"
    using assms by (cases s) auto
  have "runs (PS2_init_devices True) s () (s\<lparr>latch := 0xFA, kbd_set := 2, mouse_scaling := 1,
    mouse_resolution := 0, mouse_rate := 20, mouse_reporting := True\<rparr>)"
    unfolding s PS2_init_devices_def PS2_scancode_set_def PS2_reset_device_def PS2_mouse_set_scaling_def
      PS2_mouse_set_resolution_def PS2_mouse_set_sample_rate_def
    by (rule runs_binds | simp add: i8042_defs)+
  then show ?thesis by blast
qed

lemma runs_init_enable:
  assumes "obuf s = []" "dest s = To_Keyboard"
  shows "runs (PS2_init_enable cfg True) s () (s\<lparr>config := cfg_set 1 (cfg_set 0 cfg)\<rparr>)"
proof -
  obtain l c kp ks mp ms mr mt me where s: "s = \<lparr>obuf = [], latch = l, config = c, dest = To_Keyboard,
      kbd_param = kp, kbd_set = ks, mouse_param = mp, mouse_scaling = ms, mouse_resolution = mr,
      mouse_rate = mt, mouse_reporting = me\<rparr>"
    using assms by (cases s) auto
  show ?thesis
    unfolding s PS2_init_enable_def by (rule runs_binds | simp add: i8042_defs)+
qed

definition cfg_final :: "u8 \<Rightarrow> u8" where
  "cfg_final c = cfg_set 1 (cfg_set 0 (cfg_two_ports (cfg_controller c)))"

lemma bit_cfg:
  "bit (cfg_clear n c) k \<longleftrightarrow> k \<noteq> n \<and> bit c k" "n < 8 \<Longrightarrow> bit (cfg_set n c) k \<longleftrightarrow> k = n \<or> bit c k"
  by (auto simp: cfg_clear_def cfg_set_def bit_simps dest: bit_imp_le_length)

lemma bit_cfg_final:
  "bit (cfg_final c) n \<longleftrightarrow> n = 0 \<or> n = 1 \<or> (bit c n \<and> n \<notin> {4, 5, 6})"
proof -
  have m: "0x10 = (push_bit 4 1 :: u8)" "0x20 = (push_bit 5 1 :: u8)" by simp_all
  have "c AND NOT 0x20 = cfg_clear 5 c" "(c OR 0x10) OR 0x20 = cfg_set 5 (cfg_set 4 c)" for c
    unfolding m cfg_clear_def cfg_set_def by simp_all
  then have "cfg_final c = cfg_set 1 (cfg_set 0 (cfg_clear 5 (cfg_clear 1 (cfg_clear 5
      (cfg_clear 4 (cfg_clear 6 (cfg_clear 0 (cfg_set 5 (cfg_set 4 c)))))))))"
    by (simp only: cfg_final_def cfg_two_ports_def cfg_controller_def)
  then show ?thesis by (auto simp: bit_cfg)
qed

text \<open>Everything but the registration of the handlers.\<close>

definition PS2_setup :: "bool K" where
  "PS2_setup = bind PS2_init_controller (\<lambda>_. bind PS2_init_detect (\<lambda>(cfg, has_port2).
     bind (PS2_init_test_ports has_port2) (\<lambda>_. bind (PS2_init_devices has_port2) (\<lambda>_.
     bind (PS2_init_enable cfg has_port2) (\<lambda>_. ret has_port2)))))"

lemma PS2_init_setup: "PS2_init = bind PS2_setup (\<lambda>has_port2. exec [
    IRQ_register_interrupt_handler IRQ_KEYBOARD Keyboard_handler,
    k_when has_port2 (IRQ_register_interrupt_handler IRQ_AUX Mouse_handler)])"
  by (simp add: PS2_init_def PS2_setup_def bind_assoc split_def)

lemma runs_setup:
  assumes "length (obuf s) \<le> 1" "dest s = To_Keyboard" "kbd_param s = No_Param" "mouse_param s = No_Param"
  shows "\<exists>l. runs PS2_setup s True (s\<lparr>obuf := [], latch := l, kbd_set := 2, mouse_scaling := 1,
    mouse_resolution := 0, mouse_rate := 20, mouse_reporting := True, config := cfg_final (config s)\<rparr>)"
proof -
  let ?s1 = "s\<lparr>obuf := [], latch := 0x55, config := cfg_controller (config s)\<rparr>"
  let ?cfg = "cfg_two_ports (cfg_controller (config s))"
  let ?s2 = "?s1\<lparr>latch := cfg_controller (config s) AND NOT 0x20, config := ?cfg\<rparr>"
  let ?s3 = "?s2\<lparr>latch := 0\<rparr>"
  have c: "runs PS2_init_controller s () ?s1" by (rule runs_init_controller [OF assms(1,2)])
  have t: "runs PS2_init_detect ?s1 (?cfg, True) ?s2"
    using runs_init_detect [of ?s1] assms(2) by simp
  have p: "runs (PS2_init_test_ports True) ?s2 () ?s3"
    using runs_init_test_ports [of ?s2] assms(2) by simp
  obtain l where d: "runs (PS2_init_devices True) ?s3 () (?s3\<lparr>latch := l, kbd_set := 2, mouse_scaling := 1,
    mouse_resolution := 0, mouse_rate := 20, mouse_reporting := True\<rparr>)" (is "runs _ _ _ ?s4")
    using runs_init_devices [of ?s3] assms(2-) by auto
  have e: "runs (PS2_init_enable ?cfg True) ?s4 () (?s4\<lparr>config := cfg_final (config s)\<rparr>)"
    using runs_init_enable [of ?s4 ?cfg] assms(2) by (simp add: cfg_final_def)
  have "runs (case (?cfg, True) of (cfg, has_port2) \<Rightarrow> bind (PS2_init_test_ports has_port2)
      (\<lambda>_. bind (PS2_init_devices has_port2) (\<lambda>_. bind (PS2_init_enable cfg has_port2) (\<lambda>_. ret has_port2))))
      ?s2 True (?s4\<lparr>config := cfg_final (config s)\<rparr>)"
    unfolding prod.case by (rule runs_bind [OF p runs_bind [OF d runs_bind [OF e runs_ret]]])
  then have "runs PS2_setup s True (?s4\<lparr>config := cfg_final (config s)\<rparr>)"
    unfolding PS2_setup_def by (rule runs_bind [OF c runs_bind [OF t]])
  then show ?thesis by (intro exI [of _ l]) simp
qed

section \<open>Lemmas: timeouts\<close>

definition PS2_timeout :: "nat \<Rightarrow> stop" where
  "PS2_timeout line = Panic (cstr ''PS/2 POLL TIMED-OUT'' @ [0]) (cstr PS2_file @ [0]) line"

lemma poll_panic:
  "line < 2 ^ 31 \<Longrightarrow> \<exists>m1. KERNEL_PANIC ''PS/2 POLL TIMED-OUT'' PS2_file line m = Stop (PS2_timeout line) m1 \<and> \<not> iflag m1"
  unfolding PS2_timeout_def by (rule KERNEL_PANIC_stops) (simp_all add: PS2_file_def cstr_def)

lemma poll_panicked:
  "line < 2 ^ 31 \<Longrightarrow> \<exists>m1. KERNEL_PANIC ''PS/2 POLL TIMED-OUT'' PS2_file line m = Stop (PS2_timeout line) m1 \<and> panicked m m1"
  unfolding PS2_timeout_def by (rule KERNEL_PANIC_panicked) (simp_all add: PS2_file_def cstr_def)

text \<open>A poll that ends: the status reads it made, the last of them satisfying \<open>P\<close>.\<close>

definition polled :: "(u8 \<Rightarrow> bool) \<Rightarrow> nat \<Rightarrow> machine \<Rightarrow> machine \<Rightarrow> bool" where
  "polled P n m m1 \<longleftrightarrow> (\<exists>vs v. length vs < n \<and> list_all (\<lambda>v. \<not> P v) vs \<and> P v
     \<and> m1 = m\<lparr>trace := trace m @ map (In8 0x64) (vs @ [v])\<rparr>)"

lemma polled_now: "P v \<Longrightarrow> polled P (Suc n) m (m\<lparr>trace := trace m @ [In8 0x64 v]\<rparr>)"
  unfolding polled_def by (rule exI [of _ "[]"]) auto

lemma polled_later:
  "\<not> P v \<Longrightarrow> polled P n (m\<lparr>trace := trace m @ [In8 0x64 v]\<rparr>) m1 \<Longrightarrow> polled P (Suc n) m m1"
  unfolding polled_def
proof (elim exE conjE)
  fix vs w
  assume "\<not> P v" "length vs < n" "list_all (\<lambda>v. \<not> P v) vs" "P w"
    "m1 = m\<lparr>trace := trace m @ [In8 0x64 v]\<rparr>\<lparr>trace := trace (m\<lparr>trace := trace m @ [In8 0x64 v]\<rparr>) @ map (In8 0x64) (vs @ [w])\<rparr>"
  then show "\<exists>vs w. length vs < Suc n \<and> list_all (\<lambda>v. \<not> P v) vs \<and> P w
     \<and> m1 = m\<lparr>trace := trace m @ map (In8 0x64) (vs @ [w])\<rparr>"
    by (intro exI [of _ "v # vs"] exI [of _ w]) simp
qed

text \<open>
  \<open>n\<close> reads of the status in a row, from the trace \<open>t\<close> on, on a controller that has no data in
  any of them.
\<close>

primrec dry_poll :: "nat \<Rightarrow> (event list \<Rightarrow> u16 \<Rightarrow> u8) \<Rightarrow> event list \<Rightarrow> bool" where
  "dry_poll 0 h t \<longleftrightarrow> True"
| "dry_poll (Suc n) h t \<longleftrightarrow> h t 0x64 AND 1 = 0 \<and> dry_poll n h (t @ [In8 0x64 (h t 0x64)])"

lemma not_dry_poll: "0 < n \<Longrightarrow> h t 0x64 AND 1 \<noteq> 0 \<Longrightarrow> \<not> dry_poll n h t"
  by (cases n) simp_all

text \<open>The loop times out exactly on these.\<close>

lemma ready_loop_result:
  "if dry_poll n (hw m) (trace m)
   then \<exists>m1 es. PS2_ready_loop n m = Stop (PS2_timeout 121) m1 \<and> panicked (m\<lparr>trace := trace m @ es\<rparr>) m1
   else \<exists>m1. PS2_ready_loop n m = Done () m1 \<and> polled (\<lambda>v. v AND 1 \<noteq> 0) n m m1"
proof (induction n arbitrary: m)
  case 0
  have "\<exists>m1. PS2_ready_loop 0 m = Stop (PS2_timeout 121) m1 \<and> panicked (m\<lparr>trace := trace m @ []\<rparr>) m1"
    using poll_panicked [where 'a = unit, of 121 m] by simp
  then show ?case by (metis dry_poll.simps(1))
next
  case (Suc n)
  let ?v = "hw m (trace m) 0x64" and ?m = "m\<lparr>trace := trace m @ [In8 0x64 (hw m (trace m) 0x64)]\<rparr>"
  have l: "PS2_ready_loop (Suc n) m = (if ?v AND 1 \<noteq> 0 then Done () ?m else PS2_ready_loop n ?m)"
    by (simp add: PS2_read_status_def PS2_STATUS_def bind_def inb_def ret_def Let_def)
  show ?case
  proof (cases "dry_poll (Suc n) (hw m) (trace m)")
    case True
    then obtain m1 es where "PS2_ready_loop n ?m = Stop (PS2_timeout 121) m1"
      "panicked (m\<lparr>trace := trace m @ In8 0x64 ?v # es\<rparr>) m1"
      using Suc.IH [of ?m] by auto
    with True l show ?thesis by auto
  next
    case False
    then show ?thesis
      using Suc.IH [of ?m] l polled_now [of "\<lambda>v. v AND 1 \<noteq> 0" ?v n m] polled_later [of "\<lambda>v. v AND 1 \<noteq> 0" ?v n m]
      by (cases "?v AND 1 = 0") auto
  qed
qed

lemma ready_loop_cases:
  "(\<exists>m1. PS2_ready_loop n m = Done () m1 \<and> polled (\<lambda>v. v AND 1 \<noteq> 0) n m m1)
   \<or> (\<exists>m1. PS2_ready_loop n m = Stop (PS2_timeout 121) m1 \<and> \<not> iflag m1)"
  using ready_loop_result [of n m] by (auto split: if_splits dest: panicked_iflag)

lemma send_loop_cases:
  "(\<exists>m1. PS2_send_loop n m = Done () m1 \<and> polled (\<lambda>v. v AND 2 = 0) n m m1)
   \<or> (\<exists>m1. PS2_send_loop n m = Stop (PS2_timeout 134) m1 \<and> \<not> iflag m1)"
proof (induction n arbitrary: m)
  case 0
  then show ?case using poll_panic [where 'a = unit, of 134 m] by simp
next
  case (Suc n)
  let ?v = "hw m (trace m) 0x64" and ?m = "m\<lparr>trace := trace m @ [In8 0x64 (hw m (trace m) 0x64)]\<rparr>"
  have "PS2_send_loop (Suc n) m = (if ?v AND 2 = 0 then Done () ?m else PS2_send_loop n ?m)"
    by (simp add: PS2_read_status_def PS2_STATUS_def bind_def inb_def ret_def Let_def)
  then show ?case
    using Suc.IH [of ?m] polled_now [of "\<lambda>v. v AND 2 = 0" ?v n m] polled_later [of "\<lambda>v. v AND 2 = 0" ?v n m]
    by (cases "?v AND 2 = 0") auto
qed

lemma send_loop_stuck:
  assumes "\<And>t. hw m t 0x64 AND 2 \<noteq> 0"
  shows "\<exists>m1. PS2_send_loop n m = Stop (PS2_timeout 134) m1 \<and> \<not> iflag m1"
  using assms
proof (induction n arbitrary: m)
  case 0
  then show ?case using poll_panic [where 'a = unit, of 134 m] by simp
next
  case (Suc n)
  then show ?case
    by (simp add: PS2_read_status_def PS2_STATUS_def bind_def inb_def ret_def Let_def)
qed

lemma PS2_init_done:
  assumes "connected m s" "length (obuf s) \<le> 1" "dest s = To_Keyboard"
    and "kbd_param s = No_Param" "mouse_param s = No_Param"
  shows "\<exists>es s1. PS2_init m = Done () (m\<lparr>trace := trace m @ es,
        isr_handlers := (isr_handlers m)[33 := Some Keyboard_handler, 44 := Some Mouse_handler]\<rparr>)
    \<and> s1 = fold i8042_step es s \<and> obuf s1 = [] \<and> kbd_set s1 = 2 \<and> mouse_reporting s1
    \<and> mouse_rate s1 = 20 \<and> mouse_resolution s1 = 0
    \<and> (\<forall>n. bit (config s1) n \<longleftrightarrow> n = 0 \<or> n = 1 \<or> (bit (config s) n \<and> n \<notin> {4, 5, 6}))"
proof -
  obtain l where "runs PS2_setup s True (s\<lparr>obuf := [], latch := l, kbd_set := 2, mouse_scaling := 1,
    mouse_resolution := 0, mouse_rate := 20, mouse_reporting := True, config := cfg_final (config s)\<rparr>)"
    using runs_setup [OF assms(2-5)] by blast
  with assms(1) obtain es where es: "PS2_setup m = Done True (m\<lparr>trace := trace m @ es\<rparr>)"
    "fold i8042_step es s = s\<lparr>obuf := [], latch := l, kbd_set := 2, mouse_scaling := 1,
      mouse_resolution := 0, mouse_rate := 20, mouse_reporting := True, config := cfg_final (config s)\<rparr>"
    unfolding runs_def by blast
  have "PS2_init m = Done () (m\<lparr>trace := trace m @ es,
        isr_handlers := (isr_handlers m)[33 := Some Keyboard_handler, 44 := Some Mouse_handler]\<rparr>)"
    by (simp add: PS2_init_setup bind_def [of PS2_setup] es(1) k_when_def IRQ_register_interrupt_handler_def
        ISR_register_interrupt_handler_def IRQ_KEYBOARD_def IRQ_AUX_def PIC1_BASE_INT_def)
       (simp add: modify_def)
  then show ?thesis
    unfolding One_nat_def [symmetric]
    by (intro exI [of _ es] exI [of _ "fold i8042_step es s"] conjI) (simp_all add: es(2) bit_cfg_final)
qed

section \<open>Properties\<close>

text \<open>
  C8. On a machine whose keyboard controller behaves as documented, with both ports, in any
  configuration and with at most one stale byte waiting, \<^verbatim>\<open>PS2_init\<close> returns; then both ports
  are enabled with their interrupts and without translation, the keyboard uses scancode set 2,
  the mouse reports at 20 samples a second with the lowest resolution, no byte is left over, and
  the two handlers are registered at their vectors.
\<close>

theorem PS2_init_correct:
  assumes "connected m s" "length (obuf s) \<le> 1" "dest s = To_Keyboard"
    and "kbd_param s = No_Param" "mouse_param s = No_Param"
  shows "\<exists>es s1. PS2_init m = Done () (m\<lparr>trace := trace m @ es,
        isr_handlers := (isr_handlers m)[33 := Some Keyboard_handler, 44 := Some Mouse_handler]\<rparr>)
    \<and> s1 = fold i8042_step es s \<and> obuf s1 = [] \<and> kbd_set s1 = 2 \<and> mouse_reporting s1
    \<and> mouse_rate s1 = 20 \<and> mouse_resolution s1 = 0
    \<and> (\<forall>n. bit (config s1) n \<longleftrightarrow> n = 0 \<or> n = 1 \<or> (bit (config s) n \<and> n \<notin> {4, 5, 6}))"
  by (rule PS2_init_done [OF assms])

definition i8042_example :: i8042 where
  "i8042_example = \<lparr>obuf = [0x1C], latch = 0, config = 0x65, dest = To_Keyboard, kbd_param = No_Param,
     kbd_set = 1, mouse_param = No_Param, mouse_scaling = 1, mouse_resolution = 2, mouse_rate = 100,
     mouse_reporting = False\<rparr>"

theorem PS2_init_correct_witness:
  "\<forall>m. \<exists>es. PS2_init (m\<lparr>trace := [], hw := (\<lambda>t. i8042_port (fold i8042_step t i8042_example)),
        isr_handlers := replicate 256 None\<rparr>)
     = Done () (m\<lparr>trace := es, hw := (\<lambda>t. i8042_port (fold i8042_step t i8042_example)),
        isr_handlers := (replicate 256 None)[33 := Some Keyboard_handler, 44 := Some Mouse_handler]\<rparr>)"
proof
  fix m :: machine
  let ?m = "m\<lparr>trace := [], hw := (\<lambda>t. i8042_port (fold i8042_step t i8042_example)),
    isr_handlers := replicate 256 None\<rparr>"
  have "connected ?m i8042_example" by (simp add: connected_def)
  from PS2_init_correct [OF this] obtain es where "PS2_init ?m = Done () (?m\<lparr>trace := trace ?m @ es,
      isr_handlers := (isr_handlers ?m)[33 := Some Keyboard_handler, 44 := Some Mouse_handler]\<rparr>)"
    by (auto simp: i8042_example_def)
  then show "\<exists>es. PS2_init ?m = Done () (m\<lparr>trace := es, hw := (\<lambda>t. i8042_port (fold i8042_step t i8042_example)),
        isr_handlers := (replicate 256 None)[33 := Some Keyboard_handler, 44 := Some Mouse_handler]\<rparr>)"
    by (intro exI [of _ es]) simp
qed

text \<open>
  C29. Polling the controller always ends, whatever the device answers: either within a million
  reads of the status, the last of which has the bit waited for and the others have not, with
  nothing but the trace changed, or in a panic that names the timeout, with interrupts off.
\<close>

theorem PS2_polling_terminates:
  "((\<exists>m1. PS2_polling_wait_until_is_ready m = Done () m1 \<and> polled (\<lambda>v. v AND 1 \<noteq> 0) 1000000 m m1)
    \<or> (\<exists>m1. PS2_polling_wait_until_is_ready m = Stop (PS2_timeout 121) m1 \<and> \<not> iflag m1))
   \<and> ((\<exists>m1. PS2_polling_wait_until_can_send m = Done () m1 \<and> polled (\<lambda>v. v AND 2 = 0) 1000000 m m1)
    \<or> (\<exists>m1. PS2_polling_wait_until_can_send m = Stop (PS2_timeout 134) m1 \<and> \<not> iflag m1))"
  unfolding PS2_polling_wait_until_is_ready_def PS2_polling_wait_until_can_send_def PS2_POLL_TIMEOUT_def
  by (intro conjI ready_loop_cases send_loop_cases)

text \<open>
  On a machine without a keyboard controller, where the status port floats (its input-full
  bit reads 1), the initialisation does not return: it panics with the timeout of the first
  command, before any handler is registered.
\<close>

theorem PS2_init_no_controller:
  assumes "\<forall>t. hw m t 0x64 AND 2 \<noteq> 0"
  shows "\<exists>m1. PS2_init m = Stop (PS2_timeout 134) m1 \<and> \<not> iflag m1"
proof -
  obtain m1 where "PS2_send_loop PS2_POLL_TIMEOUT m = Stop (PS2_timeout 134) m1" "\<not> iflag m1"
    using send_loop_stuck [of m PS2_POLL_TIMEOUT] assms by blast
  then show ?thesis
    by (simp add: PS2_init_def PS2_init_controller_def PS2_polling_send_command_def
        PS2_polling_wait_until_can_send_def bind_def)
qed

theorem PS2_init_no_controller_witness:
  "\<forall>m. \<exists>m1. PS2_init (m\<lparr>hw := (\<lambda>_ _. 0xFF)\<rparr>) = Stop (PS2_timeout 134) m1"
proof
  fix m :: machine
  have "(0xFF :: u8) AND 2 \<noteq> 0" by simp
  then show "\<exists>m1. PS2_init (m\<lparr>hw := (\<lambda>_ _. 0xFF)\<rparr>) = Stop (PS2_timeout 134) m1"
    using PS2_init_no_controller [of "m\<lparr>hw := (\<lambda>_ _. 0xFF)\<rparr>"] by auto
qed

end
