(* ===== verification/Mouse.thy ===== *)
theory Mouse
  imports Ps2
begin

text \<open>
  The mouse handler of \<^verbatim>\<open>drivers/ps2.c\<close>: it decodes a packet, moves and clamps the pointer and
  draws it by inverting one cell of the screen, restoring the cell it covered before.
\<close>

section \<open>Definitions\<close>

definition VGA_TEXT_MODE_3_COLS :: int where "VGA_TEXT_MODE_3_COLS = 80"
definition VGA_TEXT_MODE_3_ROWS :: int where "VGA_TEXT_MODE_3_ROWS = 25"

definition mouse_state_init :: mouse_state where
  "mouse_state_init = \<lparr>mouse_x = of_int (VGA_TEXT_MODE_3_COLS div 2), mouse_y = of_int (VGA_TEXT_MODE_3_ROWS div 2),
     old_mouse_x = - 1, old_mouse_y = - 1, saved_char = \<lparr>vch = 0, vcol = 0\<rparr>\<rparr>"

text \<open>
  \<^verbatim>\<open>b1 - ((b0 << 4) & 0x100)\<close>: the movement as a 9-bit two's complement number, in \<^verbatim>\<open>int\<close>.
\<close>

definition mouse_delta :: "u8 \<Rightarrow> u8 \<Rightarrow> nat \<Rightarrow> int" where
  "mouse_delta b0 b n = uint b - (push_bit n (uint b0) AND 0x100)"

definition mouse_clamp :: "16 word \<Rightarrow> int \<Rightarrow> 16 word" where
  "mouse_clamp v n = (if sint v < 0 then 0 else if sint v \<ge> n then of_int (n - 1) else v)"

definition mouse_move :: "u8 \<Rightarrow> u8 \<Rightarrow> u8 \<Rightarrow> mouse_state \<Rightarrow> mouse_state" where
  "mouse_move b0 b1 b2 s = s\<lparr>
     mouse_x := mouse_clamp (of_int (sint (mouse_x s) + mouse_delta b0 b1 4)) VGA_TEXT_MODE_3_COLS,
     mouse_y := mouse_clamp (of_int (sint (mouse_y s) - mouse_delta b0 b2 3)) VGA_TEXT_MODE_3_ROWS\<rparr>"

definition invert_color :: "u8 \<Rightarrow> u8" where
  "invert_color col = push_bit 4 (col AND 0x0F) OR drop_bit 4 (col AND 0xF0)"

definition mouse_draw :: "unit K" where
  "mouse_draw =
     bind (gets mouse) (\<lambda>s.
     bind (VGA_Write (sint (old_mouse_x s)) (sint (old_mouse_y s)) (Some (saved_char s))) (\<lambda>_.
     bind (VGA_Read (sint (mouse_x s)) (sint (mouse_y s))) (\<lambda>c.
     bind (modify (\<lambda>m. m\<lparr>mouse := s\<lparr>saved_char := c, old_mouse_x := mouse_x s, old_mouse_y := mouse_y s\<rparr>\<rparr>)) (\<lambda>_.
     VGA_WriteChar (sint (mouse_x s)) (sint (mouse_y s)) (vch c) (invert_color (vcol c))))))"

definition mouse_handler :: "unit K" where
  "mouse_handler =
     bind PS2_read_data (\<lambda>b0.
     if b0 AND 0x08 = 0 then ret ()
     else bind PS2_read_data (\<lambda>b1.
       bind PS2_read_data (\<lambda>b2.
       bind (modify (\<lambda>m. m\<lparr>mouse := mouse_move b0 b1 b2 (mouse m)\<rparr>)) (\<lambda>_.
       bind (gets mouse) (\<lambda>s.
       if old_mouse_x s = mouse_x s \<and> old_mouse_y s = mouse_y s then ret () else mouse_draw)))))"

section \<open>The pointer\<close>

text \<open>The pointer is on the screen, as is the place where it was drawn last, if any.\<close>

definition on_screen :: "16 word \<Rightarrow> 16 word \<Rightarrow> bool" where
  "on_screen x y \<longleftrightarrow> 0 \<le> sint x \<and> sint x < 80 \<and> 0 \<le> sint y \<and> sint y < 25"

definition pointer_at :: "mouse_state \<Rightarrow> (nat \<times> nat) option" where
  "pointer_at s = (if on_screen (old_mouse_x s) (old_mouse_y s)
     then Some (nat (sint (old_mouse_x s)), nat (sint (old_mouse_y s))) else None)"

definition mouse_wf :: "machine \<Rightarrow> bool" where
  "mouse_wf m \<longleftrightarrow> on_screen (mouse_x (mouse m)) (mouse_y (mouse m))
     \<and> (pointer_at (mouse m) = None \<longrightarrow> old_mouse_x (mouse m) = - 1 \<and> old_mouse_y (mouse m) = - 1)"

text \<open>The screen without the pointer.\<close>

definition picture :: "machine \<Rightarrow> nat \<Rightarrow> nat \<Rightarrow> u8 \<times> u8" where
  "picture m x y = (if pointer_at (mouse m) = Some (x, y)
     then (vch (saved_char (mouse m)), vcol (saved_char (mouse m))) else vga_cell x y (ram m))"

text \<open>A 9-bit two's complement movement.\<close>

definition packet_dx :: "u8 \<Rightarrow> u8 \<Rightarrow> int" where
  "packet_dx b0 b1 = uint b1 - (if bit b0 4 then 256 else 0)"

definition packet_dy :: "u8 \<Rightarrow> u8 \<Rightarrow> int" where
  "packet_dy b0 b2 = uint b2 - (if bit b0 5 then 256 else 0)"

section \<open>Lemmas\<close>

lemma mouse_delta_eq: "mouse_delta b0 b 4 = packet_dx b0 b" "mouse_delta b0 b 3 = packet_dy b0 b"
proof -
  have "push_bit n (uint b0) AND 0x100 = (if n \<le> 8 \<and> bit b0 (8 - n) then 0x100 else 0)" for n
  proof (rule bit_eqI)
    fix k
    have "bit (0x100 :: int) k \<longleftrightarrow> k = 8"
    proof -
      have "(0x100 :: int) = push_bit 8 1" by simp
      then show ?thesis by (simp only: bit_push_bit_iff_int bit_1_iff) auto
    qed
    then show "bit (push_bit n (uint b0) AND 0x100) k \<longleftrightarrow> bit (if n \<le> 8 \<and> bit b0 (8 - n) then 0x100 else 0 :: int) k"
      by (auto simp: bit_and_iff bit_push_bit_iff_int bit_uint_iff dest: bit_imp_le_length)
  qed
  then show "mouse_delta b0 b 4 = packet_dx b0 b" "mouse_delta b0 b 3 = packet_dy b0 b"
    by (simp_all add: mouse_delta_def packet_dx_def packet_dy_def)
qed

lemma packet_range: "- 256 \<le> packet_dx b0 b" "packet_dx b0 b \<le> 255" "- 256 \<le> packet_dy b0 b" "packet_dy b0 b \<le> 255"
  using unsigned_less [of b, where ?'a = int] by (auto simp: packet_dx_def packet_dy_def intro: order_trans [of _ 0])

lemma sint_of_int_16: "- 32768 \<le> z \<Longrightarrow> z < 32768 \<Longrightarrow> sint (of_int z :: 16 word) = z"
  by (simp add: sint_sbintrunc' signed_take_bit_int_eq_self)

lemma mouse_clamp_value:
  assumes "- 32768 \<le> z" "z < 32768" "0 < n" "n < 32768"
  shows "sint (mouse_clamp (of_int z) n) = max 0 (min (n - 1) z)"
  using assms sint_of_int_16 [of "n - 1"] by (auto simp: mouse_clamp_def sint_of_int_16)

text \<open>The cell under the pointer after it was drawn at \<open>(x, y)\<close>.\<close>

definition drawn :: "machine \<Rightarrow> nat \<Rightarrow> nat \<Rightarrow> machine \<Rightarrow> bool" where
  "drawn m x y m1 \<longleftrightarrow> vga_cell x y (ram m1) = (fst (picture m x y), invert_color (snd (picture m x y)))"

lemma VGA_Write_pointer:
  assumes "mouse_wf m"
  shows "VGA_Write (sint (old_mouse_x (mouse m))) (sint (old_mouse_y (mouse m))) (Some c) m
    = Done () (case pointer_at (mouse m) of None \<Rightarrow> m
        | Some (x, y) \<Rightarrow> ram_update (vga_put x y (vch c, vcol c)) m)"
proof (cases "pointer_at (mouse m)")
  case None
  with assms show ?thesis
    by (simp add: mouse_wf_def VGA_Write_def VGA_WriteChar_def vga_off_def in_int32_def ret_def Let_def)
next
  case (Some p)
  then have o: "on_screen (old_mouse_x (mouse m)) (old_mouse_y (mouse m))"
    by (simp add: pointer_at_def split: if_splits)
  then obtain x y where xy: "sint (old_mouse_x (mouse m)) = int x" "sint (old_mouse_y (mouse m)) = int y" "x < 80" "y < 25"
    unfolding on_screen_def by (metis nat_0_le nat_less_iff of_nat_numeral nat_int of_nat_less_iff)
  with Some o have "p = (x, y)" by (simp add: pointer_at_def)
  with xy Some show ?thesis by (simp add: VGA_Write_def VGA_WriteChar_put modify_def)
qed

lemma mouse_draw_done:
  assumes wf: "mouse_wf m" and x: "sint (mouse_x (mouse m)) = int x" "x < 80"
    and y: "sint (mouse_y (mouse m)) = int y" "y < 25"
  shows "\<exists>m1. mouse_draw m = Done () m1 \<and> mouse_wf m1
    \<and> pointer_at (mouse m1) = Some (x, y) \<and> drawn m x y m1
    \<and> mouse_x (mouse m1) = mouse_x (mouse m) \<and> mouse_y (mouse m1) = mouse_y (mouse m)
    \<and> (\<forall>x' < 80. \<forall>y' < 25. picture m1 x' y' = picture m x' y')"
proof -
  let ?s = "mouse m"
  define r where "r = (case pointer_at ?s of None \<Rightarrow> ram m
    | Some (x, y) \<Rightarrow> vga_put x y (vch (saved_char ?s), vcol (saved_char ?s)) (ram m))"
  have cell: "vga_cell x' y' r = picture m x' y'" if "x' < 80" "y' < 25" for x' y'
  proof (cases "pointer_at ?s")
    case None
    then show ?thesis by (simp add: r_def picture_def)
  next
    case (Some p)
    then obtain a b where "p = (a, b)" "a < 80" "b < 25"
      by (auto simp: pointer_at_def on_screen_def nat_less_iff split: if_splits)
    with Some that show ?thesis by (auto simp: r_def picture_def vga.cell_put)
  qed
  define c where "c = vga_cell x y r"
  define m1 where "m1 = m\<lparr>ram := vga_put x y (fst c, invert_color (snd c)) r,
    mouse := ?s\<lparr>saved_char := \<lparr>vch = fst c, vcol = snd c\<rparr>, old_mouse_x := mouse_x ?s, old_mouse_y := mouse_y ?s\<rparr>\<rparr>"
  have w: "VGA_Write (sint (old_mouse_x ?s)) (sint (old_mouse_y ?s)) (Some (saved_char ?s)) m = Done () (m\<lparr>ram := r\<rparr>)"
    unfolding VGA_Write_pointer [OF wf] r_def using ram_update_eq by (auto split: option.splits)
  have "VGA_Read (int x) (int y) (m\<lparr>ram := r\<rparr>) = Done \<lparr>vch = fst c, vcol = snd c\<rparr> (m\<lparr>ram := r\<rparr>)"
    using VGA_Read_cell [OF x(2) y(2), of "m\<lparr>ram := r\<rparr>"] by (simp add: c_def)
  moreover have "VGA_WriteChar (int x) (int y) a b m' = Done () (m'\<lparr>ram := vga_put x y (a, b) (ram m')\<rparr>)" for a b m'
    using VGA_WriteChar_put [OF x(2) y(2), of a b] ram_update_eq [of "vga_put x y (a, b)" m'] by (simp add: modify_def)
  ultimately have "mouse_draw m = Done () m1"
    by (simp add: mouse_draw_def bind_def [of "VGA_Write _ _ _"] w bind_def [of "VGA_Read _ _"] x(1) y(1) m1_def)
  moreover have p: "pointer_at (mouse m1) = Some (x, y)"
    using x y by (simp add: m1_def pointer_at_def on_screen_def)
  moreover have "mouse_wf m1"
    using wf p by (simp add: mouse_wf_def) (simp add: m1_def)
  moreover have "picture m1 x' y' = picture m x' y'" if "x' < 80" "y' < 25" for x' y'
    using p cell [OF that] cell [OF x(2) y(2)] that x(2) y(2)
    by (auto simp: picture_def [of m1] vga.cell_put) (auto simp: m1_def c_def vga.cell_put)
  moreover have "drawn m x y m1"
    using cell [OF x(2) y(2)] x(2) y(2) by (simp add: drawn_def m1_def vga.cell_put c_def)
  ultimately show ?thesis by (auto simp: m1_def)
qed

lemma picture_mouse_cong:
  "pointer_at (mouse m1) = pointer_at (mouse m) \<Longrightarrow> saved_char (mouse m1) = saved_char (mouse m) \<Longrightarrow> ram m1 = ram m
   \<Longrightarrow> picture m1 = picture m"
  by (rule ext)+ (simp add: picture_def)

lemma int_of_range: "0 \<le> z \<Longrightarrow> z < int n \<Longrightarrow> \<exists>k. z = int k \<and> k < n"
  by (metis nat_0_le nat_less_iff)

text \<open>The three bytes of a packet, as the data port gives them one after the other.\<close>

definition packet :: "machine \<Rightarrow> u8 \<times> u8 \<times> u8" where
  "packet m = (let b0 = hw m (trace m) 0x60; t1 = trace m @ [In8 0x60 b0];
     b1 = hw m t1 0x60; b2 = hw m (t1 @ [In8 0x60 b1]) 0x60 in (b0, b1, b2))"

lemma read_data_Done: "PS2_read_data m = Done (hw m (trace m) 0x60) (m\<lparr>trace := trace m @ [In8 0x60 (hw m (trace m) 0x60)]\<rparr>)"
  by (simp add: PS2_read_data_def PS2_DATA_PORT_def inb_def Let_def)

text \<open>The movement of a packet, stopped at the borders.\<close>

lemma mouse_move_clamped:
  assumes wf: "mouse_wf m"
  shows "sint (mouse_x (mouse_move b0 b1 b2 (mouse m))) = max 0 (min 79 (sint (mouse_x (mouse m)) + packet_dx b0 b1))"
    "sint (mouse_y (mouse_move b0 b1 b2 (mouse m))) = max 0 (min 24 (sint (mouse_y (mouse m)) - packet_dy b0 b2))"
proof -
  let ?s = "mouse_move b0 b1 b2 (mouse m)"
  have mv: "mouse_x ?s = mouse_clamp (of_int (sint (mouse_x (mouse m)) + packet_dx b0 b1)) 80"
    "mouse_y ?s = mouse_clamp (of_int (sint (mouse_y (mouse m)) - packet_dy b0 b2)) 25"
    by (simp_all add: mouse_move_def mouse_delta_eq VGA_TEXT_MODE_3_COLS_def VGA_TEXT_MODE_3_ROWS_def)
  have old: "0 \<le> sint (mouse_x (mouse m))" "sint (mouse_x (mouse m)) < 80"
    "0 \<le> sint (mouse_y (mouse m))" "sint (mouse_y (mouse m)) < 25"
    using wf by (simp_all add: mouse_wf_def on_screen_def)
  show "sint (mouse_x ?s) = max 0 (min 79 (sint (mouse_x (mouse m)) + packet_dx b0 b1))"
    unfolding mv using old packet_range [of b0 b1] by (subst mouse_clamp_value) linarith+
  show "sint (mouse_y ?s) = max 0 (min 24 (sint (mouse_y (mouse m)) - packet_dy b0 b2))"
    unfolding mv using old packet_range [of b0 b2] by (subst mouse_clamp_value) linarith+
qed

lemma mouse_handler_result:
  assumes wf: "mouse_wf m" and pk: "packet m = (b0, b1, b2)"
  shows "\<exists>m1. mouse_handler m = Done () m1 \<and> mouse_wf m1
    \<and> (\<forall>x < 80. \<forall>y < 25. picture m1 x y = picture m x y)
    \<and> (if b0 AND 8 = 0 then mouse m1 = mouse m \<and> ram m1 = ram m
       else \<exists>x y. x < 80 \<and> y < 25 \<and> pointer_at (mouse m1) = Some (x, y)
         \<and> int x = max 0 (min 79 (sint (mouse_x (mouse m)) + packet_dx b0 b1))
         \<and> int y = max 0 (min 24 (sint (mouse_y (mouse m)) - packet_dy b0 b2))
         \<and> sint (mouse_x (mouse m1)) = int x \<and> sint (mouse_y (mouse m1)) = int y
         \<and> (pointer_at (mouse m) = Some (x, y) \<or> drawn m x y m1))"
proof (cases "b0 AND 8 = 0")
  case True
  then show ?thesis
    using pk wf
    by (auto simp: mouse_handler_def bind_def [of PS2_read_data] read_data_Done packet_def Let_def ret_def
        mouse_wf_def picture_def)
next
  case False
  let ?s = "mouse_move b0 b1 b2 (mouse m)"
  define m' where "m' = m\<lparr>trace := trace m @ [In8 0x60 b0, In8 0x60 b1, In8 0x60 b2], mouse := ?s\<rparr>"
  have b: "hw m (trace m) 0x60 = b0" "hw m (trace m @ [In8 0x60 b0]) 0x60 = b1"
    "hw m (trace m @ [In8 0x60 b0, In8 0x60 b1]) 0x60 = b2"
    using pk by (auto simp: packet_def Let_def)
  have h: "mouse_handler m = (if old_mouse_x ?s = mouse_x ?s \<and> old_mouse_y ?s = mouse_y ?s then ret () else mouse_draw) m'"
    using False
    by (simp add: mouse_handler_def bind_def [of PS2_read_data] read_data_Done b m'_def)
  note sx = mouse_move_clamped(1) [OF wf, of b0 b1 b2] and sy = mouse_move_clamped(2) [OF wf, of b0 b1 b2]
  obtain x y where xy: "sint (mouse_x ?s) = int x" "x < 80" "sint (mouse_y ?s) = int y" "y < 25"
  proof -
    have "0 \<le> sint (mouse_x ?s)" "sint (mouse_x ?s) < int 80" "0 \<le> sint (mouse_y ?s)" "sint (mouse_y ?s) < int 25"
      unfolding sx sy by linarith+
    with that show thesis using int_of_range by blast
  qed
  have p': "pointer_at ?s = pointer_at (mouse m)" "saved_char ?s = saved_char (mouse m)"
    by (simp_all add: pointer_at_def mouse_move_def)
  have wf': "mouse_wf m'"
    using wf xy p' by (simp add: mouse_wf_def m'_def on_screen_def) (simp add: mouse_move_def)
  have pic: "picture m' = picture m"
    by (rule picture_mouse_cong) (simp_all add: m'_def p')
  show ?thesis
  proof (cases "old_mouse_x ?s = mouse_x ?s \<and> old_mouse_y ?s = mouse_y ?s")
    case True
    then have "pointer_at ?s = Some (x, y)" using xy by (simp add: pointer_at_def on_screen_def)
    with True False xy wf' pic p' show ?thesis
      by (intro exI [of _ m']) (auto simp: h ret_def sx [symmetric] sy [symmetric], auto simp: m'_def)
  next
    case same: False
    obtain m1 where m1: "mouse_draw m' = Done () m1" "mouse_wf m1" "pointer_at (mouse m1) = Some (x, y)"
      "drawn m' x y m1" "mouse_x (mouse m1) = mouse_x ?s" "mouse_y (mouse m1) = mouse_y ?s"
      "\<forall>x' < 80. \<forall>y' < 25. picture m1 x' y' = picture m x' y'"
      using mouse_draw_done [OF wf', of x y] xy pic by (auto simp: m'_def)
    moreover have "mouse_handler m = Done () m1" using same m1(1) by (simp only: h if_False)
    moreover have "drawn m x y m1" using m1(4) by (simp add: drawn_def pic)
    ultimately show ?thesis
      using False xy by (intro exI [of _ m1]) (auto simp: sx [symmetric] sy [symmetric])
  qed
qed

section \<open>Properties\<close>

text \<open>
  C9. The mouse handler always returns.  It ignores a byte that does not start a packet; for a
  packet it moves the pointer by the two 9-bit movements (up is negative), stops it at the
  borders of the screen, and shows it there by inverting the colours of the cell, while the
  picture under the pointer is never damaged: every cell it covered is restored.
\<close>

theorem mouse_handler_correct:
  assumes "mouse_wf m" "packet m = (b0, b1, b2)"
  shows "\<exists>m1. mouse_handler m = Done () m1 \<and> mouse_wf m1
    \<and> (\<forall>x < 80. \<forall>y < 25. picture m1 x y = picture m x y)
    \<and> (if b0 AND 8 = 0 then mouse m1 = mouse m \<and> ram m1 = ram m
       else \<exists>x y. x < 80 \<and> y < 25 \<and> pointer_at (mouse m1) = Some (x, y)
         \<and> int x = max 0 (min 79 (sint (mouse_x (mouse m)) + packet_dx b0 b1))
         \<and> int y = max 0 (min 24 (sint (mouse_y (mouse m)) - packet_dy b0 b2))
         \<and> sint (mouse_x (mouse m1)) = int x \<and> sint (mouse_y (mouse m1)) = int y
         \<and> (pointer_at (mouse m) = Some (x, y) \<or> drawn m x y m1))"
  by (rule mouse_handler_result [OF assms])

theorem mouse_handler_correct_witness:
  "\<forall>m. \<exists>m1. mouse_handler (m\<lparr>mouse := mouse_state_init, hw := (\<lambda>_ _. 0x18)\<rparr>) = Done () m1
     \<and> pointer_at (mouse m1) = Some (0, 0)"
proof
  fix m :: machine
  let ?m = "m\<lparr>mouse := mouse_state_init, hw := (\<lambda>_ _. 0x18)\<rparr>"
  have i: "sint (mouse_x mouse_state_init) = 40" "sint (mouse_y mouse_state_init) = 12"
    "old_mouse_x mouse_state_init = - 1" "old_mouse_y mouse_state_init = - 1"
    by (simp_all add: mouse_state_init_def VGA_TEXT_MODE_3_COLS_def VGA_TEXT_MODE_3_ROWS_def)
  then have "mouse_wf ?m" unfolding mouse_wf_def on_screen_def by simp
  from mouse_handler_correct [OF this, of "0x18" "0x18" "0x18"] obtain m1 x y where
    "mouse_handler ?m = Done () m1" "pointer_at (mouse m1) = Some (x, y)"
    "int x = max 0 (min 79 (sint (mouse_x (mouse ?m)) + packet_dx 0x18 0x18))"
    "int y = max 0 (min 24 (sint (mouse_y (mouse ?m)) - packet_dy 0x18 0x18))"
    by (auto simp: packet_def Let_def)
  moreover have "packet_dx 0x18 0x18 = - 232" "packet_dy 0x18 0x18 = 24"
    by (simp_all add: packet_dx_def packet_dy_def bit_numeral_rec)
  ultimately show "\<exists>m1. mouse_handler ?m = Done () m1 \<and> pointer_at (mouse m1) = Some (0, 0)"
    by (simp add: i)
qed

end
