(* ===== verification/Keyboard.thy ===== *)
theory Keyboard
  imports Ps2
begin

text \<open>
  The keyboard side of \<^verbatim>\<open>drivers/ps2.c\<close>: the interrupt handler that fills the ring buffer,
  \<^verbatim>\<open>PS2_get_scancode\<close> that waits for a byte of it and \<^verbatim>\<open>PS2_get_char\<close> that decodes
  scancode set 2.
\<close>

section \<open>Definitions\<close>

definition keyboard_handler_scancode :: "unit K" where
  "keyboard_handler_scancode =
     bind PS2_polling_wait_until_is_ready (\<lambda>_.
     bind PS2_read_data (\<lambda>c. modify (\<lambda>m. m\<lparr>ring := PS2_ring_buf_push c (ring m)\<rparr>)))"

text \<open>
  The two nested loops of \<^verbatim>\<open>PS2_get_scancode\<close>, with the number of rounds of the outer one:
  after the inner loop the buffer is not empty, so the second round ends it.
\<close>

primrec get_scancode_loop :: "(ISR_registers_t \<Rightarrow> unit K) \<Rightarrow> nat \<Rightarrow> u8 K" where
  "get_scancode_loop irq 0 = stop Hang"
| "get_scancode_loop irq (Suc n) =
     bind (gets (\<lambda>m. PS2_ring_buf_pop (ring m))) (\<lambda>(res, q).
     bind (modify (\<lambda>m. m\<lparr>ring := q\<rparr>)) (\<lambda>_.
     case res of
       Some scancode \<Rightarrow> ret scancode
     | None \<Rightarrow> bind (wait_until (\<lambda>m. \<not> PS2_ring_buf_empty (ring m)) (ret ()) irq) (\<lambda>_. get_scancode_loop irq n)))"

definition PS2_get_scancode :: "(ISR_registers_t \<Rightarrow> unit K) \<Rightarrow> u8 K" where
  "PS2_get_scancode irq = get_scancode_loop irq 2"

record key_event_t =
  scancode :: u8
  released :: bool
  modifiers :: key_mod_t
  ascii :: u8

definition key_mod_none :: key_mod_t where
  "key_mod_none = \<lparr>lshift = False, rshift = False, lctrl = False, rctrl = False, lalt = False, ralt = False\<rparr>"

text \<open>
  One round of the loop of \<^verbatim>\<open>PS2_get_char\<close>: the byte \<open>c\<close>, the flag \<^verbatim>\<open>extended\<close>, the
  static \<^verbatim>\<open>mod\<close> and the event under construction.
\<close>

definition get_char_step :: "u8 \<Rightarrow> bool \<times> key_mod_t \<times> key_event_t \<Rightarrow> bool \<times> key_mod_t \<times> key_event_t" where
  "get_char_step c = (\<lambda>(extended, md, k).
     if c = 0xE0 then (True, md, k)
     else if c = 0xF0 then (extended, md, k\<lparr>released := True\<rparr>)
     else if extended then
       (if c = 0x14 then (extended, md\<lparr>rctrl := True\<rparr>, k)
        else if c = 0x11 then (extended, md\<lparr>ralt := True\<rparr>, k)
        else (extended, md, k\<lparr>scancode := c\<rparr>))
     else
       (if c = 0xE0 then (True, md, k)
        else if c = 0x12 then (extended, md\<lparr>lshift := True\<rparr>, k)
        else if c = 0x59 then (extended, md\<lparr>rshift := True\<rparr>, k)
        else if c = 0x14 then (extended, md\<lparr>lctrl := True\<rparr>, k)
        else if c = 0x11 then (extended, md\<lparr>lalt := True\<rparr>, k)
        else (extended, md, k\<lparr>scancode := c\<rparr>)))"

text \<open>The switch that fills in \<^verbatim>\<open>ascii\<close>.\<close>

definition key_ascii :: "key_event_t \<Rightarrow> u8" where
  "key_ascii k =
     (let shift = lshift (modifiers k) \<or> rshift (modifiers k); c = scancode k in
      if c = 0x16 then (if shift then of_char CHR ''!'' else of_char CHR ''1'')
      else if c = 0x1E then (if shift then of_char CHR ''@'' else of_char CHR ''2'')
      else if c = 0x26 then (if shift then of_char CHR ''#'' else of_char CHR ''3'')
      else if c = 0x25 then (if shift then of_char CHR ''$'' else of_char CHR ''4'')
      else if c = 0x2E then (if shift then of_char CHR ''%'' else of_char CHR ''5'')
      else if c = 0x36 then (if shift then of_char CHR ''^'' else of_char CHR ''6'')
      else if c = 0x3D then (if shift then of_char CHR ''&'' else of_char CHR ''7'')
      else if c = 0x3E then (if shift then of_char CHR ''*'' else of_char CHR ''8'')
      else if c = 0x46 then (if shift then of_char CHR ''('' else of_char CHR ''9'')
      else if c = 0x45 then (if shift then of_char CHR '')'' else of_char CHR ''0'')
      else 0)"

definition get_char_finish :: "key_mod_t \<Rightarrow> key_event_t \<Rightarrow> key_event_t" where
  "get_char_finish md k =
     (let k1 = k\<lparr>ascii := 0, modifiers := md\<rparr> in
      if released k1 then k1 else k1\<lparr>ascii := key_ascii k1\<rparr>)"


definition key_event_zero :: key_event_t where
  "key_event_zero = \<lparr>scancode = 0, released = False, modifiers = key_mod_none, ascii = 0\<rparr>"


section \<open>Reference\<close>



text \<open>A code of a key that is not a modifier, with or without the prefix \<^verbatim>\<open>0xE0\<close>.\<close>

definition plain_key :: "bool \<Rightarrow> u8 \<Rightarrow> bool" where
  "plain_key extended c \<longleftrightarrow> c \<notin> {0, 0xE0, 0xF0, 0x11, 0x14} \<and> (extended \<or> c \<notin> {0x12, 0x59})"

text \<open>
  What comes before the code of the key in a stream of scancodes.  \<open>extended\<close> says whether a
  prefix \<^verbatim>\<open>0xE0\<close> has been seen; from the first one on, the bytes are codes of the extended keys.
\<close>

definition unextended :: "bool \<Rightarrow> u8 list \<Rightarrow> u8 list" where
  "unextended extended bs = (if extended then [] else takeWhile (\<lambda>b. b \<noteq> 0xE0) bs)"

definition extended_part :: "bool \<Rightarrow> u8 list \<Rightarrow> u8 list" where
  "extended_part extended bs = (if extended then bs else dropWhile (\<lambda>b. b \<noteq> 0xE0) bs)"

text \<open>The bytes before the key: prefixes, modifier keys, and the code 0 of no key.\<close>

definition before_key :: "bool \<Rightarrow> u8 list \<Rightarrow> bool" where
  "before_key extended bs \<longleftrightarrow> set (unextended extended bs) \<subseteq> {0, 0xF0, 0x12, 0x59, 0x14, 0x11}
     \<and> set (extended_part extended bs) \<subseteq> {0, 0xE0, 0xF0, 0x14, 0x11}"


text \<open>The rounds of the loop over the bytes in the buffer; \<open>None\<close> when they do not suffice.\<close>

primrec decode_keys :: "u8 list \<Rightarrow> bool \<times> key_mod_t \<times> key_event_t \<Rightarrow> (key_mod_t \<times> key_event_t \<times> u8 list) option" where
  "decode_keys [] st = None"
| "decode_keys (c # cs) st =
     (let st1 = get_char_step c st in
      if scancode (snd (snd st1)) \<noteq> 0 then Some (fst (snd st1), snd (snd st1), cs) else decode_keys cs st1)"

section \<open>Lemmas\<close>

lemma pop_cons:
  assumes "ring_wf q" "ring_list q = c # cs"
  shows "\<exists>q1. PS2_ring_buf_pop q = (Some c, q1) \<and> ring_wf q1 \<and> ring_list q1 = cs"
  using ring.pop_some [OF assms(1)] ring.wf_pop [OF assms(1)] assms(2)
  by (intro exI [of _ "snd (PS2_ring_buf_pop q)"]) (simp add: prod_eq_iff)


text \<open>Empty buffer: the answer is what the wait leaves at its front.\<close>

lemma get_scancode_later:
  assumes "ring_wf (ring m)" "ring_list (ring m) = []"
    and "wait_until (\<lambda>m. \<not> PS2_ring_buf_empty (ring m)) (ret ()) irq m = Done () m1" "ring_wf (ring m1)"
  shows "\<exists>c q. PS2_get_scancode irq m = Done c (m1\<lparr>ring := q\<rparr>) \<and> ring_wf q \<and> ring_list (ring m1) = c # ring_list q"
proof -
  have "\<not> PS2_ring_buf_empty (ring m1)"
    using wait_loop_ready [OF assms(3) [unfolded wait_until_def]] .
  then obtain c cs where c: "ring_list (ring m1) = c # cs"
    using ring_empty_iff [OF assms(4)] by (cases "ring_list (ring m1)") auto
  obtain q where q: "PS2_ring_buf_pop (ring m1) = (Some c, q)" "ring_wf q" "ring_list q = cs"
    using pop_cons [OF assms(4) c] by blast
  have "PS2_ring_buf_pop (ring m) = (None, ring m)" by (rule ring.pop_empty [OF assms(1,2)])
  then show ?thesis
    using q c
    by (intro exI [of _ c] exI [of _ q])
       (simp add: PS2_get_scancode_def numeral_2_eq_2 ret_def bind_def [of "wait_until _ _ _"] assms(3))
qed



lemma stream_parts [simp]:
  "unextended e [] = []" "extended_part e [] = []" "unextended True bs = []" "extended_part True bs = bs"
  "unextended e (b # bs) = (if e \<or> b = 0xE0 then [] else b # unextended False bs)"
  "extended_part e (b # bs) = (if e \<or> b = 0xE0 then b # bs else extended_part False bs)"
  by (simp_all add: unextended_def extended_part_def)

lemma before_key_simps [simp]:
  "before_key e []"
  "before_key e (b # bs) \<longleftrightarrow> b \<in> {0, 0xE0, 0xF0, 0x14, 0x11} \<union> (if e then {} else {0x12, 0x59}) \<and> before_key (e \<or> b = 0xE0) bs"
  by (auto simp: before_key_def unextended_def)

text \<open>Every stream is such bytes alone, or such bytes, the code of a key and a rest.\<close>

lemma stream_cases:
  "before_key e bs \<or> (\<exists>pre c rest. bs = pre @ c # rest \<and> before_key e pre \<and> plain_key (e \<or> 0xE0 \<in> set pre) c)"
proof (induction bs arbitrary: e)
  case Nil
  show ?case by simp
next
  case (Cons b bs)
  show ?case
  proof (cases "plain_key e b")
    case True
    then show ?thesis by (intro disjI2 exI [of _ "[]"] exI [of _ b] exI [of _ bs]) simp
  next
    case False
    then have b: "b \<in> {0, 0xE0, 0xF0, 0x14, 0x11} \<union> (if e then {} else {0x12, 0x59})"
      by (auto simp: plain_key_def)
    from Cons.IH [of "e \<or> b = 0xE0"] show ?thesis
    proof (elim disjE exE conjE)
      fix pre c rest
      assume "bs = pre @ c # rest" "before_key (e \<or> b = 0xE0) pre" "plain_key ((e \<or> b = 0xE0) \<or> 0xE0 \<in> set pre) c"
      with b show ?thesis
        by (intro disjI2 exI [of _ "b # pre"] exI [of _ c] exI [of _ rest]) (auto simp: plain_key_def)
    qed (use b in simp)
  qed
qed





text \<open>The modifiers only grow.\<close>

definition mods_le :: "key_mod_t \<Rightarrow> key_mod_t \<Rightarrow> bool" where
  "mods_le a b \<longleftrightarrow> (lshift a \<longrightarrow> lshift b) \<and> (rshift a \<longrightarrow> rshift b) \<and> (lctrl a \<longrightarrow> lctrl b)
     \<and> (rctrl a \<longrightarrow> rctrl b) \<and> (lalt a \<longrightarrow> lalt b) \<and> (ralt a \<longrightarrow> ralt b)"

lemma mods_le_refl [simp]: "mods_le a a"
  by (simp add: mods_le_def)

lemma mods_grow: "decode_keys cs (e, md, k) = Some (md1, k1, rest) \<Longrightarrow> mods_le md md1"
proof (induction cs arbitrary: e md k)
  case Nil
  then show ?case by simp
next
  case (Cons c cs)
  obtain e1 md' k' where st: "get_char_step c (e, md, k) = (e1, md', k')" by (metis prod_cases3)
  then have "mods_le md md'" by (auto simp: get_char_step_def mods_le_def split: if_splits)
  moreover have "mods_le md' md1"
    using Cons.prems Cons.IH [of e1 md' k'] by (auto simp: st Let_def split: if_splits)
  ultimately show ?case unfolding mods_le_def by blast
qed

text \<open>The keyboard's interrupt request, on a machine whose controller has the byte \<open>c\<close> ready.\<close>

lemma keyboard_handler_done:
  assumes "\<forall>t. hw m t 0x64 AND 1 \<noteq> 0 \<and> hw m t 0x60 = c"
  shows "\<exists>t. keyboard_handler_scancode m = Done () (m\<lparr>trace := trace m @ t, ring := PS2_ring_buf_push c (ring m)\<rparr>)"
proof -
  let ?s = "hw m (trace m) 0x64"
  have "PS2_ready_loop n m = Done () (m\<lparr>trace := trace m @ [In8 0x64 ?s]\<rparr>)" if "0 < n" for n
    using that assms
    by (cases n) (simp_all add: PS2_read_status_def PS2_STATUS_def bind_def inb_def ret_def Let_def)
  then show ?thesis
    using assms
    by (intro exI [of _ "[In8 0x64 ?s, In8 0x60 c]"])
       (simp add: keyboard_handler_scancode_def PS2_polling_wait_until_is_ready_def PS2_POLL_TIMEOUT_pos
         bind_def [of "PS2_ready_loop _"] PS2_read_data_def PS2_DATA_PORT_def inb_def bind_def [of "inb _"] modify_def Let_def)
qed

lemma keyboard_irq:
  assumes "length (isr_handlers m) = 256" "isr_handlers m ! 33 = Some Keyboard_handler"
    and "call Keyboard_handler = (\<lambda>_. keyboard_handler_scancode)" "int_no r = 1"
    and "\<forall>t. hw m t 0x64 AND 1 \<noteq> 0 \<and> hw m t 0x60 = c" "iflag m"
  shows "\<exists>t. IRQ_stub call r m = Done () (m\<lparr>iflag := True, trace := trace m @ [Cli, Out8 0x20 0x20] @ t @ [Sti],
    ring := PS2_ring_buf_push c (ring m)\<rparr>)"
proof -
  let ?m = "m\<lparr>trace := trace m @ [Cli], iflag := False\<rparr>" and ?m' = "m\<lparr>iflag := False, trace := trace m @ [Cli, Out8 0x20 0x20]\<rparr>"
  obtain t where t: "keyboard_handler_scancode ?m' = Done () (?m'\<lparr>trace := trace ?m' @ t, ring := PS2_ring_buf_push c (ring ?m')\<rparr>)"
    using keyboard_handler_done [of ?m' c] assms(5) by auto
  have r: "r\<lparr>int_no := 1\<rparr> = r" using assms(4) by simp
  have "IRQ_UniversalHandler call r ?m = keyboard_handler_scancode ?m'"
    using IRQ_UniversalHandler_eq [of 1 call r ?m] assms r by simp
  with t show ?thesis
    by (intro exI [of _ t])
       (simp add: IRQ_stub_on [OF assms(6)] cli_def sti_def log_def bind_assoc bind_def [of "IRQ_UniversalHandler _ _"] modify_def)
qed

section \<open>Properties\<close>



text \<open>
  Releasing a modifier does not release it.  No sequence of bytes ever clears a modifier,
  and a key pressed after the left shift was pressed and released is reported as released, with
  the shift on and without a character.
\<close>

theorem PS2_get_char_release_defect:
  "mods_le md (case decode_keys cs (e, md, k) of None \<Rightarrow> md | Some (md1, _) \<Rightarrow> md1)
   \<and> decode_keys [0x12, 0xF0, 0x12, 0x16] (False, key_mod_none, key_event_zero)
     = Some (key_mod_none\<lparr>lshift := True\<rparr>, key_event_zero\<lparr>scancode := 0x16, released := True\<rparr>, [])
   \<and> ascii (get_char_finish (key_mod_none\<lparr>lshift := True\<rparr>) (key_event_zero\<lparr>scancode := 0x16, released := True\<rparr>)) = 0"
proof (intro conjI)
  show "mods_le md (case decode_keys cs (e, md, k) of None \<Rightarrow> md | Some (md1, _) \<Rightarrow> md1)"
    by (auto split: option.splits intro: mods_grow)
qed (simp_all add: get_char_step_def key_event_zero_def get_char_finish_def Let_def)

text \<open>
  C34. A reader that waits for a key is woken by it: with an empty buffer, interrupts on and the
  handler registered, the first keyboard interrupt makes \<^verbatim>\<open>PS2_get_scancode\<close> return the byte
  the controller delivers, with the interrupt acknowledged and the buffer empty again.
\<close>

theorem PS2_get_scancode_wakes:
  assumes "ring_wf (ring m)" "ring_list (ring m) = []" "iflag m"
    and "length (isr_handlers m) = 256" "isr_handlers m ! 33 = Some Keyboard_handler"
    and "call Keyboard_handler = (\<lambda>_. keyboard_handler_scancode)" "irq_sched m = [r] # rest" "int_no r = 1"
    and "\<forall>t. hw m t 0x64 AND 1 \<noteq> 0 \<and> hw m t 0x60 = c"
  shows "\<exists>m1. PS2_get_scancode (IRQ_stub call) m = Done c m1 \<and> ring_list (ring m1) = []
    \<and> Out8 0x20 0x20 \<in> set (trace m1) \<and> irq_sched m1 = rest"
proof -
  let ?ready = "\<lambda>m. \<not> PS2_ring_buf_empty (ring m)"
  obtain t where t: "IRQ_stub call r (m\<lparr>irq_sched := rest\<rparr>) = Done () (m\<lparr>irq_sched := rest\<rparr>\<lparr>iflag := True,
      trace := trace m @ [Cli, Out8 0x20 0x20] @ t @ [Sti], ring := PS2_ring_buf_push c (ring m)\<rparr>)" (is "_ = Done () ?m1")
    using keyboard_irq [of "m\<lparr>irq_sched := rest\<rparr>" call r c] assms(3-6,8,9) by auto
  have wf: "ring_wf (ring ?m1)" "ring_list (ring ?m1) = [c]"
    using ring.wf_push [OF assms(1)] ring.push_room [OF assms(1)] assms(2) by simp_all
  then have ready: "?ready ?m1" "\<not> ?ready m" using ring_empty_iff assms(1,2) by auto
  then have "wait_loop ?ready (ret ()) (IRQ_stub call) rest ?m1 = Done () ?m1" by (cases rest) auto
  then have w: "wait_until ?ready (ret ()) (IRQ_stub call) m = Done () ?m1"
    using ready(2) assms(3) by (simp add: wait_until_def assms(7) bind_def [of "IRQ_stub _ _"] t)
  obtain d q where "PS2_get_scancode (IRQ_stub call) m = Done d (?m1\<lparr>ring := q\<rparr>)" "ring_list (ring ?m1) = d # ring_list q"
    using get_scancode_later [OF assms(1,2) w wf(1)] by blast
  with wf(2) show ?thesis by simp
qed

theorem PS2_get_scancode_wakes_witness:
  "\<forall>m r. \<exists>m1. PS2_get_scancode (IRQ_stub (\<lambda>_ _. keyboard_handler_scancode))
      (m\<lparr>ring := ring_buf_init, iflag := True, isr_handlers := replicate 256 (Some Keyboard_handler),
         irq_sched := [[r\<lparr>int_no := 1\<rparr>]], hw := (\<lambda>_ _. 0x1D)\<rparr>) = Done 0x1D m1"
proof (intro allI)
  fix m :: machine and r
  have "(0x1D :: u8) AND 1 \<noteq> 0" by simp
  then show "\<exists>m1. PS2_get_scancode (IRQ_stub (\<lambda>_ _. keyboard_handler_scancode))
      (m\<lparr>ring := ring_buf_init, iflag := True, isr_handlers := replicate 256 (Some Keyboard_handler),
         irq_sched := [[r\<lparr>int_no := 1\<rparr>]], hw := (\<lambda>_ _. 0x1D)\<rparr>) = Done 0x1D m1"
    using PS2_get_scancode_wakes [of "m\<lparr>ring := ring_buf_init, iflag := True, isr_handlers := replicate 256 (Some Keyboard_handler),
         irq_sched := [[r\<lparr>int_no := 1\<rparr>]], hw := (\<lambda>_ _. 0x1D)\<rparr>" "\<lambda>_ _. keyboard_handler_scancode" "r\<lparr>int_no := 1\<rparr>" "[]" "0x1D"]
    by (auto simp: ring_wf_init ring_list_init)
qed

end
