(* ===== verification/Fdc.thy ===== *)
theory Fdc
  imports Pit Dma Console "HOL-Library.Signed_Division"
begin

text \<open>
  \<^verbatim>\<open>drivers/fdc.{h,c}\<close>: the floppy disk controller.  The waits take the function \<open>irq\<close> that
  runs the stub of an interrupt request.
\<close>

section \<open>Definitions\<close>

definition FDC_file :: string where "FDC_file = ''src/drivers/fdc.c''"

definition FDC_RETRIES :: nat where "FDC_RETRIES = 500"
definition FDC_SLEEP_TIME :: u32 where "FDC_SLEEP_TIME = 5"
definition FDC_SECTORS_PER_TRACK :: int where "FDC_SECTORS_PER_TRACK = 18"
definition FDC_DMA_CHANNEL :: u8 where "FDC_DMA_CHANNEL = 2"
definition FDC_DMA_BUF_SIZE :: u32 where "FDC_DMA_BUF_SIZE = 512"

definition FDC_IO_DOR :: u16 where "FDC_IO_DOR = 0x3F2"
definition FDC_IO_MSR :: u16 where "FDC_IO_MSR = 0x3F4"
definition FDC_IO_DR :: u16 where "FDC_IO_DR = 0x3F5"
definition FDC_IO_CCR :: u16 where "FDC_IO_CCR = 0xF7"

definition FDC_MASK_DOR_RESET :: u8 where "FDC_MASK_DOR_RESET = 4"
definition FDC_MASK_DOR_DMA :: u8 where "FDC_MASK_DOR_DMA = 8"
definition FDC_MASK_DOR_DRIVE0_MOTOR :: u8 where "FDC_MASK_DOR_DRIVE0_MOTOR = 16"
definition FDC_MASK_DOR_DRIVE1_MOTOR :: u8 where "FDC_MASK_DOR_DRIVE1_MOTOR = 32"
definition FDC_MASK_DOR_DRIVE2_MOTOR :: u8 where "FDC_MASK_DOR_DRIVE2_MOTOR = 64"
definition FDC_MASK_DOR_DRIVE3_MOTOR :: u8 where "FDC_MASK_DOR_DRIVE3_MOTOR = 128"
definition FDC_MASK_MSR_DATAREG :: u8 where "FDC_MASK_MSR_DATAREG = 128"

definition FDC_CMD_SPECIFY :: u8 where "FDC_CMD_SPECIFY = 3"
definition FDC_CMD_READ_SECT :: u8 where "FDC_CMD_READ_SECT = 6"
definition FDC_CMD_CALIBRATE :: u8 where "FDC_CMD_CALIBRATE = 7"
definition FDC_CMD_CHECK_INT :: u8 where "FDC_CMD_CHECK_INT = 8"
definition FDC_CMD_SEEK :: u8 where "FDC_CMD_SEEK = 0xF"
definition FDC_CMD_EXT_SKIP :: u8 where "FDC_CMD_EXT_SKIP = 0x20"
definition FDC_CMD_EXT_DENSITY :: u8 where "FDC_CMD_EXT_DENSITY = 0x40"
definition FDC_CMD_EXT_MULTITRACK :: u8 where "FDC_CMD_EXT_MULTITRACK = 0x80"
definition FDC_GAP3_LENGTH_3_5 :: u8 where "FDC_GAP3_LENGTH_3_5 = 27"
definition FDC_SECTOR_DTL_512 :: u8 where "FDC_SECTOR_DTL_512 = 2"

definition fdc_state_init :: fdc_state where
  "fdc_state_init = \<lparr>fdc_irq = False, dma_buf = 0x600\<rparr>"

lemmas fdc_codes = FDC_IO_DOR_def FDC_IO_MSR_def FDC_IO_DR_def FDC_IO_CCR_def FDC_MASK_DOR_RESET_def
  FDC_MASK_DOR_DMA_def FDC_MASK_DOR_DRIVE0_MOTOR_def FDC_MASK_DOR_DRIVE1_MOTOR_def
  FDC_MASK_DOR_DRIVE2_MOTOR_def FDC_MASK_DOR_DRIVE3_MOTOR_def FDC_MASK_MSR_DATAREG_def
  FDC_CMD_SPECIFY_def FDC_CMD_READ_SECT_def FDC_CMD_CALIBRATE_def FDC_CMD_CHECK_INT_def FDC_CMD_SEEK_def
  FDC_CMD_EXT_SKIP_def FDC_CMD_EXT_DENSITY_def FDC_CMD_EXT_MULTITRACK_def

definition set_fdc_irq :: "bool \<Rightarrow> unit K" where
  "set_fdc_irq b = modify (\<lambda>m. m\<lparr>fdc := (fdc m)\<lparr>fdc_irq := b\<rparr>\<rparr>)"

definition fdc_handler :: "unit K" where
  "fdc_handler = set_fdc_irq True"

definition fdc_dma_init :: "u32 \<Rightarrow> u32 \<Rightarrow> unit K" where
  "fdc_dma_init b len =
     (let l = len - 1 in exec [
        dma_mask_channel FDC_DMA_CHANNEL,
        dma_reset_flipflop 0,
        dma_set_address FDC_DMA_CHANNEL (ucast (b AND 0xFF)) (ucast (drop_bit 8 b AND 0xFF)),
        dma_set_external_page_register FDC_DMA_CHANNEL (ucast (drop_bit 16 b AND 0xFF)),
        dma_reset_flipflop 0,
        dma_set_count FDC_DMA_CHANNEL (ucast (l AND 0xFF)) (ucast (drop_bit 8 l AND 0xFF)),
        dma_set_read FDC_DMA_CHANNEL,
        dma_unmask_channel FDC_DMA_CHANNEL])"

subsection \<open>Talking to the controller\<close>

definition fdc_read_status :: "u8 K" where
  "fdc_read_status = inb FDC_IO_MSR"

text \<open>The two retry loops, with the number of iterations left.\<close>

primrec fdc_send_loop :: "nat \<Rightarrow> u8 \<Rightarrow> unit K" where
  "fdc_send_loop 0 cmd = ret ()"
| "fdc_send_loop (Suc n) cmd =
     bind fdc_read_status (\<lambda>s. if s AND FDC_MASK_MSR_DATAREG \<noteq> 0 then outb FDC_IO_DR cmd else fdc_send_loop n cmd)"

definition fdc_send_command :: "u8 \<Rightarrow> unit K" where
  "fdc_send_command cmd = fdc_send_loop FDC_RETRIES cmd"

text \<open>The byte stored through \<^verbatim>\<open>pData\<close>, or \<open>None\<close> for the result \<^verbatim>\<open>false\<close>.\<close>

primrec fdc_read_loop :: "nat \<Rightarrow> u8 option K" where
  "fdc_read_loop 0 = ret None"
| "fdc_read_loop (Suc n) =
     bind fdc_read_status (\<lambda>s. if s AND FDC_MASK_MSR_DATAREG \<noteq> 0 then bind (inb FDC_IO_DR) (\<lambda>d. ret (Some d))
       else fdc_read_loop n)"

definition fdc_read_data :: "u8 option K" where
  "fdc_read_data = fdc_read_loop FDC_RETRIES"

definition fdc_check_int :: "(u8 \<times> u8) K" where
  "fdc_check_int =
     bind (fdc_send_command FDC_CMD_CHECK_INT) (\<lambda>_.
     bind fdc_read_data (\<lambda>r0. case r0 of
       None \<Rightarrow> KERNEL_PANIC ''FDC unable to read data'' FDC_file 113
     | Some st0 \<Rightarrow> bind fdc_read_data (\<lambda>r1. case r1 of
         None \<Rightarrow> KERNEL_PANIC ''FDC unable to read data'' FDC_file 113
       | Some cyl \<Rightarrow> ret (st0, cyl))))"

definition fdc_wait_irq :: "(ISR_registers_t \<Rightarrow> unit K) \<Rightarrow> unit K" where
  "fdc_wait_irq irq = exec [wait_until (\<lambda>m. fdc_irq (fdc m)) (ret ()) irq, set_fdc_irq False]"

text \<open>\<^verbatim>\<open>data = (load_time) << 1 | (dma == true) ? 1 : 0\<close>\<close>

definition fdc_drive_data :: "u8 \<Rightarrow> u8 \<Rightarrow> u8 \<Rightarrow> bool \<Rightarrow> unit K" where
  "fdc_drive_data step_rate load_time unload_time dma = exec [
     fdc_send_command FDC_CMD_SPECIFY,
     fdc_send_command (push_bit 4 (step_rate AND 0xF) OR (unload_time AND 0xF)),
     fdc_send_command (if (push_bit 1 (ucast load_time) OR (if dma = True then 1 else 0) :: u32) \<noteq> 0 then 1 else 0)]"

definition fdc_motor_mask :: "u8 \<Rightarrow> u8 option" where
  "fdc_motor_mask drive =
     (if drive = 0 then Some FDC_MASK_DOR_DRIVE0_MOTOR
      else if drive = 1 then Some FDC_MASK_DOR_DRIVE1_MOTOR
      else if drive = 2 then Some FDC_MASK_DOR_DRIVE2_MOTOR
      else if drive = 3 then Some FDC_MASK_DOR_DRIVE3_MOTOR
      else None)"

definition fdc_control_motor :: "(ISR_registers_t \<Rightarrow> unit K) \<Rightarrow> u8 \<Rightarrow> bool \<Rightarrow> unit K" where
  "fdc_control_motor irq drive on =
     (if on then
        (case fdc_motor_mask drive of
           None \<Rightarrow> ret ()
         | Some motor \<Rightarrow> exec [
             outb FDC_IO_DOR (drive OR motor OR FDC_MASK_DOR_RESET OR FDC_MASK_DOR_DMA),
             sleep irq FDC_SLEEP_TIME])
      else exec [outb FDC_IO_DOR FDC_MASK_DOR_RESET, sleep irq FDC_SLEEP_TIME])"

subsection \<open>Drives\<close>

primrec fdc_calibrate_loop :: "(ISR_registers_t \<Rightarrow> unit K) \<Rightarrow> u8 \<Rightarrow> nat \<Rightarrow> bool K" where
  "fdc_calibrate_loop irq drive 0 = bind (fdc_control_motor irq drive False) (\<lambda>_. ret False)"
| "fdc_calibrate_loop irq drive (Suc n) =
     bind (exec [fdc_send_command FDC_CMD_CALIBRATE, fdc_send_command drive, fdc_wait_irq irq]) (\<lambda>_.
     bind fdc_check_int (\<lambda>(st0, cyl).
     if cyl = 0 then bind (fdc_control_motor irq drive False) (\<lambda>_. ret True)
     else fdc_calibrate_loop irq drive n))"

definition fdc_calibrate :: "(ISR_registers_t \<Rightarrow> unit K) \<Rightarrow> u8 \<Rightarrow> bool K" where
  "fdc_calibrate irq drive =
     (if drive \<ge> 4 then ret False
      else bind (fdc_control_motor irq drive True) (\<lambda>_. fdc_calibrate_loop irq drive 10))"

definition fdc_reset :: "(ISR_registers_t \<Rightarrow> unit K) \<Rightarrow> u8 \<Rightarrow> unit K" where
  "fdc_reset irq drive = exec [
     outb FDC_IO_DOR 0,
     outb FDC_IO_DOR (FDC_MASK_DOR_RESET OR FDC_MASK_DOR_DMA),
     fdc_wait_irq irq,
     for_each (\<lambda>i. bind fdc_check_int (\<lambda>_. ret ())) [0..<4],
     outb FDC_IO_CCR 0,
     fdc_drive_data 3 16 240 True,
     bind (fdc_calibrate irq drive) (\<lambda>ok.
       k_when (\<not> ok) (KERNEL_PANIC ''unable to calibrate floppy drive: {}'' FDC_file 230))]"

primrec fdc_seek_loop :: "(ISR_registers_t \<Rightarrow> unit K) \<Rightarrow> u8 \<Rightarrow> u8 \<Rightarrow> u8 \<Rightarrow> nat \<Rightarrow> bool K" where
  "fdc_seek_loop irq drive cyl hno 0 = ret False"
| "fdc_seek_loop irq drive cyl hno (Suc n) =
     bind (exec [fdc_send_command FDC_CMD_SEEK, fdc_send_command (push_bit 2 hno OR drive), fdc_send_command cyl,
       fdc_wait_irq irq]) (\<lambda>_.
     bind fdc_check_int (\<lambda>(st0, cyl0).
     if cyl0 = cyl then ret True else fdc_seek_loop irq drive cyl hno n))"

definition fdc_seek :: "(ISR_registers_t \<Rightarrow> unit K) \<Rightarrow> u8 \<Rightarrow> u8 \<Rightarrow> u8 \<Rightarrow> bool K" where
  "fdc_seek irq drive cyl hno = (if drive \<ge> 4 then ret False else fdc_seek_loop irq drive cyl hno 10)"

text \<open>\<^verbatim>\<open>((sector + 1) >= 18) ? 18 : sector + 1\<close> is computed in \<^verbatim>\<open>int\<close>.\<close>

definition fdc_read_sector_imp :: "(ISR_registers_t \<Rightarrow> unit K) \<Rightarrow> u8 \<Rightarrow> u8 \<Rightarrow> u8 \<Rightarrow> u8 \<Rightarrow> unit K" where
  "fdc_read_sector_imp irq drive hno track sector = exec [
     bind (gets (\<lambda>m. dma_buf (fdc m))) (\<lambda>b. fdc_dma_init b FDC_DMA_BUF_SIZE),
     dma_set_read FDC_DMA_CHANNEL,
     fdc_send_command (FDC_CMD_READ_SECT OR FDC_CMD_EXT_MULTITRACK OR FDC_CMD_EXT_SKIP OR FDC_CMD_EXT_DENSITY),
     fdc_send_command (push_bit 2 hno OR drive),
     fdc_send_command track,
     fdc_send_command hno,
     fdc_send_command sector,
     fdc_send_command FDC_SECTOR_DTL_512,
     fdc_send_command (of_int (if uint sector + 1 \<ge> FDC_SECTORS_PER_TRACK then FDC_SECTORS_PER_TRACK else uint sector + 1)),
     fdc_send_command FDC_GAP3_LENGTH_3_5,
     fdc_send_command 0xFF,
     fdc_wait_irq irq,
     for_each (\<lambda>j. bind fdc_read_data (\<lambda>_. ret ())) [0..<7],
     bind fdc_check_int (\<lambda>_. ret ())]"

text \<open>The division and the remainder of C, which truncate toward zero.\<close>

definition fdc_lba_to_chs :: "int \<Rightarrow> int \<times> int \<times> int" where
  "fdc_lba_to_chs lba =
     ((lba smod (FDC_SECTORS_PER_TRACK * 2)) sdiv FDC_SECTORS_PER_TRACK,
      lba sdiv (FDC_SECTORS_PER_TRACK * 2),
      lba smod FDC_SECTORS_PER_TRACK + 1)"

definition drive_type :: "cstring list" where
  "drive_type = map (\<lambda>s. cstr s @ [0]) [''None'', ''360KB  5.25in'', ''1.2MB  5.25in'', ''720KB  3.5in'',
     ''1.44MB 3.5in'', ''2.88MB 3.5in'']"

definition fdc_init :: "(ISR_registers_t \<Rightarrow> unit K) \<Rightarrow> unit K" where
  "fdc_init irq =
     bind (IRQ_register_interrupt_handler IRQ_DISKETTE Fdc_handler) (\<lambda>_.
     bind (outb 0x70 0x10) (\<lambda>_.
     bind (inb 0x71) (\<lambda>c.
     let a = drop_bit 4 c; b = c AND 0xF in exec [
       undefined_if (unat a \<ge> 6 \<or> unat b \<ge> 6) ''fdc_init: index of drive_type'',
       bind (CON_printf (cstr ''Floppy A: %s --- Floppy B: %s'' @ [10, 0])
         [VStr (drive_type ! unat a), VStr (drive_type ! unat b)]) (\<lambda>_. ret ()),
       k_when (a \<noteq> 0) (fdc_reset irq 0),
       k_when (b \<noteq> 0) (fdc_reset irq 1),
       fdc_drive_data 13 1 15 True])))"

definition fdc_set_dma_addr :: "u32 \<Rightarrow> unit K" where
  "fdc_set_dma_addr pBuf = modify (\<lambda>m. m\<lparr>fdc := (fdc m)\<lparr>dma_buf := pBuf\<rparr>\<rparr>)"

text \<open>The result is a pointer; 0 is \<^verbatim>\<open>NULL\<close>.\<close>

definition fdc_read_sector :: "(ISR_registers_t \<Rightarrow> unit K) \<Rightarrow> u8 \<Rightarrow> int \<Rightarrow> u32 K" where
  "fdc_read_sector irq drive sectorLBA =
     (if drive \<ge> 4 then ret 0
      else let (hno, track, sector) = fdc_lba_to_chs sectorLBA in
        bind (fdc_control_motor irq drive True) (\<lambda>_.
        bind (fdc_seek irq drive (of_int track) (of_int hno)) (\<lambda>ok.
        if \<not> ok then ret 0
        else bind (exec [
            fdc_read_sector_imp irq drive (of_int hno) (of_int track) (of_int sector),
            fdc_control_motor irq drive False]) (\<lambda>_.
          gets (\<lambda>m. dma_buf (fdc m))))))"

section \<open>Lemmas: sectors\<close>

lemma truncating_nonneg:
  "0 \<le> a \<Longrightarrow> 0 < b \<Longrightarrow> a sdiv b = a div (b :: int)" "0 \<le> a \<Longrightarrow> 0 < b \<Longrightarrow> a smod b = a mod (b :: int)"
  by (auto simp: signed_divide_int_def signed_modulo_int_def sgn_if)

lemma chs_nonneg:
  assumes "0 \<le> lba"
  shows "fdc_lba_to_chs lba = (lba mod 36 div 18, lba div 36, lba mod 18 + 1)"
  using assms by (simp add: fdc_lba_to_chs_def FDC_SECTORS_PER_TRACK_def truncating_nonneg)

text \<open>The inverse: the sector number of a head, a track and a sector of it.\<close>

definition chs_to_lba :: "int \<times> int \<times> int \<Rightarrow> int" where
  "chs_to_lba = (\<lambda>(hno, track, sector). (track * 2 + hno) * 18 + (sector - 1))"

lemma chs_inverse:
  assumes "0 \<le> lba"
  shows "chs_to_lba (fdc_lba_to_chs lba) = lba"
proof -
  have 1: "lba mod 36 div 18 * 18 + lba mod 36 mod 18 = lba mod 36" "lba div 36 * 36 + lba mod 36 = lba"
    by (rule div_mult_mod_eq)+
  have 2: "lba mod 36 mod 18 = lba mod 18" by (simp add: mod_mod_cancel)
  have "(q * 2 + h) * 18 + (s + 1 - 1) = x" if "h * 18 + s = r" "q * 36 + r = x" for q h s r x :: int
    unfolding that(2) [symmetric] that(1) [symmetric] by (simp add: algebra_simps)
  from this [OF 1(1) [unfolded 2] 1(2)] show ?thesis
    unfolding chs_nonneg [OF assms] chs_to_lba_def prod.case .
qed

section \<open>Lemmas: the controller\<close>

text \<open>The bytes written to the data register and to the digital output register.\<close>

definition port_bytes :: "u16 \<Rightarrow> event list \<Rightarrow> u8 list" where
  "port_bytes p es = concat (map (\<lambda>e. case e of Out8 q v \<Rightarrow> if q = p then [v] else [] | _ \<Rightarrow> []) es)"

lemma port_bytes_simps [simp]:
  "port_bytes p [] = []"
  "port_bytes p (Out8 q v # es) = (if q = p then v # port_bytes p es else port_bytes p es)"
  "port_bytes p (In8 q v # es) = port_bytes p es"
  "port_bytes p (Cli # es) = port_bytes p es" "port_bytes p (Sti # es) = port_bytes p es"
  "port_bytes p (es @ fs) = port_bytes p es @ port_bytes p fs"
  by (simp_all add: port_bytes_def)

text \<open>A controller that is always ready, and delivers \<open>v\<close> when it is read.\<close>

definition fdc_ready :: "u8 \<Rightarrow> machine \<Rightarrow> bool" where
  "fdc_ready v m \<longleftrightarrow> (\<forall>t. hw m t 0x3F4 AND 128 \<noteq> 0 \<and> hw m t 0x3F5 = v)"

lemma fdc_ready_trace [simp]: "fdc_ready v (m\<lparr>trace := t\<rparr>) = fdc_ready v m"
  by (simp add: fdc_ready_def)

lemma FDC_RETRIES_pos: "0 < FDC_RETRIES"
  by (simp add: FDC_RETRIES_def)

lemma send_ready:
  assumes "fdc_ready v m"
  shows "\<exists>s. fdc_send_command c m = Done () (m\<lparr>trace := trace m @ [In8 0x3F4 s, Out8 0x3F5 c]\<rparr>)"
proof -
  have "fdc_send_loop n c m = Done () (m\<lparr>trace := trace m @ [In8 0x3F4 (hw m (trace m) 0x3F4), Out8 0x3F5 c]\<rparr>)"
    if "0 < n" for n
    using assms that
    by (cases n) (simp_all add: fdc_read_status_def fdc_ready_def fdc_codes bind_def inb_def outb_def log_def
        modify_def Let_def)
  from this [OF FDC_RETRIES_pos] show ?thesis unfolding fdc_send_command_def by blast
qed

lemma read_ready:
  assumes "fdc_ready v m"
  shows "\<exists>s. fdc_read_data m = Done (Some v) (m\<lparr>trace := trace m @ [In8 0x3F4 s, In8 0x3F5 v]\<rparr>)"
proof -
  have "fdc_read_loop n m = Done (Some v) (m\<lparr>trace := trace m @ [In8 0x3F4 (hw m (trace m) 0x3F4), In8 0x3F5 v]\<rparr>)"
    if "0 < n" for n
    using assms that
    by (cases n) (simp_all add: fdc_read_status_def fdc_ready_def fdc_codes bind_def inb_def ret_def Let_def)
  from this [OF FDC_RETRIES_pos] show ?thesis unfolding fdc_read_data_def by blast
qed

text \<open>Port accesses of the driver and its interrupts: no port is written but the data register.\<close>

fun fdc_event :: "event \<Rightarrow> bool" where
  "fdc_event (Out8 p v) = (p = 0x3F5 \<or> p = 0x20)"
| "fdc_event (In8 p v) = True"
| "fdc_event Cli = True"
| "fdc_event Sti = True"
| "fdc_event _ = False"

lemma port_bytes_fdc: "list_all fdc_event es \<Longrightarrow> p \<noteq> 0x3F5 \<Longrightarrow> p \<noteq> 0x20 \<Longrightarrow> port_bytes p es = []"
proof (induction es)
  case (Cons e es)
  then show ?case by (cases e) (auto simp: port_bytes_def)
qed simp

text \<open>Only the trace and the schedule change; \<open>bs\<close> are the bytes sent to the data register.\<close>

definition fdc_io :: "u8 list \<Rightarrow> machine \<Rightarrow> machine \<Rightarrow> bool" where
  "fdc_io bs m m1 \<longleftrightarrow> (\<exists>es s. m1 = m\<lparr>trace := trace m @ es, irq_sched := s\<rparr>
     \<and> port_bytes 0x3F5 es = bs \<and> list_all fdc_event es)"

lemma fdc_ioI: "port_bytes 0x3F5 es = bs \<Longrightarrow> list_all fdc_event es \<Longrightarrow> fdc_io bs m (m\<lparr>trace := trace m @ es\<rparr>)"
  unfolding fdc_io_def by (intro exI [of _ es] exI [of _ "irq_sched m"]) simp

lemma fdc_io_trans: "fdc_io bs m m1 \<Longrightarrow> fdc_io cs m1 m2 \<Longrightarrow> fdc_io (bs @ cs) m m2"
proof -
  assume "fdc_io bs m m1" "fdc_io cs m1 m2"
  then obtain es s es' s' where m1: "m1 = m\<lparr>trace := trace m @ es, irq_sched := s\<rparr>"
    and m2: "m2 = m1\<lparr>trace := trace m1 @ es', irq_sched := s'\<rparr>"
    and b: "port_bytes 0x3F5 es = bs" "list_all fdc_event es" "port_bytes 0x3F5 es' = cs" "list_all fdc_event es'"
    unfolding fdc_io_def by blast
  have "m2 = m\<lparr>trace := trace m @ es @ es', irq_sched := s'\<rparr>" unfolding m2 m1 by simp
  then show "fdc_io (bs @ cs) m m2"
    unfolding fdc_io_def using b by (intro exI [of _ "es @ es'"] exI [of _ s']) simp
qed

lemma send_io: "fdc_ready v m \<Longrightarrow> \<exists>m1. fdc_send_command c m = Done () m1 \<and> fdc_io [c] m m1 \<and> irq_sched m1 = irq_sched m"
proof -
  assume "fdc_ready v m"
  then obtain s where s: "fdc_send_command c m = Done () (m\<lparr>trace := trace m @ [In8 0x3F4 s, Out8 0x3F5 c]\<rparr>)"
    using send_ready by blast
  have "fdc_io [c] m (m\<lparr>trace := trace m @ [In8 0x3F4 s, Out8 0x3F5 c]\<rparr>)" by (rule fdc_ioI) simp_all
  with s show ?thesis by simp
qed

lemma check_int_io:
  assumes "fdc_ready v m"
  shows "\<exists>m1. fdc_check_int m = Done (v, v) m1 \<and> fdc_io [8] m m1 \<and> irq_sched m1 = irq_sched m"
proof -
  obtain s where 1: "fdc_send_command 8 m = Done () (m\<lparr>trace := trace m @ [In8 0x3F4 s, Out8 0x3F5 8]\<rparr>)" (is "_ = Done _ ?m1")
    using send_ready [OF assms] by blast
  obtain s' where 2: "fdc_read_data ?m1 = Done (Some v) (?m1\<lparr>trace := trace ?m1 @ [In8 0x3F4 s', In8 0x3F5 v]\<rparr>)" (is "_ = Done _ ?m2")
    using read_ready [of v ?m1] assms by auto
  obtain s'' where 3: "fdc_read_data ?m2 = Done (Some v) (?m2\<lparr>trace := trace ?m2 @ [In8 0x3F4 s'', In8 0x3F5 v]\<rparr>)"
    using read_ready [of v ?m2] assms by auto
  have "fdc_check_int m = Done (v, v) (?m2\<lparr>trace := trace ?m2 @ [In8 0x3F4 s'', In8 0x3F5 v]\<rparr>)"
    using 1 2 3 by (simp add: fdc_check_int_def FDC_CMD_CHECK_INT_def bind_def ret_def)
  then show ?thesis
    using fdc_ioI [of "[In8 0x3F4 s, Out8 0x3F5 8, In8 0x3F4 s', In8 0x3F5 v, In8 0x3F4 s'', In8 0x3F5 v]" "[8]" m] by simp
qed

text \<open>The floppy's interrupt request, with its handler registered and no request pending.\<close>

definition fdc_idle :: "machine \<Rightarrow> bool" where
  "fdc_idle m \<longleftrightarrow> length (isr_handlers m) = 256 \<and> isr_handlers m ! 38 = Some Fdc_handler \<and> iflag m \<and> \<not> fdc_irq (fdc m)"

lemma fdc_irq_stub:
  assumes "fdc_idle m" "call Fdc_handler = (\<lambda>_. fdc_handler)" "int_no r = 6"
  shows "IRQ_stub call r m = Done () (m\<lparr>trace := trace m @ [Cli, Out8 0x20 0x20, Sti],
    fdc := (fdc m)\<lparr>fdc_irq := True\<rparr>\<rparr>)"
proof -
  let ?m = "m\<lparr>trace := trace m @ [Cli], iflag := False\<rparr>"
  have r: "r\<lparr>int_no := 6\<rparr> = r" using assms(3) by simp
  have "IRQ_UniversalHandler call r ?m
      = Done () (m\<lparr>iflag := False, trace := trace m @ [Cli, Out8 0x20 0x20], fdc := (fdc m)\<lparr>fdc_irq := True\<rparr>\<rparr>)"
    using IRQ_UniversalHandler_eq [of 6 call r ?m] assms r
    by (simp add: fdc_idle_def fdc_handler_def set_fdc_irq_def modify_def)
  then have "IRQ_stub call r m = Done () (m\<lparr>iflag := True, trace := trace m @ [Cli, Out8 0x20 0x20, Sti],
      fdc := (fdc m)\<lparr>fdc_irq := True\<rparr>\<rparr>)"
    using assms(1)
    by (simp add: fdc_idle_def IRQ_stub_on cli_def sti_def log_def bind_assoc bind_def [of "IRQ_UniversalHandler _ _"])
       (simp add: modify_def)
  moreover have "m\<lparr>iflag := True, trace := t, fdc := f\<rparr> = m\<lparr>trace := t, fdc := f\<rparr>" for t f
    using assms(1) by (cases m) (simp add: fdc_idle_def)
  ultimately show ?thesis by simp
qed

lemma wait_irq_io:
  assumes "fdc_idle m" "call Fdc_handler = (\<lambda>_. fdc_handler)" "int_no r = 6" "irq_sched m = [r] # rest"
  shows "\<exists>m1. fdc_wait_irq (IRQ_stub call) m = Done () m1 \<and> fdc_io [] m m1 \<and> irq_sched m1 = rest"
proof -
  let ?m = "m\<lparr>irq_sched := rest\<rparr>" and ?ready = "\<lambda>m. fdc_irq (fdc m)"
  let ?m1 = "?m\<lparr>trace := trace m @ [Cli, Out8 0x20 0x20, Sti], fdc := (fdc m)\<lparr>fdc_irq := True\<rparr>\<rparr>"
  have s: "IRQ_stub call r ?m = Done () ?m1"
    using fdc_irq_stub [of ?m call r] assms(1-3) by (simp add: fdc_idle_def)
  have "wait_loop ?ready (ret ()) (IRQ_stub call) rest ?m1 = Done () ?m1" by (cases rest) simp_all
  then have "wait_until ?ready (ret ()) (IRQ_stub call) m = Done () ?m1"
    using assms(1) by (simp add: wait_until_def assms(4) fdc_idle_def bind_def [of "IRQ_stub _ _"] s)
  moreover have "(fdc m)\<lparr>fdc_irq := False\<rparr> = fdc m" using assms(1) by (simp add: fdc_idle_def)
  moreover have "m\<lparr>trace := t, irq_sched := rest, fdc := fdc m\<rparr> = m\<lparr>trace := t, irq_sched := rest\<rparr>" for t
    by (cases m) simp
  ultimately have "fdc_wait_irq (IRQ_stub call) m = Done () (m\<lparr>trace := trace m @ [Cli, Out8 0x20 0x20, Sti], irq_sched := rest\<rparr>)"
    by (simp add: fdc_wait_irq_def bind_def [of "wait_until _ _ _"] set_fdc_irq_def modify_def)
  then show ?thesis
    unfolding fdc_io_def by (intro exI conjI, assumption) (rule refl, simp_all)
qed

lemma fdc_io_frame:
  assumes "fdc_io bs m m1"
  shows "fdc_ready v m1 = fdc_ready v m" "fdc_idle m1 = fdc_idle m" "fdc m1 = fdc m"
  using assms by (auto simp: fdc_io_def fdc_ready_def fdc_idle_def)

section \<open>Lemmas: seeking\<close>

lemma seek_try:
  assumes "fdc_ready v m" "fdc_idle m" "call Fdc_handler = (\<lambda>_. fdc_handler)" "int_no r = 6"
    and "irq_sched m = [r] # rest"
  shows "\<exists>m1. fdc_seek_loop (IRQ_stub call) drive cyl hno (Suc n) m
      = (if v = cyl then Done True m1 else fdc_seek_loop (IRQ_stub call) drive cyl hno n m1)
    \<and> fdc_io [0xF, push_bit 2 hno OR drive, cyl, 8] m m1 \<and> irq_sched m1 = rest"
proof -
  obtain m1 where 1: "fdc_send_command 0xF m = Done () m1" "fdc_io [0xF] m m1" "irq_sched m1 = irq_sched m"
    using send_io [OF assms(1)] by blast
  note f1 = fdc_io_frame [OF 1(2)]
  obtain m2 where 2: "fdc_send_command (push_bit 2 hno OR drive) m1 = Done () m2"
    "fdc_io [push_bit 2 hno OR drive] m1 m2" "irq_sched m2 = irq_sched m1"
    using send_io [of v m1] f1 assms(1) by blast
  note f2 = fdc_io_frame [OF 2(2)]
  obtain m3 where 3: "fdc_send_command cyl m2 = Done () m3" "fdc_io [cyl] m2 m3" "irq_sched m3 = irq_sched m2"
    using send_io [of v m2] f1 f2 assms(1) by blast
  note f3 = fdc_io_frame [OF 3(2)]
  obtain m4 where 4: "fdc_wait_irq (IRQ_stub call) m3 = Done () m4" "fdc_io [] m3 m4" "irq_sched m4 = rest"
    using wait_irq_io [of m3 call r rest] assms f1 f2 f3 1(3) 2(3) 3(3) by auto
  note f4 = fdc_io_frame [OF 4(2)]
  obtain m5 where 5: "fdc_check_int m4 = Done (v, v) m5" "fdc_io [8] m4 m5" "irq_sched m5 = irq_sched m4"
    using check_int_io [of v m4] f1 f2 f3 f4 assms(1) by blast
  have "fdc_io [0xF, push_bit 2 hno OR drive, cyl, 8] m m5"
    using fdc_io_trans [OF fdc_io_trans [OF fdc_io_trans [OF fdc_io_trans [OF 1(2) 2(2)] 3(2)] 4(2)] 5(2)] by simp
  moreover have "fdc_seek_loop (IRQ_stub call) drive cyl hno (Suc n) m
      = (if v = cyl then Done True m5 else fdc_seek_loop (IRQ_stub call) drive cyl hno n m5)"
    using 1(1) 2(1) 3(1) 4(1) 5(1) by (simp add: FDC_CMD_SEEK_def bind_def ret_def)
  ultimately show ?thesis using 4(3) 5(3) by auto
qed

lemma seek_found:
  assumes "fdc_ready cyl m" "fdc_idle m" "call Fdc_handler = (\<lambda>_. fdc_handler)" "int_no r = 6"
    and "irq_sched m = [r] # rest"
  shows "\<exists>m1. fdc_seek_loop (IRQ_stub call) drive cyl hno (Suc n) m = Done True m1
    \<and> fdc_io [0xF, push_bit 2 hno OR drive, cyl, 8] m m1 \<and> irq_sched m1 = rest"
  using seek_try [where call = call and r = r and cyl = cyl, OF assms, of drive hno n] by (simp del: fdc_seek_loop.simps)

lemma seek_lost:
  assumes "v \<noteq> cyl" "call Fdc_handler = (\<lambda>_. fdc_handler)" "int_no r = 6"
    and "fdc_ready v m" "fdc_idle m" "irq_sched m = replicate n [r] @ rest"
  shows "\<exists>m1. fdc_seek_loop (IRQ_stub call) drive cyl hno n m = Done False m1
    \<and> fdc_io (concat (replicate n [0xF, push_bit 2 hno OR drive, cyl, 8])) m m1 \<and> irq_sched m1 = rest"
  using assms(4-)
proof (induction n arbitrary: m)
  case 0
  have "fdc_io [] m m" using fdc_ioI [of "[]" "[]" m] by simp
  with 0 show ?case by (simp add: ret_def)
next
  case (Suc n)
  obtain m1 where m1: "fdc_seek_loop (IRQ_stub call) drive cyl hno (Suc n) m = fdc_seek_loop (IRQ_stub call) drive cyl hno n m1"
    "fdc_io [0xF, push_bit 2 hno OR drive, cyl, 8] m m1" "irq_sched m1 = replicate n [r] @ rest"
    using seek_try [where call = call and r = r and rest = "replicate n [r] @ rest" and cyl = cyl,
        OF Suc.prems(1,2) assms(2,3), of drive hno n] Suc.prems(3) assms(1)
    by (auto simp del: fdc_seek_loop.simps)
  obtain m2 where "fdc_seek_loop (IRQ_stub call) drive cyl hno n m1 = Done False m2"
    "fdc_io (concat (replicate n [0xF, push_bit 2 hno OR drive, cyl, 8])) m1 m2" "irq_sched m2 = rest"
    using Suc.IH [OF _ _ m1(3)] fdc_io_frame [OF m1(2)] Suc.prems(1,2) by auto
  then show ?case
    using m1(1) fdc_io_trans [OF m1(2)] by (auto simp del: fdc_seek_loop.simps)
qed

section \<open>Lemmas: the motor and errors\<close>

lemma port_bytes_timer: "list_all timer_event es \<Longrightarrow> p \<noteq> 0x20 \<Longrightarrow> port_bytes p es = []"
  by (induction es) (auto simp: timer_event_def port_bytes_def)

definition motor_on :: "u8 \<Rightarrow> u8" where
  "motor_on drive = drive OR push_bit (4 + unat drive) 1 OR 0xC"

text \<open>Both directions: the byte for the motors, and five ticks.\<close>

lemma motor_step:
  assumes "timer_ready m" "call Timer_callback = (\<lambda>_. timer_callback)" "int_no r = 0"
    and "unat (ticks m) + 5 < 2 ^ 31" "irq_sched m = replicate 5 [r] @ rest"
  shows "\<exists>m1. exec [outb 0x3F2 v, sleep (IRQ_stub call) 5] m = Done () m1 \<and> irq_sched m1 = rest
    \<and> unat (ticks m1) = unat (ticks m) + 5 \<and> timer_step (m\<lparr>trace := trace m @ [Out8 0x3F2 v]\<rparr>) m1"
proof -
  let ?m = "m\<lparr>trace := trace m @ [Out8 0x3F2 v]\<rparr>"
  have "timer_ready ?m" using assms(1) by (simp add: timer_ready_def)
  then obtain m1 where "sleep (IRQ_stub call) 5 ?m = Done () m1" "irq_sched m1 = rest" "timer_step ?m m1"
    "unat (ticks m1) = unat (ticks m) + 5"
    using sleep_done [where call = call and r = r and n = 5 and m = ?m and rest = rest, OF assms(2,3)] assms(4,5) by auto
  then show ?thesis by (auto simp: outb_def log_def)
qed

lemma motor_on_exec:
  assumes "drive < 4"
  shows "fdc_control_motor irq drive True = exec [outb 0x3F2 (motor_on drive), sleep irq 5]"
proof -
  have "unat drive \<in> {0, 1, 2, 3}" using assms by (auto simp: word_less_nat_alt)
  moreover have "drive = of_nat (unat drive)" by simp
  ultimately have "drive = 0 \<or> drive = 1 \<or> drive = 2 \<or> drive = 3" by (auto simp del: of_nat_unat ucast_id)
  then obtain mask where "fdc_motor_mask drive = Some mask" "drive OR mask OR 4 OR 8 = motor_on drive"
    by (auto simp: fdc_motor_mask_def fdc_codes motor_on_def)
  then show ?thesis by (simp add: fdc_control_motor_def fdc_codes FDC_SLEEP_TIME_def)
qed

lemma motor_off_exec: "fdc_control_motor irq drive False = exec [outb 0x3F2 4, sleep irq 5]"
  by (simp add: fdc_control_motor_def fdc_codes FDC_SLEEP_TIME_def)

lemma motor_on_done:
  assumes "drive < 4" "timer_ready m" "call Timer_callback = (\<lambda>_. timer_callback)" "int_no r = 0"
    and "unat (ticks m) + 5 < 2 ^ 31" "irq_sched m = replicate 5 [r] @ rest"
  shows "\<exists>m1 es. fdc_control_motor (IRQ_stub call) drive True m = Done () m1
    \<and> trace m1 = trace m @ es \<and> port_bytes 0x3F2 es = [motor_on drive]
    \<and> irq_sched m1 = rest \<and> hw m1 = hw m \<and> isr_handlers m1 = isr_handlers m \<and> iflag m1 = iflag m \<and> fdc m1 = fdc m"
proof -
  let ?m = "m\<lparr>trace := trace m @ [Out8 0x3F2 (motor_on drive)]\<rparr>"
  obtain m1 where m1: "exec [outb 0x3F2 (motor_on drive), sleep (IRQ_stub call) 5] m = Done () m1" "irq_sched m1 = rest"
    "timer_step ?m m1"
    using motor_step [where call = call and r = r, OF assms(2-)] by blast
  obtain k es r' s where e: "m1 = ?m\<lparr>ticks := k, trace := trace ?m @ es, ram := r', irq_sched := s\<rparr>"
    "list_all timer_event es" using m1(3) by (auto elim: timer_stepE)
  show ?thesis
    using m1(1,2) e port_bytes_timer [OF e(2), of "0x3F2"]
    by (intro exI [of _ m1] exI [of _ "Out8 0x3F2 (motor_on drive) # es"]) (simp add: motor_on_exec [OF assms(1)])
qed

lemma send_never_ready:
  assumes "\<And>t. hw m t 0x3F4 AND 128 = 0"
  shows "\<exists>vs. length vs = n \<and> fdc_send_loop n c m = Done () (m\<lparr>trace := trace m @ map (In8 0x3F4) vs\<rparr>)"
  using assms
proof (induction n arbitrary: m)
  case 0
  show ?case by (simp add: ret_def)
next
  case (Suc n)
  let ?v = "hw m (trace m) 0x3F4"
  let ?m = "m\<lparr>trace := trace m @ [In8 0x3F4 ?v]\<rparr>"
  have "fdc_send_loop (Suc n) c m = fdc_send_loop n c ?m"
    using Suc.prems by (simp add: fdc_read_status_def fdc_codes bind_def inb_def Let_def)
  moreover obtain vs where "length vs = n" "fdc_send_loop n c ?m = Done () (?m\<lparr>trace := trace ?m @ map (In8 0x3F4) vs\<rparr>)"
    using Suc.IH [of ?m] Suc.prems by auto
  ultimately show ?case by (intro exI [of _ "?v # vs"]) simp
qed

lemma read_never_ready:
  assumes "\<And>t. hw m t 0x3F4 AND 128 = 0"
  shows "\<exists>vs. length vs = n \<and> fdc_read_loop n m = Done None (m\<lparr>trace := trace m @ map (In8 0x3F4) vs\<rparr>)"
  using assms
proof (induction n arbitrary: m)
  case 0
  show ?case by (simp add: ret_def)
next
  case (Suc n)
  let ?v = "hw m (trace m) 0x3F4"
  let ?m = "m\<lparr>trace := trace m @ [In8 0x3F4 ?v]\<rparr>"
  have "fdc_read_loop (Suc n) m = fdc_read_loop n ?m"
    using Suc.prems by (simp add: fdc_read_status_def fdc_codes bind_def inb_def Let_def)
  moreover obtain vs where "length vs = n" "fdc_read_loop n ?m = Done None (?m\<lparr>trace := trace ?m @ map (In8 0x3F4) vs\<rparr>)"
    using Suc.IH [of ?m] Suc.prems by auto
  ultimately show ?case by (intro exI [of _ "?v # vs"]) simp
qed

lemma fdc_panic:
  "\<exists>m1. KERNEL_PANIC ''FDC unable to read data'' FDC_file 113 m
    = Stop (Panic (cstr ''FDC unable to read data'' @ [0]) (cstr FDC_file @ [0]) 113) m1 \<and> panicked m m1"
  by (rule KERNEL_PANIC_panicked) (simp_all add: FDC_file_def cstr_def)

lemma drive_data_io:
  assumes "fdc_ready v m"
  shows "\<exists>m1. fdc_drive_data step_rate load_time unload_time True m = Done () m1
    \<and> fdc_io [3, push_bit 4 (step_rate AND 0xF) OR (unload_time AND 0xF), 1] m m1
    \<and> irq_sched m1 = irq_sched m"
proof -
  have nz: "push_bit 1 (ucast load_time) OR 1 \<noteq> (0 :: u32)"
  proof
    assume "push_bit 1 (ucast load_time) OR 1 = (0 :: u32)"
    then have "bit (push_bit 1 (ucast load_time) OR 1 :: u32) 0 = bit (0 :: u32) 0" by (simp only:)
    then show False by (simp add: bit_or_iff)
  qed
  obtain m1 where 1: "fdc_send_command 3 m = Done () m1" "fdc_io [3] m m1" "irq_sched m1 = irq_sched m"
    using send_io [OF assms] by blast
  obtain m2 where 2: "fdc_send_command (push_bit 4 (step_rate AND 0xF) OR (unload_time AND 0xF)) m1 = Done () m2"
    "fdc_io [push_bit 4 (step_rate AND 0xF) OR (unload_time AND 0xF)] m1 m2" "irq_sched m2 = irq_sched m1"
    using send_io [of v m1] fdc_io_frame [OF 1(2)] assms by blast
  obtain m3 where 3: "fdc_send_command 1 m2 = Done () m3" "fdc_io [1] m2 m3" "irq_sched m3 = irq_sched m2"
    using send_io [of v m2] fdc_io_frame [OF 1(2)] fdc_io_frame [OF 2(2)] assms by blast
  have "fdc_drive_data step_rate load_time unload_time True m = Done () m3"
    using 1(1) 2(1) 3(1) nz by (simp add: fdc_drive_data_def FDC_CMD_SPECIFY_def bind_def)
  moreover have "fdc_io [3, push_bit 4 (step_rate AND 0xF) OR (unload_time AND 0xF), 1] m m3"
    using fdc_io_trans [OF fdc_io_trans [OF 1(2) 2(2)] 3(2)] by simp
  moreover have "irq_sched m3 = irq_sched m" using 1(3) 2(3) 3(3) by simp
  ultimately show ?thesis by blast
qed

section \<open>Properties\<close>

text \<open>
  The translation of a sector number is right for every non-negative number: the head is 0
  or 1, the sector 1 to 18, and the three numbers lead back to the sector number, so that
  different sectors have different places; on a 1.44 MB disk the track is below 80.
\<close>

theorem fdc_lba_to_chs_correct:
  assumes "0 \<le> lba"
  shows "chs_to_lba (fdc_lba_to_chs lba) = lba
    \<and> (let (hno, track, sector) = fdc_lba_to_chs lba in hno \<in> {0, 1} \<and> 1 \<le> sector \<and> sector \<le> 18
         \<and> 0 \<le> track \<and> (lba < 2880 \<longleftrightarrow> track < 80))"
proof -
  have "lba mod 36 div 18 < 2" "0 \<le> lba mod 36 div 18" by (simp_all add: div_less_iff_less_mult)
  moreover have "lba < 2880 \<longleftrightarrow> lba div 36 < 80"
    using div_mult_mod_eq [of lba 36] pos_mod_bound [of 36 lba] pos_mod_sign [of 36 lba] by linarith
  moreover have "lba mod 18 \<le> 17" "0 \<le> lba mod 18" "0 \<le> lba div 36"
    using pos_mod_bound [of 18 lba] assms by (simp_all add: pos_imp_zdiv_nonneg_iff)
  moreover have "lba mod 36 div 18 = 0 \<or> lba mod 36 div 18 = 1" using calculation(1,2) by linarith
  ultimately show ?thesis
    by (simp only: chs_inverse [OF assms]) (simp add: chs_nonneg [OF assms])
qed

theorem fdc_lba_to_chs_correct_witness: "fdc_lba_to_chs 2879 = (1, 79, 18) \<and> chs_to_lba (1, 79, 18) = 2879"
  using fdc_lba_to_chs_correct [of 2879] by (simp add: chs_nonneg)

text \<open>
  The track is passed on in 8 bits: a sector number 9216 (256 tracks) higher reads the same
  sector, without an error.
\<close>

theorem fdc_read_sector_wraps:
  assumes "0 \<le> lba"
  shows "fdc_read_sector irq drive (lba + 9216) = fdc_read_sector irq drive lba"
proof -
  have "(lba + 9216) mod 36 = lba mod 36" "(lba + 9216) mod 18 = lba mod 18" "(lba + 9216) div 36 = lba div 36 + 256"
    using mod_mult_self1 [of lba 256 36] mod_mult_self1 [of lba 512 18] div_mult_self1 [of 36 lba 256] by simp_all
  then have "fdc_lba_to_chs (lba + 9216) = (lba mod 36 div 18, lba div 36 + 256, lba mod 18 + 1)"
    using chs_nonneg [of "lba + 9216"] assms by simp
  moreover have "(of_int (lba div 36 + 256) :: u8) = of_int (lba div 36)" by simp
  ultimately show ?thesis
    by (simp only: fdc_read_sector_def Let_def chs_nonneg [OF assms] prod.case)
qed

theorem fdc_read_sector_wraps_witness: "fdc_read_sector irq 0 9216 = fdc_read_sector irq 0 0"
  using fdc_read_sector_wraps [of 0 irq 0] by simp

text \<open>
  The third byte of the SPECIFY command is wrong: whatever head load time is asked for, the
  byte is 1, because the conditional operator binds weaker than the bitwise or; so the head
  load time is lost and its low bit, which selects the mode without DMA, is set although DMA
  was asked for.
\<close>

theorem fdc_drive_data_defect:
  assumes "fdc_ready v m"
  shows "\<exists>m1. fdc_drive_data step_rate load_time unload_time True m = Done () m1
    \<and> fdc_io [3, push_bit 4 (step_rate AND 0xF) OR (unload_time AND 0xF), 1] m m1"
  using drive_data_io [OF assms] by blast

theorem fdc_drive_data_defect_witness:
  "\<forall>m. \<exists>m1. fdc_drive_data 13 1 15 True (m\<lparr>hw := (\<lambda>_ _. 0x80)\<rparr>) = Done () m1
     \<and> fdc_io [3, 0xDF, 1] (m\<lparr>hw := (\<lambda>_ _. 0x80)\<rparr>) m1"
proof
  fix m :: machine
  have "fdc_ready 0x80 (m\<lparr>hw := (\<lambda>_ _. 0x80)\<rparr>)" by (simp add: fdc_ready_def)
  from fdc_drive_data_defect [OF this, of 13 1 15]
  show "\<exists>m1. fdc_drive_data 13 1 15 True (m\<lparr>hw := (\<lambda>_ _. 0x80)\<rparr>) = Done () m1
     \<and> fdc_io [3, 0xDF, 1] (m\<lparr>hw := (\<lambda>_ _. 0x80)\<rparr>) m1" by simp
qed

text \<open>
  Seeking is bounded: with an interrupt for every attempt it ends after the first attempt
  when the controller reports the cylinder asked for, and after ten attempts with \<^verbatim>\<open>false\<close>
  when it always reports another; each attempt sends the seek command, its two parameters and
  the sense-interrupt command.
\<close>

theorem fdc_seek_correct:
  assumes "drive < 4" "fdc_ready v m" "fdc_idle m" "call Fdc_handler = (\<lambda>_. fdc_handler)" "int_no r = 6"
    and "irq_sched m = replicate (if v = cyl then 1 else 10) [r] @ rest"
  shows "\<exists>m1. fdc_seek (IRQ_stub call) drive cyl hno m = Done (v = cyl) m1 \<and> irq_sched m1 = rest
    \<and> fdc_io (concat (replicate (if v = cyl then 1 else 10) [0xF, push_bit 2 hno OR drive, cyl, 8])) m m1"
proof -
  have d: "\<not> drive \<ge> 4" using assms(1) by simp
  show ?thesis
  proof (cases "v = cyl")
    case True
    have ten: "Suc 9 = (10 :: nat)" by simp
    have "irq_sched m = [r] # rest" using assms(6) True by simp
    from seek_found [where call = call and r = r and rest = rest and m = m, OF assms(2)[unfolded True] assms(3-5) this, of drive hno 9, unfolded ten] obtain m1 where m1:
      "fdc_seek_loop (IRQ_stub call) drive cyl hno 10 m = Done True m1" "irq_sched m1 = rest"
      "fdc_io [0xF, push_bit 2 hno OR drive, cyl, 8] m m1"
      by blast
    show ?thesis
      using m1 True by (intro exI [of _ m1]) (simp add: fdc_seek_def d del: fdc_seek_loop.simps)
  next
    case False
    have "irq_sched m = replicate 10 [r] @ rest" using assms(6) False by simp
    from seek_lost [where call = call, OF False assms(4,5,2,3) this, of drive hno] obtain m1 where m1:
      "fdc_seek_loop (IRQ_stub call) drive cyl hno 10 m = Done False m1" "irq_sched m1 = rest"
      "fdc_io (concat (replicate 10 [0xF, push_bit 2 hno OR drive, cyl, 8])) m m1" by blast
    show ?thesis
      using m1 False by (intro exI [of _ m1]) (simp add: fdc_seek_def d del: fdc_seek_loop.simps)
  qed
qed

theorem fdc_seek_correct_witness:
  "\<forall>m r. \<exists>m1. fdc_seek (IRQ_stub (\<lambda>_ _. fdc_handler)) 0 0x80 1
      (m\<lparr>hw := (\<lambda>_ _. 0x80), isr_handlers := replicate 256 (Some Fdc_handler), iflag := True,
         fdc := fdc_state_init, irq_sched := [[r\<lparr>int_no := 6\<rparr>]]\<rparr>) = Done True m1"
proof (intro allI)
  fix m :: machine and r :: ISR_registers_t
  let ?m = "m\<lparr>hw := (\<lambda>_ _. 0x80), isr_handlers := replicate 256 (Some Fdc_handler), iflag := True,
         fdc := fdc_state_init, irq_sched := [[r\<lparr>int_no := 6\<rparr>]]\<rparr>"
  have "fdc_ready 0x80 ?m" "fdc_idle ?m" by (simp_all add: fdc_ready_def fdc_idle_def fdc_state_init_def)
  with fdc_seek_correct [where drive = 0 and v = "0x80" and m = ?m and call = "\<lambda>_ _. fdc_handler"
      and r = "r\<lparr>int_no := 6\<rparr>" and cyl = "0x80" and rest = "[]" and hno = 1]
  show "\<exists>m1. fdc_seek (IRQ_stub (\<lambda>_ _. fdc_handler)) 0 0x80 1 ?m = Done True m1" by auto
qed

text \<open>
  C26. A read whose seek fails leaves the motor on: \<^verbatim>\<open>fdc_read_sector\<close> returns the null pointer
  after the ten attempts, and the only write to the motor control is the one that turned the
  motor of the drive on.
\<close>

theorem fdc_read_sector_motor_defect:
  assumes "drive < 4" "0 \<le> lba" "fdc_ready v m" "v \<noteq> of_int (lba div 36)" "fdc_idle m" "timer_ready m"
    and "call Timer_callback = (\<lambda>_. timer_callback)" "call Fdc_handler = (\<lambda>_. fdc_handler)"
    and "int_no r = 0" "int_no r' = 6" "unat (ticks m) + 5 < 2 ^ 31"
    and "irq_sched m = replicate 5 [r] @ replicate 10 [r']"
  shows "\<exists>m1 es. fdc_read_sector (IRQ_stub call) drive lba m = Done 0 m1 \<and> trace m1 = trace m @ es
    \<and> port_bytes 0x3F2 es = [motor_on drive]"
proof -
  obtain m1 es where m1: "fdc_control_motor (IRQ_stub call) drive True m = Done () m1"
    "trace m1 = trace m @ es" "port_bytes 0x3F2 es = [motor_on drive]" "irq_sched m1 = replicate 10 [r']"
    "hw m1 = hw m" "isr_handlers m1 = isr_handlers m" "iflag m1 = iflag m" "fdc m1 = fdc m"
    using motor_on_done [where call = call and r = r, OF assms(1,6,7,9,11,12)] by blast
  have "fdc_ready v m1" "fdc_idle m1" "irq_sched m1 = replicate 10 [r'] @ []"
    using assms(3,5) m1(4-8) by (simp_all add: fdc_ready_def fdc_idle_def)
  from seek_lost [where call = call and r = r', OF assms(4,8,10) this]
  obtain m2 where m2: "fdc_seek_loop (IRQ_stub call) drive (of_int (lba div 36)) (of_int (lba mod 36 div 18)) 10 m1 = Done False m2"
    "fdc_io (concat (replicate 10 [0xF, push_bit 2 (of_int (lba mod 36 div 18)) OR drive, of_int (lba div 36), 8])) m1 m2"
    by blast
  obtain fs where "trace m2 = trace m1 @ fs" "port_bytes 0x3F2 fs = []"
    using m2(2) port_bytes_fdc by (fastforce simp: fdc_io_def)
  moreover have "fdc_read_sector (IRQ_stub call) drive lba m = Done 0 m2"
    using assms(1) m1(1) m2(1)
    by (simp add: fdc_read_sector_def chs_nonneg [OF assms(2)] bind_def fdc_seek_def ret_def not_le del: fdc_seek_loop.simps)
  ultimately show ?thesis
    using m1(2,3) by (intro exI [of _ m2] exI [of _ "es @ fs"]) simp
qed

theorem fdc_read_sector_motor_defect_witness:
  "\<forall>m r. \<exists>m1 es. fdc_read_sector (IRQ_stub (\<lambda>h. if h = Timer_callback then (\<lambda>_. timer_callback) else (\<lambda>_. fdc_handler))) 0 0
      (m\<lparr>hw := (\<lambda>_ _. 0x80), isr_handlers := (replicate 256 (Some Fdc_handler))[32 := Some Timer_callback],
         iflag := True, fdc := fdc_state_init, ticks := 0, irq_sched :=
           replicate 5 [r\<lparr>int_no := 0\<rparr>] @ replicate 10 [r\<lparr>int_no := 6\<rparr>]\<rparr>) = Done 0 m1
    \<and> port_bytes 0x3F2 es = [0x1C]"
proof (intro allI)
  fix m :: machine and r :: ISR_registers_t
  let ?m = "m\<lparr>hw := (\<lambda>_ _. 0x80), isr_handlers := (replicate 256 (Some Fdc_handler))[32 := Some Timer_callback],
         iflag := True, fdc := fdc_state_init, ticks := 0, irq_sched :=
           replicate 5 [r\<lparr>int_no := 0\<rparr>] @ replicate 10 [r\<lparr>int_no := 6\<rparr>]\<rparr>"
  let ?call = "\<lambda>h. if h = Timer_callback then (\<lambda>_. timer_callback) else (\<lambda>_. fdc_handler)"
  have "fdc_ready 0x80 ?m" "fdc_idle ?m" "timer_ready ?m"
    by (simp_all add: fdc_ready_def fdc_idle_def fdc_state_init_def timer_ready_def)
  from fdc_read_sector_motor_defect [where drive = 0 and lba = 0 and call = ?call and r = "r\<lparr>int_no := 0\<rparr>"
      and r' = "r\<lparr>int_no := 6\<rparr>", OF _ _ this(1) _ this(2,3)]
  show "\<exists>m1 es. fdc_read_sector (IRQ_stub ?call) 0 0 ?m = Done 0 m1 \<and> port_bytes 0x3F2 es = [0x1C]"
    by (auto simp: motor_on_def)
qed

text \<open>
  C33. A controller that never becomes ready.  A command is dropped without notice: the routine
  reads the status 500 times and does nothing else, so the command is never written.  A read of
  data gives up after 500 reads of the status, and the sense-interrupt routine, after the 1000
  reads of both, ends in a panic with interrupts off instead of waiting for ever.
\<close>

theorem fdc_not_ready:
  assumes "\<forall>t. hw m t 0x3F4 AND 128 = 0"
  shows "(\<exists>vs. length vs = 500 \<and> fdc_send_command c m = Done () (m\<lparr>trace := trace m @ map (In8 0x3F4) vs\<rparr>))
    \<and> (\<exists>vs. length vs = 500 \<and> fdc_read_data m = Done None (m\<lparr>trace := trace m @ map (In8 0x3F4) vs\<rparr>))
    \<and> (\<exists>vs m1. length vs = 1000 \<and> fdc_check_int m
        = Stop (Panic (cstr ''FDC unable to read data'' @ [0]) (cstr FDC_file @ [0]) 113) m1
        \<and> panicked (m\<lparr>trace := trace m @ map (In8 0x3F4) vs\<rparr>) m1 \<and> \<not> iflag m1)"
proof (intro conjI)
  have h: "hw m t 0x3F4 AND 128 = 0" for t using assms by simp
  show "\<exists>vs. length vs = 500 \<and> fdc_send_command c m = Done () (m\<lparr>trace := trace m @ map (In8 0x3F4) vs\<rparr>)"
    using send_never_ready [OF h, of 500 c] by (simp add: fdc_send_command_def FDC_RETRIES_def)
  show "\<exists>vs. length vs = 500 \<and> fdc_read_data m = Done None (m\<lparr>trace := trace m @ map (In8 0x3F4) vs\<rparr>)"
    using read_never_ready [OF h, of 500] by (simp add: fdc_read_data_def FDC_RETRIES_def)
  obtain vs where vs: "length vs = 500"
    "fdc_send_command FDC_CMD_CHECK_INT m = Done () (m\<lparr>trace := trace m @ map (In8 0x3F4) vs\<rparr>)" (is "_ = Done () ?m")
    using send_never_ready [OF h, of 500 FDC_CMD_CHECK_INT] by (auto simp: fdc_send_command_def FDC_RETRIES_def)
  obtain ws where ws: "length ws = 500" "fdc_read_data ?m = Done None (?m\<lparr>trace := trace ?m @ map (In8 0x3F4) ws\<rparr>)"
    using read_never_ready [of ?m 500] assms by (auto simp: fdc_read_data_def FDC_RETRIES_def)
  let ?m' = "m\<lparr>trace := trace m @ map (In8 0x3F4) (vs @ ws)\<rparr>"
  obtain m1 where m1: "(KERNEL_PANIC ''FDC unable to read data'' FDC_file 113 :: (u8 \<times> u8) K) ?m'
      = Stop (Panic (cstr ''FDC unable to read data'' @ [0]) (cstr FDC_file @ [0]) 113) m1" "panicked ?m' m1"
    using fdc_panic by blast
  have "fdc_check_int m = Stop (Panic (cstr ''FDC unable to read data'' @ [0]) (cstr FDC_file @ [0]) 113) m1"
    using m1(1) by (simp add: fdc_check_int_def bind_def vs(2) ws(2))
  then show "\<exists>vs m1. length vs = 1000 \<and> fdc_check_int m
        = Stop (Panic (cstr ''FDC unable to read data'' @ [0]) (cstr FDC_file @ [0]) 113) m1
        \<and> panicked (m\<lparr>trace := trace m @ map (In8 0x3F4) vs\<rparr>) m1 \<and> \<not> iflag m1"
    using vs(1) ws(1) m1(2) panicked_iflag [OF m1(2)] by (intro exI [of _ "vs @ ws"] exI [of _ m1]) simp
qed

theorem fdc_not_ready_witness:
  "\<forall>m. port_bytes 0x3F5 (trace (case fdc_send_command 8 (m\<lparr>hw := (\<lambda>_ _. 0), trace := []\<rparr>) of Done _ m1 \<Rightarrow> m1 | Stop _ m1 \<Rightarrow> m1)) = []
     \<and> (\<exists>m1. fdc_check_int (m\<lparr>hw := (\<lambda>_ _. 0), trace := []\<rparr>)
       = Stop (Panic (cstr ''FDC unable to read data'' @ [0]) (cstr FDC_file @ [0]) 113) m1)"
proof
  fix m :: machine
  let ?m = "m\<lparr>hw := (\<lambda>_ _. 0), trace := []\<rparr>"
  have "port_bytes 0x3F5 (map (In8 0x3F4) vs) = []" for vs by (induction vs) simp_all
  then show "port_bytes 0x3F5 (trace (case fdc_send_command 8 ?m of Done _ m1 \<Rightarrow> m1 | Stop _ m1 \<Rightarrow> m1)) = []
     \<and> (\<exists>m1. fdc_check_int ?m = Stop (Panic (cstr ''FDC unable to read data'' @ [0]) (cstr FDC_file @ [0]) 113) m1)"
    using fdc_not_ready [of ?m 8] by auto
qed

end
