(* ===== verification/Fdc_Read.thy ===== *)
theory Fdc_Read
  imports Fdc
begin

text \<open>
  A sector read of \<^verbatim>\<open>drivers/fdc.c\<close> from end to end, with the floppy controller, the timer and the
  DMA controller together: what the driver sends to the three chips when the disk answers.
\<close>

section \<open>Definitions\<close>

text \<open>What the DMA controller holds after the events: channel 2 is set up for one sector at \<open>b\<close>.\<close>

definition dma_for_sector :: "u32 \<Rightarrow> event list \<Rightarrow> bool" where
  "dma_for_sector b es \<longleftrightarrow>
     (\<forall>s. i8237_run False es s = s\<lparr>flipflop := False, base_addr := (base_addr s)(2 := ucast b),
        base_count := (base_count s)(2 := 511), ch_mode := (ch_mode s)(2 := 0x15), masked := (masked s)(2 := False)\<rparr>)
     \<and> (\<forall>s. i8237_run True es s = s)
     \<and> (\<forall>pages. fold page_step es pages = pages(2 := ucast (drop_bit 16 b)))"

text \<open>The nine bytes of a read command: the end of the track is capped at 18 sectors.\<close>

definition read_command :: "u8 \<Rightarrow> u8 \<Rightarrow> u8 \<Rightarrow> u8 \<Rightarrow> u8 list" where
  "read_command drive hno track sector = [0xE6, push_bit 2 hno OR drive, track, hno, sector, 2,
     (if uint sector + 1 \<ge> 18 then 18 else sector + 1), 27, 0xFF]"

section \<open>Lemmas: the DMA controller\<close>

definition dma_events :: "u32 \<Rightarrow> event list" where
  "dma_events b = [Out8 0xA 6, Out8 0xC 0xFF, Out8 4 (ucast b), Out8 4 (ucast (drop_bit 8 b)),
    Out8 0x81 (ucast (drop_bit 16 b)), Out8 0xC 0xFF, Out8 5 0xFF, Out8 5 1, Out8 0xA 6, Out8 0xB 0x56, Out8 0xA 2, Out8 0xA 2]"

lemma fdc_dma_init_run: "fdc_dma_init b 512 m = Done () (m\<lparr>trace := trace m @ dma_events b\<rparr>)"
proof -
  have b: "ucast (x AND 0xFF) = (ucast x :: u8)" for x :: u32
    by (rule bit_word_eqI) (auto simp: bit_simps bit_low_masks)
  show ?thesis
    by (simp add: fdc_dma_init_def FDC_DMA_CHANNEL_def dma_ops dma_regs outb_def log_def bind_assoc b Let_def
        DMA_MODE_READ_TRANSFER_def DMA_MODE_TRANSFER_SINGLE_def DMA_MODE_MASK_AUTO_def)
       (simp add: modify_def dma_events_def)
qed

lemma dma_set_read_run: "dma_set_read 2 m = Done () (m\<lparr>trace := trace m @ [Out8 0xA 6, Out8 0xB 0x56, Out8 0xA 2]\<rparr>)"
  by (simp add: dma_ops dma_regs outb_def log_def bind_assoc Let_def DMA_MODE_READ_TRANSFER_def
      DMA_MODE_TRANSFER_SINGLE_def DMA_MODE_MASK_AUTO_def)
     (simp add: modify_def)

lemma i8237_run_append: "i8237_run second (es @ fs) s = i8237_run second fs (i8237_run second es s)"
  by (simp add: i8237_run_def)

lemma dma_events_set: "dma_for_sector b (dma_events b @ [Out8 0xA 6, Out8 0xB 0x56, Out8 0xA 2])"
proof -
  have "push_bit 8 (ucast (ucast (drop_bit 8 b) :: u8)) OR ucast (ucast b :: u8) = (ucast b :: u16)"
    by (rule bit_word_eqI) (auto simp: bit_simps)
  then show ?thesis
    by (simp add: dma_for_sector_def dma_events_def i8237_run_def i8237_write_def put_word drop_bit_eq_div page_channel_def)
qed

text \<open>The floppy controller, the motors and the timer do not disturb the DMA controller.\<close>

definition dma_quiet :: "event list \<Rightarrow> bool" where
  "dma_quiet = list_all (\<lambda>e. fdc_event e \<or> timer_event e \<or> (\<exists>v. e = Out8 0x3F2 v))"

lemma dma_quiet_run:
  assumes "dma_quiet es"
  shows "i8237_run second es s = s" "fold page_step es pages = pages"
proof -
  have "i8237_step second e s = s \<and> page_step e pages = pages"
    if "fdc_event e \<or> timer_event e \<or> (\<exists>v. e = Out8 0x3F2 v)" for e s pages
    using that by (cases e) (auto simp: timer_event_def page_channel_def)
  then show "i8237_run second es s = s" "fold page_step es pages = pages"
    using assms by (induction es) (simp_all add: dma_quiet_def i8237_run_def)
qed

lemma dma_for_sector_around:
  "dma_for_sector b es \<Longrightarrow> dma_quiet es1 \<Longrightarrow> dma_quiet es2 \<Longrightarrow> dma_for_sector b (es1 @ es @ es2)"
  by (simp add: dma_for_sector_def i8237_run_append dma_quiet_run)

section \<open>Lemmas: the command and its result\<close>

lemma fdc_io_refl [simp]: "fdc_io [] m m"
  using fdc_ioI [of "[]" "[]" m] by simp

lemma send_all:
  assumes "fdc_ready v m"
  shows "\<exists>m1. exec (map fdc_send_command cs @ ks) m = exec ks m1 \<and> fdc_io cs m m1 \<and> irq_sched m1 = irq_sched m"
  using assms
proof (induction cs arbitrary: m)
  case Nil
  show ?case by (intro exI [of _ m]) simp
next
  case (Cons c cs)
  obtain m1 where m1: "fdc_send_command c m = Done () m1" "fdc_io [c] m m1" "irq_sched m1 = irq_sched m"
    using send_io [OF Cons.prems] by blast
  obtain m2 where "exec (map fdc_send_command cs @ ks) m1 = exec ks m2" "fdc_io cs m1 m2" "irq_sched m2 = irq_sched m1"
    using Cons.IH [of m1] fdc_io_frame(1) [OF m1(2)] Cons.prems by blast
  then show ?case
    using m1 fdc_io_trans [OF m1(2)] by (intro exI [of _ m2]) (auto simp: bind_def)
qed

lemma read_results:
  assumes "fdc_ready v m"
  shows "\<exists>m1. for_each (\<lambda>j. bind fdc_read_data (\<lambda>_. ret ())) js m = Done () m1 \<and> fdc_io [] m m1 \<and> irq_sched m1 = irq_sched m"
  using assms
proof (induction js arbitrary: m)
  case Nil
  show ?case by (simp add: ret_def)
next
  case (Cons j js)
  obtain s where r: "fdc_read_data m = Done (Some v) (m\<lparr>trace := trace m @ [In8 0x3F4 s, In8 0x3F5 v]\<rparr>)"
    using read_ready [OF Cons.prems] by blast
  let ?m = "m\<lparr>trace := trace m @ [In8 0x3F4 s, In8 0x3F5 v]\<rparr>"
  have io: "fdc_io [] m ?m" by (rule fdc_ioI) simp_all
  obtain m1 where m1: "for_each (\<lambda>j. bind fdc_read_data (\<lambda>_. ret ())) js ?m = Done () m1" "fdc_io [] ?m m1"
    "irq_sched m1 = irq_sched m"
    using Cons.IH [of ?m] Cons.prems by auto
  have "for_each (\<lambda>j. bind fdc_read_data (\<lambda>_. ret ())) (j # js) m
      = bind fdc_read_data (\<lambda>_. for_each (\<lambda>j. bind fdc_read_data (\<lambda>_. ret ())) js) m"
    by (simp add: bind_assoc)
  also have "\<dots> = Done () m1" by (subst bind_def) (simp add: r m1(1))
  finally show ?case using m1(3) fdc_io_trans [OF io m1(2)] by auto
qed

lemma read_sector_imp_eq:
  "fdc_read_sector_imp irq drive hno track sector = exec (
     [bind (gets (\<lambda>m. dma_buf (fdc m))) (\<lambda>b. fdc_dma_init b 512), dma_set_read 2]
     @ map fdc_send_command (read_command drive hno track sector)
     @ [fdc_wait_irq irq, for_each (\<lambda>j. bind fdc_read_data (\<lambda>_. ret ())) [0..<7], bind fdc_check_int (\<lambda>_. ret ())])"
  by (simp add: fdc_read_sector_imp_def read_command_def FDC_DMA_CHANNEL_def FDC_DMA_BUF_SIZE_def fdc_codes
      FDC_SECTORS_PER_TRACK_def FDC_SECTOR_DTL_512_def FDC_GAP3_LENGTH_3_5_def del: upt_rec_numeral)

lemma read_sector_imp_done:
  assumes "fdc_ready v m" "fdc_idle m" "call Fdc_handler = (\<lambda>_. fdc_handler)" "int_no r = 6" "irq_sched m = [r] # rest"
  shows "\<exists>es. fdc_read_sector_imp (IRQ_stub call) drive hno track sector m = Done () (m\<lparr>trace := trace m @ es, irq_sched := rest\<rparr>)
    \<and> dma_for_sector (dma_buf (fdc m)) es \<and> port_bytes 0x3F2 es = []
    \<and> port_bytes 0x3F5 es = read_command drive hno track sector @ [8]"
proof -
  let ?d = "dma_events (dma_buf (fdc m)) @ [Out8 0xA 6, Out8 0xB 0x56, Out8 0xA 2]"
  let ?m = "m\<lparr>trace := trace m @ ?d\<rparr>" and ?fin = "[fdc_wait_irq (IRQ_stub call),
    for_each (\<lambda>j. bind fdc_read_data (\<lambda>_. ret ())) [0..<7], bind fdc_check_int (\<lambda>_. ret ())]"
  have idle: "fdc_ready v ?m" "fdc_idle ?m" using assms(1,2) by (simp_all add: fdc_ready_def fdc_idle_def)
  obtain m1 where 1: "exec (map fdc_send_command (read_command drive hno track sector) @ ?fin) ?m = exec ?fin m1"
    "fdc_io (read_command drive hno track sector) ?m m1" "irq_sched m1 = irq_sched ?m"
    using send_all [OF idle(1)] by blast
  note f1 = fdc_io_frame [OF 1(2)]
  obtain m2 where 2: "fdc_wait_irq (IRQ_stub call) m1 = Done () m2" "fdc_io [] m1 m2" "irq_sched m2 = rest"
    using wait_irq_io [of m1 call r rest] f1 idle 1(3) assms(3-5) by auto
  note f2 = fdc_io_frame [OF 2(2)]
  obtain m3 where 3: "for_each (\<lambda>j. bind fdc_read_data (\<lambda>_. ret ())) [0..<7] m2 = Done () m3" "fdc_io [] m2 m3"
    "irq_sched m3 = irq_sched m2"
    using read_results [of v m2 "[0..<7]"] f1 f2 idle by blast
  obtain m4 where 4: "fdc_check_int m3 = Done (v, v) m4" "fdc_io [8] m3 m4" "irq_sched m4 = irq_sched m3"
    using check_int_io [of v m3] f1 f2 fdc_io_frame [OF 3(2)] idle by blast
  have "fdc_io (read_command drive hno track sector @ [8]) ?m m4"
    using fdc_io_trans [OF fdc_io_trans [OF fdc_io_trans [OF 1(2) 2(2)] 3(2)] 4(2)] by simp
  then obtain es s where es: "m4 = ?m\<lparr>trace := trace ?m @ es, irq_sched := s\<rparr>"
    "port_bytes 0x3F5 es = read_command drive hno track sector @ [8]" "list_all fdc_event es"
    unfolding fdc_io_def by blast
  have "fdc_read_sector_imp (IRQ_stub call) drive hno track sector m
      = exec (map fdc_send_command (read_command drive hno track sector) @ ?fin) ?m"
    by (simp add: read_sector_imp_eq bind_assoc bind_def [of "gets _"] gets_def bind_def [of "dma_set_read _"]
        bind_def [of "fdc_dma_init _ _"] fdc_dma_init_run dma_set_read_run del: upt_rec_numeral)
  also have "\<dots> = exec ?fin m1" by (rule 1(1))
  also have "\<dots> = Done () m4"
    using 2(1) 3(1) 4(1)
    by (simp add: bind_assoc bind_def [of "fdc_wait_irq _"] bind_def [of "for_each _ _"] bind_def [of fdc_check_int]
        ret_def del: upt_rec_numeral)
  finally have "fdc_read_sector_imp (IRQ_stub call) drive hno track sector m = Done () m4" .
  moreover have "m4 = m\<lparr>trace := trace m @ ?d @ es, irq_sched := rest\<rparr>"
    using es(1) 2(3) 3(3) 4(3) by simp
  moreover have "dma_quiet es" using es(3) by (auto simp: dma_quiet_def list_all_iff)
  then have "dma_for_sector (dma_buf (fdc m)) (?d @ es)"
    using dma_for_sector_around [OF dma_events_set, of "[]" es] by (simp add: dma_quiet_def)
  moreover have "port_bytes 0x3F5 ?d = []" "port_bytes 0x3F2 ?d = []" "port_bytes 0x3F2 es = []"
    using port_bytes_fdc [OF es(3)] by (simp_all add: dma_events_def)
  ultimately show ?thesis
    using es(2) by (intro exI [of _ "?d @ es"]) simp
qed

section \<open>Lemmas: the phases of a read\<close>

text \<open>A phase: its events, and the fields of the machine that it leaves alone.\<close>

definition phase :: "event list \<Rightarrow> machine \<Rightarrow> machine \<Rightarrow> bool" where
  "phase es m m1 \<longleftrightarrow> (\<exists>k r s. m1 = m\<lparr>ticks := k, trace := trace m @ es, ram := r, irq_sched := s\<rparr>
     \<and> (\<forall>a. \<not> vga_region a \<longrightarrow> r a = ram m a))"

lemma phaseI:
  "(\<And>a. \<not> vga_region a \<Longrightarrow> r a = ram m a) \<Longrightarrow> phase es m (m\<lparr>ticks := k, trace := trace m @ es, ram := r, irq_sched := s\<rparr>)"
  unfolding phase_def by blast

lemma phaseE:
  assumes "phase es m m1"
  obtains k r s where "m1 = m\<lparr>ticks := k, trace := trace m @ es, ram := r, irq_sched := s\<rparr>" "\<And>a. \<not> vga_region a \<Longrightarrow> r a = ram m a"
  using assms unfolding phase_def by blast

lemma phase_trans: "phase es m m1 \<Longrightarrow> phase fs m1 m2 \<Longrightarrow> phase (es @ fs) m m2"
proof (elim phaseE)
  fix k r s k' r' s'
  assume m1: "m1 = m\<lparr>ticks := k, trace := trace m @ es, ram := r, irq_sched := s\<rparr>"
    and m2: "m2 = m1\<lparr>ticks := k', trace := trace m1 @ fs, ram := r', irq_sched := s'\<rparr>"
    and h: "\<And>a. \<not> vga_region a \<Longrightarrow> r a = ram m a" "\<And>a. \<not> vga_region a \<Longrightarrow> r' a = ram m1 a"
  have "m2 = m\<lparr>ticks := k', trace := trace m @ es @ fs, ram := r', irq_sched := s'\<rparr>" unfolding m2 m1 by simp
  then show "phase (es @ fs) m m2" using phaseI [where r = r' and m = m and k = k' and es = "es @ fs" and s = s'] h m1 by simp
qed

lemma phase_frame:
  assumes "phase es m m1"
  shows "trace m1 = trace m @ es" "hw m1 = hw m" "isr_handlers m1 = isr_handlers m" "iflag m1 = iflag m" "fdc m1 = fdc m"
    "con m1 = con m" "\<And>a. \<not> vga_region a \<Longrightarrow> ram m1 a = ram m a"
  using assms by (elim phaseE; simp)+

lemma phase_ready:
  assumes "phase es m m1"
  shows "fdc_ready v m1 = fdc_ready v m" "fdc_idle m1 = fdc_idle m" "timer_ready m1 = timer_ready m"
  using phase_frame [OF assms] by (simp_all add: fdc_ready_def fdc_idle_def timer_ready_def)

lemma phase_io: "phase es m (m\<lparr>trace := trace m @ es, irq_sched := s\<rparr>)"
  using phaseI [where r = "ram m" and m = m and k = "ticks m" and es = es and s = s] by simp

lemma phase_trace: "phase es m (m\<lparr>trace := trace m @ es\<rparr>)"
  using phase_io [of es m "irq_sched m"] by simp

lemma motor_phase:
  assumes "timer_ready m" "call Timer_callback = (\<lambda>_. timer_callback)" "int_no r = 0"
    and "unat (ticks m) + 5 < 2 ^ 31" "irq_sched m = replicate 5 [r] @ rest"
  shows "\<exists>m1 es. exec [outb 0x3F2 v, sleep (IRQ_stub call) 5] m = Done () m1 \<and> irq_sched m1 = rest
    \<and> unat (ticks m1) = unat (ticks m) + 5 \<and> phase es m m1 \<and> dma_quiet es
    \<and> port_bytes 0x3F2 es = [v] \<and> port_bytes 0x3F5 es = [] \<and> port_bytes 0xF7 es = [] \<and> port_bytes 0x3F7 es = []"
proof -
  obtain m1 where m1: "exec [outb 0x3F2 v, sleep (IRQ_stub call) 5] m = Done () m1" "irq_sched m1 = rest"
    "unat (ticks m1) = unat (ticks m) + 5" "timer_step (m\<lparr>trace := trace m @ [Out8 0x3F2 v]\<rparr>) m1"
    using motor_step [where call = call and r = r, OF assms] by blast
  obtain k es r' s where e: "m1 = (m\<lparr>trace := trace m @ [Out8 0x3F2 v]\<rparr>)\<lparr>ticks := k,
      trace := trace (m\<lparr>trace := trace m @ [Out8 0x3F2 v]\<rparr>) @ es, ram := r', irq_sched := s\<rparr>"
    "list_all timer_event es" "\<And>a. \<not> vga_region a \<Longrightarrow> r' a = ram m a"
    using m1(4) by (auto elim: timer_stepE)
  have "phase (Out8 0x3F2 v # es) m m1"
    using phaseI [where r = r' and m = m and k = k and es = "Out8 0x3F2 v # es" and s = s] e(3) by (simp add: e(1))
  moreover have "dma_quiet (Out8 0x3F2 v # es)" using e(2) by (auto simp: dma_quiet_def list_all_iff)
  moreover have "port_bytes 0x3F2 es = []" "port_bytes 0x3F5 es = []" "port_bytes 0xF7 es = []" "port_bytes 0x3F7 es = []" using port_bytes_timer [OF e(2)] by simp_all
  ultimately show ?thesis
    using m1(1-3) by (intro exI [of _ m1] exI [of _ "Out8 0x3F2 v # es"]) simp
qed

lemma seek_phase:
  assumes "drive < 4" "fdc_ready cyl m" "fdc_idle m" "call Fdc_handler = (\<lambda>_. fdc_handler)" "int_no r = 6"
    and "irq_sched m = [r] # rest"
  shows "\<exists>m1 es. fdc_seek (IRQ_stub call) drive cyl hno m = Done True m1 \<and> irq_sched m1 = rest \<and> ticks m1 = ticks m
    \<and> phase es m m1 \<and> dma_quiet es \<and> port_bytes 0x3F2 es = []
    \<and> port_bytes 0x3F5 es = [0xF, push_bit 2 hno OR drive, cyl, 8]"
proof -
  have ten: "Suc 9 = (10 :: nat)" by simp
  obtain m1 where m1: "fdc_seek_loop (IRQ_stub call) drive cyl hno 10 m = Done True m1"
    "fdc_io [0xF, push_bit 2 hno OR drive, cyl, 8] m m1" "irq_sched m1 = rest"
    using seek_found [where call = call and r = r, OF assms(2-6), of drive hno 9, unfolded ten] by blast
  obtain es s where e: "m1 = m\<lparr>trace := trace m @ es, irq_sched := s\<rparr>"
    "port_bytes 0x3F5 es = [0xF, push_bit 2 hno OR drive, cyl, 8]" "list_all fdc_event es"
    using m1(2) unfolding fdc_io_def by blast
  have "dma_quiet es" using e(3) by (auto simp: dma_quiet_def list_all_iff)
  then show ?thesis
    using m1(1,3) e phase_io [of es m s] port_bytes_fdc [OF e(3), of "0x3F2"] assms(1)
    by (intro exI [of _ m1] exI [of _ es]) (simp add: fdc_seek_def not_le [symmetric] del: fdc_seek_loop.simps)
qed

text \<open>A sector whose place is given by its head, track and sector.\<close>

lemma read_phases:
  assumes "drive < 4" "fdc_ready track m" "fdc_idle m" "timer_ready m"
    and "call Timer_callback = (\<lambda>_. timer_callback)" "call Fdc_handler = (\<lambda>_. fdc_handler)"
    and "int_no r = 0" "int_no r' = 6" "unat (ticks m) + 10 < 2 ^ 31"
    and "irq_sched m = replicate 5 [r] @ [[r'], [r']] @ replicate 5 [r] @ rest"
    and place: "fdc_lba_to_chs lba = (h, t, s)" "hno = of_int h" "track = of_int t" "sector = of_int s"
  shows "\<exists>m1 es. fdc_read_sector (IRQ_stub call) drive lba m = Done (dma_buf (fdc m)) m1 \<and> phase es m m1
    \<and> irq_sched m1 = rest \<and> unat (ticks m1) = unat (ticks m) + 10
    \<and> port_bytes 0x3F2 es = [motor_on drive, 4] \<and> dma_for_sector (dma_buf (fdc m)) es
    \<and> port_bytes 0x3F5 es = [0xF, push_bit 2 hno OR drive, track, 8] @ read_command drive hno track sector @ [8]"
proof -
  obtain m1 e1 where 1: "exec [outb 0x3F2 (motor_on drive), sleep (IRQ_stub call) 5] m = Done () m1"
    "irq_sched m1 = [r'] # [r'] # replicate 5 [r] @ rest" "unat (ticks m1) = unat (ticks m) + 5" "phase e1 m m1" "dma_quiet e1"
    "port_bytes 0x3F2 e1 = [motor_on drive]" "port_bytes 0x3F5 e1 = []"
    using motor_phase [where call = call and r = r and m = m, OF assms(4,5,7), of "[[r'], [r']] @ replicate 5 [r] @ rest" "motor_on drive"]
      assms(9,10) by auto
  obtain m2 e2 where 2: "fdc_seek (IRQ_stub call) drive track hno m1 = Done True m2" "irq_sched m2 = [r'] # replicate 5 [r] @ rest"
    "ticks m2 = ticks m1" "phase e2 m1 m2" "dma_quiet e2" "port_bytes 0x3F2 e2 = []"
    "port_bytes 0x3F5 e2 = [0xF, push_bit 2 hno OR drive, track, 8]"
    using seek_phase [where call = call and r = r' and m = m1 and cyl = track, OF assms(1) _ _ assms(6,8) 1(2)]
      phase_ready [OF 1(4)] assms(2,3) by blast
  have "fdc_ready track m2" "fdc_idle m2" using phase_ready [OF 1(4)] phase_ready [OF 2(4)] assms(2,3) by simp_all
  then obtain e3 where 3: "fdc_read_sector_imp (IRQ_stub call) drive hno track sector m2
      = Done () (m2\<lparr>trace := trace m2 @ e3, irq_sched := replicate 5 [r] @ rest\<rparr>)"
    "dma_for_sector (dma_buf (fdc m2)) e3" "port_bytes 0x3F2 e3 = []"
    "port_bytes 0x3F5 e3 = read_command drive hno track sector @ [8]"
    using read_sector_imp_done [where call = call and r = r' and m = m2, OF _ _ assms(6,8) 2(2)] by blast
  let ?m3 = "m2\<lparr>trace := trace m2 @ e3, irq_sched := replicate 5 [r] @ rest\<rparr>"
  have p3: "phase (e1 @ e2 @ e3) m ?m3" using phase_trans [OF 1(4) phase_trans [OF 2(4) phase_io]] .
  obtain m4 e4 where 4: "exec [outb 0x3F2 4, sleep (IRQ_stub call) 5] ?m3 = Done () m4" "irq_sched m4 = rest"
    "unat (ticks m4) = unat (ticks ?m3) + 5" "phase e4 ?m3 m4" "dma_quiet e4" "port_bytes 0x3F2 e4 = [4]" "port_bytes 0x3F5 e4 = []"
    using motor_phase [where call = call and r = r and m = ?m3 and rest = rest and v = 4, OF _ assms(5,7)] phase_ready(3) [OF p3]
      assms(4,9) 1(3) 2(3) by auto
  have b: "dma_buf (fdc m2) = dma_buf (fdc m)" "dma_buf (fdc m4) = dma_buf (fdc m)"
    using phase_frame(5) [OF 1(4)] phase_frame(5) [OF 2(4)] phase_frame(5) [OF phase_trans [OF p3 4(4)]] by simp_all
  have on: "fdc_control_motor (IRQ_stub call) drive True m = Done () m1"
    and off: "fdc_control_motor (IRQ_stub call) drive False ?m3 = Done () m4"
    unfolding motor_on_exec [OF assms(1)] motor_off_exec by (rule 1(1) 4(1))+
  have d: "(4 \<le> drive) = False" using assms(1) by simp
  have "fdc_read_sector (IRQ_stub call) drive lba m = Done (dma_buf (fdc m)) m4"
    using on 2(1) 3(1) off b(2) d
    by (simp add: fdc_read_sector_def place bind_def gets_def ret_def)
  moreover have "dma_for_sector (dma_buf (fdc m)) (e1 @ e2 @ e3 @ e4)"
    using dma_for_sector_around [OF 3(2) _ 4(5), of "e1 @ e2"] 1(5) 2(5) by (simp add: dma_quiet_def b)
  ultimately show ?thesis
    using phase_trans [OF p3 4(4)] 1(3,6,7) 2(3,6,7) 3(3,4) 4(2,3,6,7)
    by (intro exI [of _ m4] exI [of _ "e1 @ e2 @ e3 @ e4"]) simp
qed

section \<open>Properties\<close>

text \<open>
  C19. Reading a sector of a 1.44 MB disk whose controller answers and reports the right
  cylinder: the routine turns the motor on, waits five ticks, seeks, sets channel 2 of the DMA
  controller up for 512 bytes at its buffer, sends the read command with the head, the track and
  the sector that make up the sector number, reads the result, senses the interrupt, turns the
  motor off, waits five ticks more and returns the buffer; it takes exactly the twelve interrupts
  it waits for, and touches no memory but the screen.
\<close>

theorem fdc_read_sector_correct:
  assumes "drive < 4" "0 \<le> lba" "lba < 2880" "fdc_ready (of_int (lba div 36)) m" "fdc_idle m" "timer_ready m"
    and "call Timer_callback = (\<lambda>_. timer_callback)" "call Fdc_handler = (\<lambda>_. fdc_handler)"
    and "int_no r = 0" "int_no r' = 6" "unat (ticks m) + 10 < 2 ^ 31"
    and "irq_sched m = replicate 5 [r] @ [[r'], [r']] @ replicate 5 [r] @ rest"
  shows "\<exists>m1 es hno track sector. fdc_read_sector (IRQ_stub call) drive lba m = Done (dma_buf (fdc m)) m1
    \<and> chs_to_lba (uint hno, uint track, uint sector) = lba \<and> uint hno < 2 \<and> 1 \<le> sector \<and> uint sector \<le> 18
    \<and> trace m1 = trace m @ es \<and> port_bytes 0x3F2 es = [motor_on drive, 4]
    \<and> port_bytes 0x3F5 es = [0xF, push_bit 2 hno OR drive, track, 8] @ read_command drive hno track sector @ [8]
    \<and> dma_for_sector (dma_buf (fdc m)) es \<and> irq_sched m1 = rest \<and> unat (ticks m1) = unat (ticks m) + 10
    \<and> fdc m1 = fdc m \<and> (\<forall>a. \<not> vga_region a \<longrightarrow> ram m1 a = ram m a)"
proof -
  let ?h = "lba mod 36 div 18" and ?t = "lba div 36" and ?s = "lba mod 18 + 1"
  have div18: "0 \<le> x div 18 \<and> x div 18 < 2" if "0 \<le> x" "x < 36" for x :: int
    using that by linarith
  have div36: "0 \<le> ?t \<and> ?t < 80" using assms(2,3) by linarith
  have mod18: "0 \<le> lba mod 18 \<and> lba mod 18 < 18" by simp
  have r: "0 \<le> ?h" "?h < 2" "0 \<le> ?t" "?t < 80" "1 \<le> ?s" "?s \<le> 18"
    using div18 [of "lba mod 36"] div36 mod18 by (simp_all del: div_pos_pos_trivial)
  have u: "uint (of_int x :: u8) = x" if "0 \<le> x" "x < 256" for x
    using that by (simp add: uint_word_of_int_eq take_bit_int_eq_self)
  have w: "uint (of_int ?h :: u8) = ?h" "uint (of_int ?t :: u8) = ?t" "uint (of_int ?s :: u8) = ?s"
    using r by (intro u; linarith)+
  have c: "chs_to_lba (?h, ?t, ?s) = lba" "fdc_lba_to_chs lba = (?h, ?t, ?s)"
    using chs_inverse [OF assms(2)] by (simp_all add: chs_nonneg [OF assms(2)])
  define hno track sector where hts: "hno = (of_int ?h :: u8)" "track = (of_int ?t :: u8)" "sector = (of_int ?s :: u8)"
  have chs: "chs_to_lba (uint hno, uint track, uint sector) = lba" unfolding hts w by (rule c(1))
  have range: "uint hno < 2" "uint sector \<le> 18" unfolding hts w by (rule r)+
  have one: "1 \<le> sector" unfolding word_le_def hts w using r(5) by simp
  obtain m1 es where m1: "fdc_read_sector (IRQ_stub call) drive lba m = Done (dma_buf (fdc m)) m1" "phase es m m1"
    "irq_sched m1 = rest" "unat (ticks m1) = unat (ticks m) + 10" "port_bytes 0x3F2 es = [motor_on drive, 4]"
    "dma_for_sector (dma_buf (fdc m)) es"
    "port_bytes 0x3F5 es = [0xF, push_bit 2 hno OR drive, track, 8] @ read_command drive hno track sector @ [8]"
    using read_phases [where call = call and r = r and r' = r', OF assms(1) assms(4)[folded hts(2)] assms(5-12) c(2) hts] by blast
  have "trace m1 = trace m @ es" "fdc m1 = fdc m" "\<forall>a. \<not> vga_region a \<longrightarrow> ram m1 a = ram m a"
    using phase_frame [OF m1(2)] by simp_all
  with m1 chs range one show ?thesis by blast
qed

theorem fdc_read_sector_correct_witness:
  "\<forall>m r. \<exists>m1. fdc_read_sector (IRQ_stub (\<lambda>h. if h = Timer_callback then (\<lambda>_. timer_callback) else (\<lambda>_. fdc_handler))) 1 1440
      (m\<lparr>hw := (\<lambda>_ p. if p = 0x3F4 then 0x80 else 40), isr_handlers := (replicate 256 (Some Fdc_handler))[32 := Some Timer_callback],
         iflag := True, fdc := fdc_state_init, ticks := 0, irq_sched :=
           replicate 5 [r\<lparr>int_no := 0\<rparr>] @ [[r\<lparr>int_no := 6\<rparr>], [r\<lparr>int_no := 6\<rparr>]] @ replicate 5 [r\<lparr>int_no := 0\<rparr>] @ []\<rparr>)
      = Done 0x600 m1 \<and> unat (ticks m1) = 10"
proof (intro allI)
  fix m :: machine and r :: ISR_registers_t
  let ?m = "m\<lparr>hw := (\<lambda>_ p. if p = 0x3F4 then 0x80 else 40), isr_handlers := (replicate 256 (Some Fdc_handler))[32 := Some Timer_callback],
         iflag := True, fdc := fdc_state_init, ticks := 0, irq_sched :=
           replicate 5 [r\<lparr>int_no := 0\<rparr>] @ [[r\<lparr>int_no := 6\<rparr>], [r\<lparr>int_no := 6\<rparr>]] @ replicate 5 [r\<lparr>int_no := 0\<rparr>] @ []\<rparr>"
  let ?call = "\<lambda>h. if h = Timer_callback then (\<lambda>_. timer_callback) else (\<lambda>_. fdc_handler)"
  have "fdc_ready (of_int (1440 div 36)) ?m" "fdc_idle ?m" "timer_ready ?m"
    by (simp_all add: fdc_ready_def fdc_idle_def fdc_state_init_def timer_ready_def)
  from fdc_read_sector_correct [where drive = 1 and lba = 1440 and call = ?call and r = "r\<lparr>int_no := 0\<rparr>"
      and r' = "r\<lparr>int_no := 6\<rparr>" and rest = "[]", OF _ _ _ this]
  obtain m1 where "fdc_read_sector (IRQ_stub ?call) 1 1440 ?m = Done (dma_buf (fdc ?m)) m1" "unat (ticks m1) = unat (ticks ?m) + 10"
    by fastforce
  then show "\<exists>m1. fdc_read_sector (IRQ_stub ?call) 1 1440 ?m = Done 0x600 m1 \<and> unat (ticks m1) = 10"
    by (intro exI [of _ m1]) (simp add: fdc_state_init_def)
qed

end
