(* ===== verification/Fdc_Reset.thy ===== *)
theory Fdc_Reset
  imports Fdc_Read
begin

text \<open>
  The reset of a floppy drive (\<^verbatim>\<open>_fdc_reset\<close>, \<^verbatim>\<open>_fdc_calibrate\<close>): what is sent to the controller,
  and how the routine ends when the drive finds cylinder 0 and when it never does.
\<close>

section \<open>Lemmas: calibration\<close>

lemma calibrate_try:
  assumes "fdc_ready v m" "fdc_idle m" "call Fdc_handler = (\<lambda>_. fdc_handler)" "int_no r = 6" "irq_sched m = [r] # rest"
  shows "\<exists>m1. fdc_calibrate_loop (IRQ_stub call) drive (Suc n) m
      = (if v = 0 then bind (fdc_control_motor (IRQ_stub call) drive False) (\<lambda>_. ret True) m1
         else fdc_calibrate_loop (IRQ_stub call) drive n m1)
    \<and> fdc_io [7, drive, 8] m m1 \<and> irq_sched m1 = rest"
proof -
  let ?fin = "[fdc_wait_irq (IRQ_stub call)]"
  obtain m1 where 1: "exec (map fdc_send_command [7, drive] @ ?fin) m = exec ?fin m1" "fdc_io [7, drive] m m1"
    "irq_sched m1 = irq_sched m"
    using send_all [OF assms(1)] by blast
  note f1 = fdc_io_frame [OF 1(2)]
  obtain m2 where 2: "fdc_wait_irq (IRQ_stub call) m1 = Done () m2" "fdc_io [] m1 m2" "irq_sched m2 = rest"
    using wait_irq_io [of m1 call r rest] f1 assms 1(3) by auto
  obtain m3 where 3: "fdc_check_int m2 = Done (v, v) m3" "fdc_io [8] m2 m3" "irq_sched m3 = irq_sched m2"
    using check_int_io [of v m2] f1 fdc_io_frame [OF 2(2)] assms(1) by blast
  have "exec [fdc_send_command FDC_CMD_CALIBRATE, fdc_send_command drive, fdc_wait_irq (IRQ_stub call)] m = Done () m2"
    using 1(1) 2(1) by (simp add: FDC_CMD_CALIBRATE_def bind_def [of "fdc_wait_irq _"] ret_def)
  then have "fdc_calibrate_loop (IRQ_stub call) drive (Suc n) m
      = (if v = 0 then bind (fdc_control_motor (IRQ_stub call) drive False) (\<lambda>_. ret True) m3
         else fdc_calibrate_loop (IRQ_stub call) drive n m3)"
    using 3(1) by (simp add: bind_def [of "exec _"] bind_def [of fdc_check_int] del: exec.simps)
  moreover have "fdc_io [7, drive, 8] m m3"
    using fdc_io_trans [OF fdc_io_trans [OF 1(2) 2(2)] 3(2)] by simp
  ultimately show ?thesis using 2(3) 3(3) by auto
qed

lemma calibrate_fails:
  assumes "v \<noteq> 0" "call Fdc_handler = (\<lambda>_. fdc_handler)" "int_no r = 6"
    and "fdc_ready v m" "fdc_idle m" "irq_sched m = replicate n [r] @ rest"
  shows "\<exists>m1. fdc_calibrate_loop (IRQ_stub call) drive n m = bind (fdc_control_motor (IRQ_stub call) drive False) (\<lambda>_. ret False) m1
    \<and> fdc_io (concat (replicate n [7, drive, 8])) m m1 \<and> irq_sched m1 = rest"
  using assms(4-)
proof (induction n arbitrary: m)
  case 0
  then show ?case by (intro exI [of _ m]) simp
next
  case (Suc n)
  obtain m1 where m1: "fdc_calibrate_loop (IRQ_stub call) drive (Suc n) m = fdc_calibrate_loop (IRQ_stub call) drive n m1"
    "fdc_io [7, drive, 8] m m1" "irq_sched m1 = replicate n [r] @ rest"
    using calibrate_try [where call = call and r = r and rest = "replicate n [r] @ rest", OF Suc.prems(1,2) assms(2,3), of drive n]
      Suc.prems(3) assms(1) by (auto simp del: fdc_calibrate_loop.simps)
  obtain m2 where "fdc_calibrate_loop (IRQ_stub call) drive n m1 = bind (fdc_control_motor (IRQ_stub call) drive False) (\<lambda>_. ret False) m2"
    "fdc_io (concat (replicate n [7, drive, 8])) m1 m2" "irq_sched m2 = rest"
    using Suc.IH [OF _ _ m1(3)] fdc_io_frame [OF m1(2)] Suc.prems(1,2) by auto
  then show ?case
    using m1(1) fdc_io_trans [OF m1(2)] by (auto simp del: fdc_calibrate_loop.simps)
qed

text \<open>The number of attempts.\<close>

definition calibrate_tries :: "u8 \<Rightarrow> nat" where
  "calibrate_tries v = (if v = 0 then 1 else 10)"

lemma calibrate_ends:
  assumes "fdc_ready v m" "fdc_idle m" "call Fdc_handler = (\<lambda>_. fdc_handler)" "int_no r = 6"
    and "irq_sched m = replicate (calibrate_tries v) [r] @ rest"
  shows "\<exists>m1. fdc_calibrate_loop (IRQ_stub call) drive 10 m = bind (fdc_control_motor (IRQ_stub call) drive False) (\<lambda>_. ret (v = 0)) m1
    \<and> fdc_io (concat (replicate (calibrate_tries v) [7, drive, 8])) m m1 \<and> irq_sched m1 = rest"
proof (cases "v = 0")
  case True
  have ten: "Suc 9 = (10 :: nat)" by simp
  have "irq_sched m = [r] # rest" using assms(5) True by (simp add: calibrate_tries_def)
  from calibrate_try [where call = call and r = r, OF assms(1-4) this, of drive 9, unfolded ten] show ?thesis
    using True by (simp add: calibrate_tries_def del: fdc_calibrate_loop.simps)
next
  case False
  then have "irq_sched m = replicate 10 [r] @ rest" using assms(5) by (simp add: calibrate_tries_def)
  from calibrate_fails [where call = call and r = r, OF False assms(3,4,1,2) this, of drive] show ?thesis
    using False by (simp add: calibrate_tries_def del: fdc_calibrate_loop.simps)
qed

lemma io_phase:
  assumes "fdc_io bs m m1"
  obtains es where "phase es m m1" "ticks m1 = ticks m" "port_bytes 0x3F5 es = bs" "port_bytes 0x3F2 es = []"
    "port_bytes 0xF7 es = []" "port_bytes 0x3F7 es = []"
proof -
  obtain es s where e: "m1 = m\<lparr>trace := trace m @ es, irq_sched := s\<rparr>" "port_bytes 0x3F5 es = bs" "list_all fdc_event es"
    using assms unfolding fdc_io_def by blast
  then show thesis using that [of es] phase_io [of es m s] port_bytes_fdc [OF e(3)] by simp
qed

lemma calibrate_done:
  assumes "drive < 4" "fdc_ready v m" "fdc_idle m" "timer_ready m"
    and "call Timer_callback = (\<lambda>_. timer_callback)" "call Fdc_handler = (\<lambda>_. fdc_handler)"
    and "int_no r = 0" "int_no r' = 6" "unat (ticks m) + 10 < 2 ^ 31"
    and "irq_sched m = replicate 5 [r] @ replicate (calibrate_tries v) [r'] @ replicate 5 [r] @ rest"
  shows "\<exists>m1 es. fdc_calibrate (IRQ_stub call) drive m = Done (v = 0) m1 \<and> phase es m m1 \<and> irq_sched m1 = rest
    \<and> unat (ticks m1) = unat (ticks m) + 10
    \<and> port_bytes 0x3F2 es = [motor_on drive, 4] \<and> port_bytes 0x3F5 es = concat (replicate (calibrate_tries v) [7, drive, 8])
    \<and> port_bytes 0xF7 es = [] \<and> port_bytes 0x3F7 es = []"
proof -
  obtain m1 e1 where 1: "exec [outb 0x3F2 (motor_on drive), sleep (IRQ_stub call) 5] m = Done () m1"
    "irq_sched m1 = replicate (calibrate_tries v) [r'] @ replicate 5 [r] @ rest" "unat (ticks m1) = unat (ticks m) + 5"
    "phase e1 m m1" "port_bytes 0x3F2 e1 = [motor_on drive]" "port_bytes 0x3F5 e1 = []" "port_bytes 0xF7 e1 = []" "port_bytes 0x3F7 e1 = []"
    using motor_phase [where call = call and r = r and m = m and v = "motor_on drive", OF assms(4,5,7) _ assms(10)] assms(9) by auto
  obtain m2 where 2: "fdc_calibrate_loop (IRQ_stub call) drive 10 m1
      = bind (fdc_control_motor (IRQ_stub call) drive False) (\<lambda>_. ret (v = 0)) m2"
    "fdc_io (concat (replicate (calibrate_tries v) [7, drive, 8])) m1 m2" "irq_sched m2 = replicate 5 [r] @ rest"
    using calibrate_ends [where call = call and r = r' and m = m1, OF _ _ assms(6,8) 1(2)] phase_ready [OF 1(4)] assms(2,3) by blast
  obtain e2 where e2: "phase e2 m1 m2" "ticks m2 = ticks m1" "port_bytes 0x3F5 e2 = concat (replicate (calibrate_tries v) [7, drive, 8])"
    "port_bytes 0x3F2 e2 = []" "port_bytes 0xF7 e2 = []" "port_bytes 0x3F7 e2 = []"
    using io_phase [OF 2(2)] .
  have p2: "phase (e1 @ e2) m m2" by (rule phase_trans [OF 1(4) e2(1)])
  obtain m3 e3 where 3: "exec [outb 0x3F2 4, sleep (IRQ_stub call) 5] m2 = Done () m3" "irq_sched m3 = rest"
    "unat (ticks m3) = unat (ticks m2) + 5" "phase e3 m2 m3" "port_bytes 0x3F2 e3 = [4]" "port_bytes 0x3F5 e3 = []"
    "port_bytes 0xF7 e3 = []" "port_bytes 0x3F7 e3 = []"
    using motor_phase [where call = call and r = r and m = m2 and v = 4, OF _ assms(5,7) _ 2(3)] phase_ready(3) [OF p2]
      assms(4,9) 1(3) e2(2) by auto
  have on: "fdc_control_motor (IRQ_stub call) drive True m = Done () m1"
    and off: "fdc_control_motor (IRQ_stub call) drive False m2 = Done () m3"
    unfolding motor_on_exec [OF assms(1)] motor_off_exec by (rule 1(1) 3(1))+
  have "(4 \<le> drive) = False" using assms(1) by simp
  then have "fdc_calibrate (IRQ_stub call) drive m = Done (v = 0) m3"
    using on 2(1) off by (simp add: fdc_calibrate_def bind_def ret_def del: fdc_calibrate_loop.simps)
  moreover have "phase ((e1 @ e2) @ e3) m m3" by (rule phase_trans [OF p2 3(4)])
  ultimately show ?thesis
    using 1 e2 3 by (intro exI [of _ m3] exI [of _ "(e1 @ e2) @ e3"]) simp
qed

section \<open>Lemmas: the reset\<close>

lemma check_ints:
  assumes "fdc_ready v m"
  shows "\<exists>m1. for_each (\<lambda>i. bind fdc_check_int (\<lambda>_. ret ())) js m = Done () m1 \<and> fdc_io (replicate (length js) 8) m m1
    \<and> irq_sched m1 = irq_sched m"
  using assms
proof (induction js arbitrary: m)
  case Nil
  show ?case by (simp add: ret_def)
next
  case (Cons j js)
  obtain m1 where m1: "fdc_check_int m = Done (v, v) m1" "fdc_io [8] m m1" "irq_sched m1 = irq_sched m"
    using check_int_io [OF Cons.prems] by blast
  obtain m2 where m2: "for_each (\<lambda>i. bind fdc_check_int (\<lambda>_. ret ())) js m1 = Done () m2" "fdc_io (replicate (length js) 8) m1 m2"
    "irq_sched m2 = irq_sched m1"
    using Cons.IH [of m1] fdc_io_frame(1) [OF m1(2)] Cons.prems by blast
  have "for_each (\<lambda>i. bind fdc_check_int (\<lambda>_. ret ())) (j # js) m
      = bind fdc_check_int (\<lambda>_. for_each (\<lambda>i. bind fdc_check_int (\<lambda>_. ret ())) js) m"
    by (simp add: bind_assoc)
  also have "\<dots> = Done () m2" by (subst bind_def) (simp add: m1(1) m2(1))
  finally show ?case using fdc_io_trans [OF m1(2) m2(2)] m1(3) m2(3) by auto
qed

text \<open>Everything before the calibration.\<close>

lemma reset_setup:
  assumes "fdc_ready v m" "fdc_idle m" "call Fdc_handler = (\<lambda>_. fdc_handler)" "int_no r' = 6" "irq_sched m = [r'] # rest"
  shows "\<exists>m1 es. exec [outb FDC_IO_DOR 0, outb FDC_IO_DOR (FDC_MASK_DOR_RESET OR FDC_MASK_DOR_DMA), fdc_wait_irq (IRQ_stub call),
       for_each (\<lambda>i. bind fdc_check_int (\<lambda>_. ret ())) [0..<4], outb FDC_IO_CCR 0, fdc_drive_data 3 16 240 True] m = Done () m1
    \<and> phase es m m1 \<and> irq_sched m1 = rest \<and> ticks m1 = ticks m
    \<and> port_bytes 0x3F2 es = [0, 0xC] \<and> port_bytes 0x3F5 es = [8, 8, 8, 8, 3, 0x30, 1]
    \<and> port_bytes 0xF7 es = [0] \<and> port_bytes 0x3F7 es = []"
proof -
  let ?m = "m\<lparr>trace := trace m @ [Out8 0x3F2 0, Out8 0x3F2 0xC]\<rparr>"
  have rdy: "fdc_ready v ?m" "fdc_idle ?m" using assms(1,2) by (simp_all add: fdc_ready_def fdc_idle_def)
  have p0: "phase [Out8 0x3F2 0, Out8 0x3F2 0xC] m ?m" by (rule phase_trace)
  obtain m1 where 1: "fdc_wait_irq (IRQ_stub call) ?m = Done () m1" "fdc_io [] ?m m1" "irq_sched m1 = rest"
    using wait_irq_io [of ?m call r' rest] rdy(2) assms(3-5) by auto
  obtain m2 where 2: "for_each (\<lambda>i. bind fdc_check_int (\<lambda>_. ret ())) [0..<4] m1 = Done () m2"
    "fdc_io [8, 8, 8, 8] m1 m2" "irq_sched m2 = rest"
    using check_ints [of v m1 "[0..<4]"] fdc_io_frame(1) [OF 1(2)] rdy(1) 1(3) by (auto simp: numeral_eq_Suc)
  let ?m2 = "m2\<lparr>trace := trace m2 @ [Out8 0xF7 0]\<rparr>"
  have p2: "phase [Out8 0xF7 0] m2 ?m2" by (rule phase_trace)
  have "fdc_ready v ?m2"
    using fdc_io_frame(1) [OF 1(2)] fdc_io_frame(1) [OF 2(2)] rdy(1) by simp
  then obtain m3 where 3: "fdc_drive_data 3 16 240 True ?m2 = Done () m3" "fdc_io [3, 0x30, 1] ?m2 m3" "irq_sched m3 = rest"
    using drive_data_io [of v ?m2 3 16 240] 2(3) by auto
  obtain e1 where e1: "phase e1 ?m m1" "ticks m1 = ticks ?m" "port_bytes 0x3F5 e1 = []" "port_bytes 0x3F2 e1 = []"
    "port_bytes 0xF7 e1 = []" "port_bytes 0x3F7 e1 = []" using io_phase [OF 1(2)] .
  obtain e2 where e2: "phase e2 m1 m2" "ticks m2 = ticks m1" "port_bytes 0x3F5 e2 = [8, 8, 8, 8]" "port_bytes 0x3F2 e2 = []"
    "port_bytes 0xF7 e2 = []" "port_bytes 0x3F7 e2 = []" using io_phase [OF 2(2)] .
  obtain e3 where e3: "phase e3 ?m2 m3" "ticks m3 = ticks ?m2" "port_bytes 0x3F5 e3 = [3, 0x30, 1]" "port_bytes 0x3F2 e3 = []"
    "port_bytes 0xF7 e3 = []" "port_bytes 0x3F7 e3 = []" using io_phase [OF 3(2)] .
  have "exec [outb FDC_IO_DOR 0, outb FDC_IO_DOR (FDC_MASK_DOR_RESET OR FDC_MASK_DOR_DMA), fdc_wait_irq (IRQ_stub call),
       for_each (\<lambda>i. bind fdc_check_int (\<lambda>_. ret ())) [0..<4], outb FDC_IO_CCR 0, fdc_drive_data 3 16 240 True] m = Done () m3"
    using 1(1) 2(1) 3(1)
    by (simp add: fdc_codes outb_def log_def bind_def [of "fdc_wait_irq _"] bind_def [of "for_each _ _"]
        bind_def [of "fdc_drive_data _ _ _ _"] ret_def del: upt_rec_numeral)
  moreover have "phase ([Out8 0x3F2 0, Out8 0x3F2 0xC] @ e1 @ e2 @ [Out8 0xF7 0] @ e3) m m3"
    by (rule phase_trans [OF p0 phase_trans [OF e1(1) phase_trans [OF e2(1) phase_trans [OF p2 e3(1)]]]])
  ultimately show ?thesis
    using 3(3) e1(2-) e2(2-) e3(2-)
    by (intro exI [of _ m3] exI [of _ "[Out8 0x3F2 0, Out8 0x3F2 0xC] @ e1 @ e2 @ [Out8 0xF7 0] @ e3"]) simp
qed

lemma reset_result:
  assumes "drive < 4" "fdc_ready v m" "fdc_idle m" "timer_ready m"
    and "call Timer_callback = (\<lambda>_. timer_callback)" "call Fdc_handler = (\<lambda>_. fdc_handler)"
    and "int_no r = 0" "int_no r' = 6" "unat (ticks m) + 10 < 2 ^ 31"
    and "irq_sched m = [r'] # replicate 5 [r] @ replicate (calibrate_tries v) [r'] @ replicate 5 [r] @ rest"
  shows "\<exists>m1 es. phase es m m1 \<and> irq_sched m1 = rest \<and> unat (ticks m1) = unat (ticks m) + 10
    \<and> port_bytes 0x3F2 es = [0, 0xC, motor_on drive, 4]
    \<and> port_bytes 0x3F5 es = [8, 8, 8, 8, 3, 0x30, 1] @ concat (replicate (calibrate_tries v) [7, drive, 8])
    \<and> port_bytes 0xF7 es = [0] \<and> port_bytes 0x3F7 es = []
    \<and> (if v = 0 then fdc_reset (IRQ_stub call) drive m = Done () m1
       else \<exists>m2. fdc_reset (IRQ_stub call) drive m
         = Stop (Panic (cstr ''unable to calibrate floppy drive: {}'' @ [0]) (cstr FDC_file @ [0]) 230) m2 \<and> panicked m1 m2)"
proof -
  let ?prep = "[outb FDC_IO_DOR 0, outb FDC_IO_DOR (FDC_MASK_DOR_RESET OR FDC_MASK_DOR_DMA), fdc_wait_irq (IRQ_stub call),
       for_each (\<lambda>i. bind fdc_check_int (\<lambda>_. ret ())) [0..<4], outb FDC_IO_CCR 0, fdc_drive_data 3 16 240 True]"
    and ?panic = "KERNEL_PANIC ''unable to calibrate floppy drive: {}'' FDC_file 230"
  obtain m1 e1 where 1: "exec ?prep m = Done () m1" "phase e1 m m1"
    "irq_sched m1 = replicate 5 [r] @ replicate (calibrate_tries v) [r'] @ replicate 5 [r] @ rest" "ticks m1 = ticks m"
    "port_bytes 0x3F2 e1 = [0, 0xC]" "port_bytes 0x3F5 e1 = [8, 8, 8, 8, 3, 0x30, 1]" "port_bytes 0xF7 e1 = [0]" "port_bytes 0x3F7 e1 = []"
    using reset_setup [where call = call and r' = r', OF assms(2,3,6,8,10)] by blast
  have rdy: "fdc_ready v m1" "fdc_idle m1" "timer_ready m1" using phase_ready [OF 1(2)] assms(2-4) by simp_all
  obtain m2 e2 where 2: "fdc_calibrate (IRQ_stub call) drive m1 = Done (v = 0) m2" "phase e2 m1 m2" "irq_sched m2 = rest"
    "unat (ticks m2) = unat (ticks m1) + 10" "port_bytes 0x3F2 e2 = [motor_on drive, 4]"
    "port_bytes 0x3F5 e2 = concat (replicate (calibrate_tries v) [7, drive, 8])" "port_bytes 0xF7 e2 = []" "port_bytes 0x3F7 e2 = []"
    using calibrate_done [where call = call and r = r and r' = r', OF assms(1) rdy assms(5-8) _ 1(3)] assms(9) 1(4) by auto
  have "fdc_reset (IRQ_stub call) drive
      = exec (?prep @ [bind (fdc_calibrate (IRQ_stub call) drive) (\<lambda>ok. k_when (\<not> ok) ?panic)])"
    by (simp add: fdc_reset_def del: upt_rec_numeral)
  then have f: "fdc_reset (IRQ_stub call) drive m = bind (k_when (v \<noteq> 0) ?panic) ret m2"
    by (simp only: exec_append bind_def [of "exec ?prep"] 1(1))
      (simp add: bind_def [of "bind _ _"] bind_def [of "fdc_calibrate _ _"] 2(1) bind_def [of "k_when _ _"])
  have "if v = 0 then fdc_reset (IRQ_stub call) drive m = Done () m2
       else \<exists>m3. fdc_reset (IRQ_stub call) drive m
         = Stop (Panic (cstr ''unable to calibrate floppy drive: {}'' @ [0]) (cstr FDC_file @ [0]) 230) m3 \<and> panicked m2 m3"
  proof (cases "v = 0")
    case True
    then show ?thesis by (simp add: f k_when_def ret_def bind_def)
  next
    case False
    obtain m3 where "?panic m2 = (Stop (Panic (cstr ''unable to calibrate floppy drive: {}'' @ [0]) (cstr FDC_file @ [0]) 230) m3 :: unit outcome)"
      "panicked m2 m3"
      using KERNEL_PANIC_panicked [of "''unable to calibrate floppy drive: {}''" FDC_file 230 m2] by (auto simp: FDC_file_def cstr_def)
    with False show ?thesis by (simp add: f k_when_def bind_def)
  qed
  moreover have "phase (e1 @ e2) m m2" by (rule phase_trans [OF 1(2) 2(2)])
  ultimately show ?thesis
    using 1(4-) 2(3-) by (intro exI [of _ m2] exI [of _ "e1 @ e2"]) simp
qed

lemma port_bytes_panic: "list_all panic_event es \<Longrightarrow> w \<notin> {0x3D4, 0x3D5} \<Longrightarrow> port_bytes w es = []"
proof (induction es)
  case (Cons e es)
  then show ?case
    by (cases e) (auto simp: port_bytes_def panic_event_def VGA_REG_CTRL_def VGA_REG_DATA_def)
qed simp

section \<open>Properties\<close>

text \<open>
  C25. The reset of a floppy drive, with a controller that is ready for every byte and reports the
  same cylinder \<open>v\<close> to every sense-interrupt command, and with the interrupts that it waits for
  delivered.  It turns the controller off and on, senses the four interrupts, sends the drive data
  and calibrates with the motor on; it returns after one attempt when the cylinder is 0, and after
  ten attempts that report another it turns the motor off and panics, with interrupts off.  The
  bytes are those that the whole run writes to the ports, up to its end.  The data rate is written
  to port \<open>0xF7\<close> and not to the controller's register at \<open>0x3F7\<close>, and the unload time 240 is sent
  as 0.
\<close>

theorem fdc_reset_correct:
  assumes "drive < 4" "fdc_ready v m" "fdc_idle m" "timer_ready m"
    and "call Timer_callback = (\<lambda>_. timer_callback)" "call Fdc_handler = (\<lambda>_. fdc_handler)"
    and "int_no r = 0" "int_no r' = 6" "unat (ticks m) + 10 < 2 ^ 31"
    and "irq_sched m = [r'] # replicate 5 [r] @ replicate (calibrate_tries v) [r'] @ replicate 5 [r] @ rest"
  shows "\<exists>mf es. fdc_reset (IRQ_stub call) drive m
      = (if v = 0 then Done () mf
         else Stop (Panic (cstr ''unable to calibrate floppy drive: {}'' @ [0]) (cstr FDC_file @ [0]) 230) mf)
    \<and> trace mf = trace m @ es \<and> irq_sched mf = rest \<and> unat (ticks mf) = unat (ticks m) + 10
    \<and> port_bytes 0x3F2 es = [0, 0xC, motor_on drive, 4]
    \<and> port_bytes 0x3F5 es = [8, 8, 8, 8, 3, 0x30, 1] @ concat (replicate (if v = 0 then 1 else 10) [7, drive, 8])
    \<and> port_bytes 0xF7 es = [0] \<and> port_bytes 0x3F7 es = []
    \<and> iflag mf = (v = 0) \<and> (v = 0 \<longrightarrow> phase es m mf) \<and> (\<forall>a. \<not> vga_region a \<longrightarrow> ram mf a = ram m a)"
proof -
  have on: "iflag m" using assms(4) by (simp add: timer_ready_def)
  obtain m1 es where m1: "phase es m m1" "irq_sched m1 = rest" "unat (ticks m1) = unat (ticks m) + 10"
    "port_bytes 0x3F2 es = [0, 0xC, motor_on drive, 4]"
    "port_bytes 0x3F5 es = [8, 8, 8, 8, 3, 0x30, 1] @ concat (replicate (calibrate_tries v) [7, drive, 8])"
    "port_bytes 0xF7 es = [0]" "port_bytes 0x3F7 es = []"
    and e: "if v = 0 then fdc_reset (IRQ_stub call) drive m = Done () m1
       else \<exists>m2. fdc_reset (IRQ_stub call) drive m
         = Stop (Panic (cstr ''unable to calibrate floppy drive: {}'' @ [0]) (cstr FDC_file @ [0]) 230) m2 \<and> panicked m1 m2"
    using reset_result [OF assms] by blast
  obtain k t s where p: "m1 = m\<lparr>ticks := k, trace := trace m @ es, ram := t, irq_sched := s\<rparr>"
    "\<forall>a. \<not> vga_region a \<longrightarrow> t a = ram m a" using m1(1) unfolding phase_def by blast
  show ?thesis
  proof (cases "v = 0")
    case True
    then show ?thesis
      using m1 e p on by (intro exI [of _ m1] exI [of _ es]) (simp add: calibrate_tries_def)
  next
    case False
    then obtain mf where f: "fdc_reset (IRQ_stub call) drive m
        = Stop (Panic (cstr ''unable to calibrate floppy drive: {}'' @ [0]) (cstr FDC_file @ [0]) 230) mf" "panicked m1 mf"
      using e by auto
    obtain q c fs where q: "mf = m1\<lparr>ram := q, con := c, trace := trace m1 @ fs @ [Hlt], iflag := False\<rparr>"
      "screen_only (ram m1) mf" "list_all panic_event fs" using f(2) unfolding panicked_def by blast
    have n: "port_bytes w (fs @ [Hlt]) = []" if "w \<notin> {0x3D4, 0x3D5}" for w
      using port_bytes_panic [OF q(3) that] by (simp add: port_bytes_def)
    have "trace mf = trace m @ es @ fs @ [Hlt]" by (simp add: q(1) p(1))
    moreover have "port_bytes w (es @ fs @ [Hlt]) = port_bytes w es" if "w \<notin> {0x3D4, 0x3D5}" for w
      using n [OF that] by simp
    moreover have "\<forall>a. \<not> vga_region a \<longrightarrow> ram mf a = ram m a" using q(2) p by (simp add: screen_only_def)
    moreover have "irq_sched mf = rest" "ticks mf = ticks m1" "\<not> iflag mf" using m1(2) by (simp_all add: q(1))
    ultimately show ?thesis
      using False f(1) m1(3-) by (intro exI [of _ mf] exI [of _ "es @ fs @ [Hlt]"]) (simp add: calibrate_tries_def)
  qed
qed

text \<open>The schedule of a reset, and the machine of the witness: the drive reports the cylinder \<open>v\<close>.\<close>

definition reset_example :: "u8 \<Rightarrow> ISR_registers_t \<Rightarrow> machine \<Rightarrow> machine" where
  "reset_example v r m = m\<lparr>hw := (\<lambda>_ p. if p = 0x3F4 then 0x80 else v), trace := [],
     isr_handlers := (replicate 256 (Some Fdc_handler))[32 := Some Timer_callback],
     iflag := True, fdc := fdc_state_init, ticks := 0, irq_sched := [r\<lparr>int_no := 6\<rparr>] #
       replicate 5 [r\<lparr>int_no := 0\<rparr>] @ replicate (calibrate_tries v) [r\<lparr>int_no := 6\<rparr>] @ replicate 5 [r\<lparr>int_no := 0\<rparr>] @ []\<rparr>"

theorem fdc_reset_correct_witness:
  "\<forall>m r. (\<exists>m1. fdc_reset (IRQ_stub (\<lambda>h. if h = Timer_callback then (\<lambda>_. timer_callback) else (\<lambda>_. fdc_handler))) 0
      (reset_example 0 r m) = Done () m1 \<and> unat (ticks m1) = 10)
    \<and> (\<exists>m1. fdc_reset (IRQ_stub (\<lambda>h. if h = Timer_callback then (\<lambda>_. timer_callback) else (\<lambda>_. fdc_handler))) 0
      (reset_example 7 r m) = Stop (Panic (cstr ''unable to calibrate floppy drive: {}'' @ [0]) (cstr FDC_file @ [0]) 230) m1
      \<and> port_bytes 0x3F2 (trace m1) = [0, 0xC, 0x1C, 4])"
proof (intro allI)
  fix m :: machine and r :: ISR_registers_t
  let ?call = "\<lambda>h. if h = Timer_callback then (\<lambda>_. timer_callback) else (\<lambda>_. fdc_handler)"
  have i: "fdc_ready v (reset_example v r m)" "fdc_idle (reset_example v r m)" "timer_ready (reset_example v r m)" for v
    by (simp_all add: fdc_ready_def fdc_idle_def fdc_state_init_def timer_ready_def reset_example_def)
  have s: "irq_sched (reset_example v r m) = [r\<lparr>int_no := 6\<rparr>] # replicate 5 [r\<lparr>int_no := 0\<rparr>]
      @ replicate (calibrate_tries v) [r\<lparr>int_no := 6\<rparr>] @ replicate 5 [r\<lparr>int_no := 0\<rparr>] @ []" for v
    by (simp add: reset_example_def)
  have z: "unat (ticks (reset_example v r m)) = 0" "trace (reset_example v r m) = []" for v by (simp_all add: reset_example_def)
  note c = fdc_reset_correct [where drive = 0 and call = ?call and r = "r\<lparr>int_no := 0\<rparr>" and r' = "r\<lparr>int_no := 6\<rparr>" and rest = "[]", OF _ i _ _ _ _ _ s]
  have "motor_on 0 = 0x1C" by (simp add: motor_on_def)
  then show "(\<exists>m1. fdc_reset (IRQ_stub ?call) 0 (reset_example 0 r m) = Done () m1 \<and> unat (ticks m1) = 10)
    \<and> (\<exists>m1. fdc_reset (IRQ_stub ?call) 0 (reset_example 7 r m)
        = Stop (Panic (cstr ''unable to calibrate floppy drive: {}'' @ [0]) (cstr FDC_file @ [0]) 230) m1
      \<and> port_bytes 0x3F2 (trace m1) = [0, 0xC, 0x1C, 4])"
    using c [of 0] c [of 7] by (auto simp: z)
qed

end
