(* ===== verification/Start.thy ===== *)
theory Start
  imports Vmm Mouse Keyboard Fdc_Reset
begin

text \<open>
  \<^verbatim>\<open>_start.c\<close> and \<^verbatim>\<open>main.c\<close>: the boot of the kernel, from the checks of what the boot
  loader handed over to the loop that halts for ever, over all other components.  The registers
  EAX and EBX at entry are the argument \<open>eax\<close> and the boot information of the machine state.
\<close>

section \<open>Handlers\<close>

text \<open>The function behind each handler that the kernel registers.\<close>

fun run_handler :: "handler \<Rightarrow> ISR_registers_t \<Rightarrow> unit K" where
  "run_handler Timer_callback r = timer_callback"
| "run_handler Keyboard_handler r = keyboard_handler_scancode"
| "run_handler Mouse_handler r = mouse_handler"
| "run_handler Fdc_handler r = fdc_handler"
| "run_handler Page_fault_handler r = page_fault_handler r"

definition kernel_irq :: "ISR_registers_t \<Rightarrow> unit K" where
  "kernel_irq = IRQ_stub run_handler"

section \<open>Boot\<close>

text \<open>Both constants come from \<^verbatim>\<open>src/Makefile\<close>.\<close>

definition KERNEL_SEG :: u32 where "KERNEL_SEG = 0x1000"
definition KERNEL_HIMEM :: u32 where "KERNEL_HIMEM = 0x100000"
definition KERNEL_ADDR :: u32 where "KERNEL_ADDR = KERNEL_HIMEM"
definition BROS :: u32 where "BROS = 0x42524F53"
definition Start_file :: string where "Start_file = ''src/_start.c''"

lemmas boot_codes = KERNEL_SEG_def KERNEL_HIMEM_def KERNEL_ADDR_def BROS_def

text \<open>\<^verbatim>\<open>CON_puts("...\n")\<close>\<close>

definition puts_line :: "string \<Rightarrow> unit K" where
  "puts_line s = CON_puts (cstr s @ [10, 0])"

text \<open>The offset is not negative, so \<^verbatim>\<open>%\<close> and \<^verbatim>\<open>/\<close> agree with \<open>mod\<close> and \<open>div\<close>.\<close>

definition start_VGA_init :: "bool \<Rightarrow> unit K" where
  "start_VGA_init debug =
     bind VGA_get_cursor_offset (\<lambda>cur_offs. exec [
       CON_gotoXY (of_int (cur_offs mod 80)) (of_int (cur_offs div 80)),
       VGA_enable_cursor 0 0,
       CON_setConsoleColor2 VGA_COLOR_BLACK VGA_COLOR_GREEN,
       puts_line (if debug then ''Console Init (DEBUG)'' else ''Console Init'')])"

definition start_checks :: "u32 \<Rightarrow> unit K" where
  "start_checks eax = exec [
     k_when (eax \<noteq> BROS) (KERNEL_PANIC ''EAX error'' Start_file 91),
     bind (gets (\<lambda>m. symaddr m Sym_start)) (\<lambda>a. k_when (a \<noteq> KERNEL_ADDR)
       (KERNEL_PANIC ''KERNEL_ADDR error'' Start_file 93)),
     bind (gets sys_info) (\<lambda>s. k_when (begin_marker s \<noteq> SYS_INFO_BEGIN \<or> end_marker s \<noteq> SYS_INFO_END)
       (KERNEL_PANIC ''SYS_INFO error'' Start_file 96))]"

definition start_devices :: "unit K" where
  "start_devices = exec [
     puts_line ''Init DTs'', init_descriptor_tables,
     puts_line ''Init PIC'', PIC_init,
     puts_line ''Init ISR'', ISR_init,
     puts_line ''Init IRQ'', IRQ_init,
     puts_line ''Init PIT'', PIT_init 1,
     puts_line ''Init PS/2'', PS2_init]"

definition start_boot_info :: "unit K" where
  "start_boot_info =
     bind (gets sys_info) (\<lambda>s.
     bind (undefined_if (unat (num_mem_map_entries s) > length (mem_map_entries s)) ''boot_info_sanitize: memory map'') (\<lambda>_.
     let (tot, mm) = boot_info_sanitize (tot_mem s) (num_mem_map_entries s) (mem_map_entries s) in exec [
       modify (\<lambda>m. m\<lparr>sys_info := s\<lparr>tot_mem := tot, mem_map_entries := mm\<rparr>\<rparr>),
       bind (CON_printf (cstr ''Total Available Memory: %u MB'' @ [10, 0]) [VInt (tot div 1024)]) (\<lambda>_. ret ()),
       k_when (num_mem_map_entries s < 1) (KERNEL_PANIC ''SYS_INFO entries error'' Start_file 153)]))"

definition mem_types :: "string list" where
  "mem_types = [''Available'', ''Reserved'', ''ACPI recl'', ''ACPI nvs'']"

definition show_mem_map :: "nat \<Rightarrow> unit K" where
  "show_mem_map i =
     bind (gets (\<lambda>m. mem_map_entries (sys_info m))) (\<lambda>mem_map.
     bind (undefined_if (i \<ge> length mem_map) ''_start_PMM_init: memory map'') (\<lambda>_.
     let memi = mem_map ! i; ty = unat (mtype memi - 1) in
     bind (undefined_if (ty \<ge> length mem_types) ''_start_PMM_init: index of mem_types'') (\<lambda>_.
     bind (CON_printf (cstr ''Mem Map %u: start=0x%X:%X --- length=0x%X:%X --- type=%u (%s)'' @ [10, 0])
       [VInt (of_nat i), VInt (base_addr_hi memi), VInt (base_addr_lo memi), VInt (length_hi memi),
        VInt (length_lo memi), VInt (mtype memi), VStr (cstr (mem_types ! ty) @ [0])]) (\<lambda>_. ret ()))))"

definition start_PMM_init :: "u32 \<Rightarrow> u32 \<Rightarrow> unit K" where
  "start_PMM_init kernel_end ksize =
     bind (gets (\<lambda>m. (num_mem_map_entries (sys_info m), mem_map_entries (sys_info m)))) (\<lambda>(tot_entries, mem_map).
     bind (puts_line ''Memory Regions'') (\<lambda>_.
     bind CON_getConsoleColor (\<lambda>old_col. exec [
       CON_setConsoleColor2 VGA_COLOR_RED VGA_COLOR_BRIGHT_CYAN,
       for_each show_mem_map [0..<unat tot_entries],
       CON_setConsoleColor old_col,
       puts_line ''Init PMM'',
       PMM_init (ucast tot_entries) mem_map kernel_end KERNEL_SEG ksize,
       CON_setConsoleColor \<lparr>fg_col = ucast VGA_COLOR_YELLOW, bg_col = ucast VGA_COLOR_BLUE\<rparr>,
       bind (gets (\<lambda>m. (PMM_frames_used m, PMM_frames_free m))) (\<lambda>(used, free).
         bind (CON_printf (cstr ''PMM frames: used=%u --- free=%u'' @ [10, 0])
           [VInt (of_int used), VInt (of_int free)]) (\<lambda>_. ret ())),
       CON_setConsoleColor old_col])))"

definition main_loop :: "(ISR_registers_t \<Rightarrow> unit K) \<Rightarrow> unit K" where
  "main_loop irq = wait_until (\<lambda>_. False) hlt irq"

definition main :: "(ISR_registers_t \<Rightarrow> unit K) \<Rightarrow> unit K" where
  "main irq = exec [
     VGA_WriteString 20 10 (cstr ''*** HELLO FROM BROSKRNL.SYS ***'' @ [0]) 15,
     VGA_update_cursor 0 24,
     main_loop irq]"

definition start_init :: "bool \<Rightarrow> u32 \<Rightarrow> unit K" where
  "start_init debug eax = exec [
     start_VGA_init debug,
     start_checks eax,
     start_devices,
     start_boot_info,
     bind (gets (\<lambda>m. symaddr m Sym_end)) (\<lambda>e. start_PMM_init e (e - KERNEL_ADDR)),
     puts_line ''Init VMM'',
     bind VMM_init (\<lambda>b. k_when (\<not> b) (KERNEL_PANIC ''VMM error'' Start_file 118)),
     puts_line ''Enable Interrupts'',
     sti,
     puts_line ''Init Floppy Disk Controller'',
     fdc_init kernel_irq,
     main kernel_irq]"

definition start :: "bool \<Rightarrow> u32 \<Rightarrow> unit K" where
  "start debug eax = exec [cli, start_init debug eax]"

section \<open>Lemmas: the screen at boot\<close>

text \<open>The cursor position that the CRT controller holds after a history.\<close>

definition cursor_offset :: "event list \<Rightarrow> nat" where
  "cursor_offset t = 256 * unat (snd (crtc t) 14) + unat (snd (crtc t) 15)"

lemma puts_line_term:
  assumes "con_wf m" "0 \<notin> set (cstr s)"
  shows "\<exists>m1. puts_line s m = Done () m1 \<and> con_wf m1
    \<and> term_of m1 = fold term_putc (cstr s @ [10]) (term_of m) \<and> console_step m m1"
  using CON_puts_term [OF assms(1), of "cstr s @ [10]" "[]"] assms(2) by (simp add: puts_line_def)

lemma start_VGA_init_done:
  assumes "crtc_device (hw m)" "cursor_offset (trace m) < 2000"
  shows "\<exists>m1. start_VGA_init debug m = Done () m1 \<and> con_wf m1 \<and> console_step m m1"
proof -
  define n where "n = cursor_offset (trace m)"
  let ?m1 = "m\<lparr>trace := trace m @ [Out8 VGA_REG_CTRL 14, In8 VGA_REG_DATA (snd (crtc (trace m)) 14),
    Out8 VGA_REG_CTRL 15, In8 VGA_REG_DATA (snd (crtc (trace m)) 15)]\<rparr>"
  have dev: "hw m t VGA_REG_DATA = snd (crtc t) (fst (crtc t))" for t
    using assms(1) by (simp add: crtc_device_def)
  have "push_bit 8 (uint (snd (crtc (trace m)) 14)) + uint (snd (crtc (trace m)) 15) = int n"
    unfolding n_def cursor_offset_def by (simp only: push_bit_eq_mult uint_nat) simp
  then have o: "VGA_get_cursor_offset m = Done (int n) ?m1"
    by (simp add: VGA_get_cursor_offset_def bind_def outb_def inb_def log_def modify_def ret_def Let_def dev
        crtc_append)
  have n: "n < 2000" using assms(2) by (simp add: n_def)
  define x y where "x = (of_nat (n mod 80) :: u8)" and "y = (of_nat (n div 80) :: u8)"
  have xy: "unat x = n mod 80" "unat y = n div 80" "n div 80 < 25"
    using n by (simp_all add: x_def y_def unat_of_nat_small less_mult_imp_div_less)
  have e: "of_int (int n mod 80) = x" "of_int (int n div 80) = y"
  proof -
    have "int n mod 80 = int (n mod 80)" "int n div 80 = int (n div 80)" by (simp_all add: zmod_int zdiv_int)
    then show "of_int (int n mod 80) = x" "of_int (int n div 80) = y"
      by (simp_all only: of_int_of_nat_eq x_def y_def)
  qed
  have u: "uint x = int (n mod 80)" "uint y = int (n div 80)" by (simp_all only: uint_nat xy)
  let ?c = "(con m)\<lparr>curX := x, curY := y, con_attr := 2\<rparr>"
  have "\<exists>t. exec [CON_gotoXY x y, VGA_enable_cursor 0 0, CON_setConsoleColor2 VGA_COLOR_BLACK VGA_COLOR_GREEN] ?m1
      = Done () (m\<lparr>trace := t, con := ?c\<rparr>)"
    using xy(3) by (simp add: CON_gotoXY_def VGA_update_cursor_done u in_int32_def bind_def VGA_enable_cursor_def
        outb_def inb_def log_def modify_def Let_def ret_def mod_con_def CON_setConsoleColor2_def
        VGA_COLOR_BLACK_def VGA_COLOR_GREEN_def)
       (rule exI, rule refl)
  then obtain t where t: "exec [CON_gotoXY x y, VGA_enable_cursor 0 0, CON_setConsoleColor2 VGA_COLOR_BLACK VGA_COLOR_GREEN] ?m1
      = Done () (m\<lparr>trace := t, con := ?c\<rparr>)" by blast
  let ?m3 = "m\<lparr>trace := t, con := ?c\<rparr>" and ?s = "if debug then ''Console Init (DEBUG)'' else ''Console Init''"
  have wf: "con_wf ?m3" using xy(3) by (simp add: con_wf_def u8_less xy(1,2))
  have "0 \<notin> set (cstr ?s)" by (simp add: cstr_def)
  from puts_line_term [OF wf this] obtain m4 where m4: "puts_line ?s ?m3 = Done () m4" "con_wf m4" "console_step ?m3 m4"
    by blast
  have "start_VGA_init debug m = bind (exec [CON_gotoXY x y, VGA_enable_cursor 0 0, CON_setConsoleColor2 VGA_COLOR_BLACK
      VGA_COLOR_GREEN]) (\<lambda>_. exec [puts_line ?s]) ?m1"
    by (simp add: start_VGA_init_def bind_def [of VGA_get_cursor_offset] o e bind_assoc)
  moreover have "console_step m ?m3" by (simp add: console_step_def screen_only_def)
  ultimately show ?thesis
    using m4 t by (intro exI [of _ m4]) (simp add: bind_def ret_def console_step_trans)
qed

section \<open>Lemmas: console output and the keyboard controller\<close>

text \<open>Output touches no port of the keyboard controller.\<close>

lemma connected_outb: "p \<noteq> 0x60 \<Longrightarrow> p \<noteq> 0x64 \<Longrightarrow> preserves (\<lambda>m. connected m c) (outb p v)"
  using connected_later [where es = "[Out8 p v]"]
  by (fastforce simp: preserves_def triple_def outb_def log_def modify_def)

lemma connected_ram: "connected (m\<lparr>ram := r\<rparr>) c = connected m c"
  by (simp add: connected_def)

lemma connected_con: "connected (m\<lparr>con := x\<rparr>) c = connected m c"
  by (simp add: connected_def)

lemma connected_stable: "console_stable (\<lambda>m. connected m c)"
  unfolding console_stable_def
  by (intro conjI allI connected_outb) (simp_all add: connected_ram connected_con VGA_REG_CTRL_def VGA_REG_DATA_def)

lemmas connected_frame = preserves_bind preserves_gets preserves_when preserves_exec preserves_ret
  preserves_stop preserves_if stable_mod_con [OF connected_stable] stable_cursor [OF connected_stable]
  stable_ram [OF connected_stable]

lemmas connected_puts = stable_puts [OF connected_stable]

lemma connected_start_VGA_init: "preserves (\<lambda>m. connected m c) (start_VGA_init debug)"
proof -
  have "preserves (\<lambda>m. connected m c) (inb VGA_REG_DATA)"
    unfolding preserves_def triple_def inb_def Let_def VGA_REG_DATA_def
  proof (intro allI impI)
    fix m
    assume "connected m c"
    from connected_later [OF this, of "[In8 0x3D5 (hw m (trace m) 0x3D5)]"]
    show "case Done (hw m (trace m) 0x3D5) (m\<lparr>trace := trace m @ [In8 0x3D5 (hw m (trace m) 0x3D5)]\<rparr>) of
        Done x m1 \<Rightarrow> connected m1 c | Stop r m1 \<Rightarrow> connected m1 c" by simp
  qed
  moreover have "preserves (\<lambda>m. connected m c) (outb VGA_REG_CTRL v)" "preserves (\<lambda>m. connected m c) (outb VGA_REG_DATA v)" for v
    by (intro connected_outb; simp add: VGA_REG_CTRL_def VGA_REG_DATA_def)+
  ultimately show ?thesis
    unfolding start_VGA_init_def VGA_get_cursor_offset_def CON_gotoXY_def VGA_enable_cursor_def puts_line_def
      CON_setConsoleColor2_def
    by (auto intro!: connected_frame connected_puts)
qed

lemma connected_puts_line: "preserves (\<lambda>m. connected m c) (puts_line s)"
  unfolding puts_line_def by (rule connected_puts)

text \<open>Events that the controller does not see.\<close>

lemma connected_events:
  assumes "connected m c" "hw m1 = hw m" "trace m1 = trace m @ es" "fold i8042_step es c = c"
  shows "connected m1 c"
  using assms unfolding connected_def by (metis append.assoc fold_append comp_apply)

lemma puts_line_connected:
  assumes "con_wf m" "0 \<notin> set (cstr s)" "connected m c"
  shows "\<exists>m1. puts_line s m = Done () m1 \<and> con_wf m1 \<and> console_step m m1 \<and> connected m1 c"
proof -
  obtain m1 where m1: "puts_line s m = Done () m1" "con_wf m1" "console_step m m1"
    using puts_line_term [OF assms(1,2)] by blast
  then show ?thesis using preserves_Done [OF connected_puts_line assms(3) m1(1)] by blast
qed

text \<open>What console output leaves alone.\<close>

lemma console_step_frame:
  assumes "console_step m m1"
  shows "hw m1 = hw m" "symaddr m1 = symaddr m" "sys_info m1 = sys_info m" "idtd m1 = idtd m" "gdtd m1 = gdtd m"
    "isr_handlers m1 = isr_handlers m" "iflag m1 = iflag m" "ticks m1 = ticks m" "pmm m1 = pmm m" "vmm m1 = vmm m"
    "eflags_stack m1 = eflags_stack m" "irq_sched m1 = irq_sched m" "cr0 m1 = cr0 m" "cr3 m1 = cr3 m"
    "ring m1 = ring m" "mouse m1 = mouse m" "fdc m1 = fdc m"
proof -
  obtain r k t where "m1 = m\<lparr>ram := r, con := k, trace := t\<rparr>"
    using assms unfolding console_step_def by blast
  then show "hw m1 = hw m" "symaddr m1 = symaddr m" "sys_info m1 = sys_info m" "idtd m1 = idtd m" "gdtd m1 = gdtd m"
    "isr_handlers m1 = isr_handlers m" "iflag m1 = iflag m" "ticks m1 = ticks m" "pmm m1 = pmm m" "vmm m1 = vmm m"
    "eflags_stack m1 = eflags_stack m" "irq_sched m1 = irq_sched m" "cr0 m1 = cr0 m" "cr3 m1 = cr3 m"
    "ring m1 = ring m" "mouse m1 = mouse m" "fdc m1 = fdc m"
    by simp_all
qed

section \<open>Lemmas: the devices\<close>

lemma PIC_init_events: "\<exists>es. PIC_init m = Done () (m\<lparr>trace := trace m @ es\<rparr>) \<and> (\<forall>c. fold i8042_step es c = c)"
  by (simp add: PIC_init_def outb_def log_def ret_def PIC1_REG_CMD_def PIC2_REG_CMD_def PIC1_REG_DATA_def PIC2_REG_DATA_def)
     (simp add: bind_def modify_def ret_def, rule exI, rule conjI, rule refl, simp)

lemma PIT_init_events: "\<exists>es. PIT_init 1 m = Done () (m\<lparr>ticks := 0, trace := trace m @ es,
    isr_handlers := (isr_handlers m)[32 := Some Timer_callback]\<rparr>) \<and> (\<forall>c. fold i8042_step es c = c)"
  by (simp add: PIT_init_def bind_def [of "PIT_set_timer_freq _"] PIT_set_timer_freq_done IRQ_register_interrupt_handler_def
      ISR_register_interrupt_handler_def IRQ_TIMER_def PIC1_BASE_INT_def modify_def ret_def)
     (rule exI, rule conjI, rule refl, simp)

lemma DT_init_events:
  assumes "length (idtd m) = 256"
  shows "\<exists>g es. init_descriptor_tables m = Done () (m\<lparr>gdtd := g,
      idtd := replicate 256 (kernel_gate (symaddr m Sym_IDT_default_handler)), iflag := False, trace := trace m @ es\<rparr>)
    \<and> (\<forall>c. fold i8042_step es c = c)"
proof -
  obtain m1 where m1: "init_descriptor_tables m = Done () m1"
    "idtd m1 = replicate 256 (kernel_gate (symaddr m Sym_IDT_default_handler))"
    "m1 = m\<lparr>gdtd := gdtd m1, idtd := idtd m1, iflag := False,
        trace := trace m @ [Cli, Lgdt \<lparr>dt_size = 47, dt_offset = symaddr m Sym_gdtd\<rparr>,
          Reload_segments 8 16, Lidt \<lparr>dt_size = 2047, dt_offset = symaddr m Sym_idtd\<rparr>]\<rparr>"
    using init_descriptor_tables_done [OF assms] by blast
  show ?thesis
    by (rule exI [of _ "gdtd m1"], rule exI [of _ "[Cli, Lgdt \<lparr>dt_size = 47, dt_offset = symaddr m Sym_gdtd\<rparr>,
          Reload_segments 8 16, Lidt \<lparr>dt_size = 2047, dt_offset = symaddr m Sym_idtd\<rparr>]"])
       (simp only: m1(1) m1(2) [symmetric] m1(3) [symmetric], simp)
qed

lemma start_devices_tables:
  assumes "con_wf m" "connected m c" "length (idtd m) = 256"
  shows "\<exists>m1. exec [puts_line ''Init DTs'', init_descriptor_tables, puts_line ''Init PIC'', PIC_init,
      puts_line ''Init ISR'', ISR_init, puts_line ''Init IRQ'', IRQ_init] m = Done () m1
    \<and> con_wf m1 \<and> connected m1 c \<and> \<not> iflag m1
    \<and> idtd m1 = map (\<lambda>n. kernel_gate (symaddr m (vector_symbol n))) [0..<256]
    \<and> symaddr m1 = symaddr m \<and> sys_info m1 = sys_info m \<and> isr_handlers m1 = isr_handlers m
    \<and> hw m1 = hw m \<and> irq_sched m1 = irq_sched m \<and> ring m1 = ring m \<and> mouse m1 = mouse m \<and> fdc m1 = fdc m"
proof -
  obtain m1 where 1: "puts_line ''Init DTs'' m = Done () m1" "con_wf m1" "console_step m m1" "connected m1 c"
    using puts_line_connected [OF assms(1) _ assms(2), of "''Init DTs''"] by (auto simp: cstr_def)
  note f1 = console_step_frame [OF 1(3)]
  let ?t = "replicate 256 (kernel_gate (symaddr m Sym_IDT_default_handler))"
  obtain g es where 2: "init_descriptor_tables m1 = Done () (m1\<lparr>gdtd := g, idtd := ?t, iflag := False, trace := trace m1 @ es\<rparr>)"
    "fold i8042_step es c = c" using DT_init_events [of m1] f1 assms(3) by auto
  let ?m2 = "m1\<lparr>gdtd := g, idtd := ?t, iflag := False, trace := trace m1 @ es\<rparr>"
  have c2: "connected ?m2 c" "con_wf ?m2"
    using 1(2) by (simp_all add: connected_events [OF 1(4) _ _ 2(2)] con_wf_def)
  obtain m3 where 3: "puts_line ''Init PIC'' ?m2 = Done () m3" "con_wf m3" "console_step ?m2 m3" "connected m3 c"
    using puts_line_connected [OF c2(2) _ c2(1), of "''Init PIC''"] by (auto simp: cstr_def)
  note f3 = console_step_frame [OF 3(3)]
  obtain fs where 4: "PIC_init m3 = Done () (m3\<lparr>trace := trace m3 @ fs\<rparr>)" "fold i8042_step fs c = c"
    using PIC_init_events [of m3] by auto
  let ?m4 = "m3\<lparr>trace := trace m3 @ fs\<rparr>"
  have c4: "connected ?m4 c" "con_wf ?m4"
    using 3(2) by (simp_all add: connected_events [OF 3(4) _ _ 4(2)] con_wf_def)
  obtain m5 where 5: "puts_line ''Init ISR'' ?m4 = Done () m5" "con_wf m5" "console_step ?m4 m5" "connected m5 c"
    using puts_line_connected [OF c4(2) _ c4(1), of "''Init ISR''"] by (auto simp: cstr_def)
  note f5 = console_step_frame [OF 5(3)]
  let ?i = "fold (\<lambda>(n, f) t. t[unat n := kernel_gate (symaddr m f)])"
  let ?m6 = "m5\<lparr>idtd := ?i isr_gates ?t\<rparr>"
  have 6: "ISR_init m5 = Done () ?m6" "con_wf ?m6" "connected ?m6 c"
    using 5(2,4) f5 f3 f1 by (simp_all add: ISR_init_gates set_gates_done con_wf_def connected_def)
  obtain m7 where 7: "puts_line ''Init IRQ'' ?m6 = Done () m7" "con_wf m7" "console_step ?m6 m7" "connected m7 c"
    using puts_line_connected [OF 6(2) _ 6(3), of "''Init IRQ''"] by (auto simp: cstr_def)
  note f7 = console_step_frame [OF 7(3)]
  let ?m8 = "m7\<lparr>idtd := map (\<lambda>n. kernel_gate (symaddr m (vector_symbol n))) [0..<256]\<rparr>"
  have gates: "?i irq_gates (?i isr_gates ?t) = map (\<lambda>n. kernel_gate (symaddr m (vector_symbol n))) [0..<256]"
    using all_gates [where g = "symaddr m", OF refl] by (simp only: fold_append comp_apply)
  have 8: "IRQ_init m7 = Done () ?m8" "con_wf ?m8" "connected ?m8 c"
    using 7(2,4) f7 f5 f3 f1 gates
    by (simp_all add: IRQ_init_gates set_gates_done con_wf_def connected_def del: upt_rec_numeral)
  show ?thesis
    using 8 f7 f5 f3 f1
    by (intro exI [of _ ?m8])
       (simp add: bind_def 1(1) 2(1) 3(1) 4(1) 5(1) 6(1) 7(1) 8(1) ret_def del: upt_rec_numeral)
qed

lemma start_devices_done:
  assumes "con_wf m" "connected m c" "length (idtd m) = 256" "length (obuf c) \<le> 1" "dest c = To_Keyboard"
    and "kbd_param c = No_Param" "mouse_param c = No_Param"
  shows "\<exists>m1 c1. start_devices m = Done () m1 \<and> con_wf m1 \<and> connected m1 c1 \<and> \<not> iflag m1
    \<and> idtd m1 = map (\<lambda>n. kernel_gate (symaddr m (vector_symbol n))) [0..<256]
    \<and> isr_handlers m1 = (isr_handlers m)[32 := Some Timer_callback, 33 := Some Keyboard_handler, 44 := Some Mouse_handler]
    \<and> ticks m1 = 0 \<and> symaddr m1 = symaddr m \<and> sys_info m1 = sys_info m
    \<and> hw m1 = hw m \<and> irq_sched m1 = irq_sched m \<and> ring m1 = ring m \<and> mouse m1 = mouse m \<and> fdc m1 = fdc m
    \<and> obuf c1 = [] \<and> kbd_set c1 = 2 \<and> mouse_reporting c1 \<and> bit (config c1) 0 \<and> bit (config c1) 1"
proof -
  obtain m1 where 1: "exec [puts_line ''Init DTs'', init_descriptor_tables, puts_line ''Init PIC'', PIC_init,
      puts_line ''Init ISR'', ISR_init, puts_line ''Init IRQ'', IRQ_init] m = Done () m1"
    "con_wf m1" "connected m1 c" "\<not> iflag m1" "symaddr m1 = symaddr m" "sys_info m1 = sys_info m"
    "idtd m1 = map (\<lambda>n. kernel_gate (symaddr m (vector_symbol n))) [0..<256]" "isr_handlers m1 = isr_handlers m"
    "hw m1 = hw m" "irq_sched m1 = irq_sched m" "ring m1 = ring m" "mouse m1 = mouse m" "fdc m1 = fdc m"
    using start_devices_tables [OF assms(1-3)] by blast
  obtain m2 where 2: "puts_line ''Init PIT'' m1 = Done () m2" "con_wf m2" "console_step m1 m2" "connected m2 c"
    using puts_line_connected [OF 1(2) _ 1(3), of "''Init PIT''"] by (auto simp: cstr_def)
  note f2 = console_step_frame [OF 2(3)]
  obtain es where 3: "PIT_init 1 m2 = Done () (m2\<lparr>ticks := 0, trace := trace m2 @ es,
      isr_handlers := (isr_handlers m2)[32 := Some Timer_callback]\<rparr>)" "fold i8042_step es c = c"
    using PIT_init_events [of m2] by blast
  let ?m3 = "m2\<lparr>ticks := 0, trace := trace m2 @ es, isr_handlers := (isr_handlers m2)[32 := Some Timer_callback]\<rparr>"
  have c3: "connected ?m3 c" "con_wf ?m3"
    using 2(2) by (simp_all add: connected_events [OF 2(4) _ _ 3(2)] con_wf_def)
  obtain m4 where 4: "puts_line ''Init PS/2'' ?m3 = Done () m4" "con_wf m4" "console_step ?m3 m4" "connected m4 c"
    using puts_line_connected [OF c3(2) _ c3(1), of "''Init PS/2''"] by (auto simp: cstr_def)
  note f4 = console_step_frame [OF 4(3)]
  obtain fs c1 where 5: "PS2_init m4 = Done () (m4\<lparr>trace := trace m4 @ fs,
      isr_handlers := (isr_handlers m4)[33 := Some Keyboard_handler, 44 := Some Mouse_handler]\<rparr>)"
    "c1 = fold i8042_step fs c" "obuf c1 = []" "kbd_set c1 = 2" "mouse_reporting c1"
    "\<forall>n. bit (config c1) n \<longleftrightarrow> n = 0 \<or> n = 1 \<or> (bit (config c) n \<and> n \<notin> {4, 5, 6})"
    using PS2_init_done [OF 4(4) assms(4-7)] by auto
  let ?m5 = "m4\<lparr>trace := trace m4 @ fs,
      isr_handlers := (isr_handlers m4)[33 := Some Keyboard_handler, 44 := Some Mouse_handler]\<rparr>"
  have c5: "connected ?m5 c1" "con_wf ?m5"
    using 4(2) connected_later [OF 4(4), of fs] 5(2) by (simp_all add: con_wf_def connected_def)
  have "start_devices m = bind (exec [puts_line ''Init DTs'', init_descriptor_tables, puts_line ''Init PIC'', PIC_init,
      puts_line ''Init ISR'', ISR_init, puts_line ''Init IRQ'', IRQ_init])
      (\<lambda>_. exec [puts_line ''Init PIT'', PIT_init 1, puts_line ''Init PS/2'', PS2_init]) m"
    by (simp add: start_devices_def bind_assoc)
  also have "\<dots> = Done () ?m5"
    by (simp only: bind_def [of "exec _"] 1(1)) (simp add: bind_def 2(1) 3(1) 4(1) 5(1) ret_def)
  finally show ?thesis
    using c5 5(3-6) f2 f4 1(4-13) by (intro exI [of _ ?m5] exI [of _ c1]) (simp del: upt_rec_numeral)
qed

section \<open>Lemmas: the checks\<close>

text \<open>The reason for which the boot stops, if it does: the first check that fails.\<close>

definition boot_error :: "u32 \<Rightarrow> machine \<Rightarrow> (string \<times> nat) option" where
  "boot_error eax m = (if eax \<noteq> 0x42524F53 then Some (''EAX error'', 91)
     else if symaddr m Sym_start \<noteq> 0x100000 then Some (''KERNEL_ADDR error'', 93)
     else if begin_marker (sys_info m) \<noteq> 0x12345678 \<or> end_marker (sys_info m) \<noteq> 0x87654321
       then Some (''SYS_INFO error'', 96) else None)"

lemma start_panic:
  assumes "s \<in> {''EAX error'', ''KERNEL_ADDR error'', ''SYS_INFO error'', ''SYS_INFO entries error'', ''VMM error''}" "n < 2 ^ 31"
  shows "\<exists>m1. (KERNEL_PANIC s Start_file n :: unit K) m = Stop (Panic (cstr s @ [0]) (cstr Start_file @ [0]) n) m1
    \<and> \<not> iflag m1 \<and> term_of m1 = fold term_putc (panic_text (cstr s) (cstr Start_file) n) panic_screen"
proof -
  have "0 \<notin> set (cstr s)" "length s \<le> 30" using assms(1) by (auto simp: cstr_def)
  then show ?thesis
    using panic_stops [of "cstr s" "cstr Start_file" n m, where 'a = unit] assms(2)
    by (simp add: KERNEL_PANIC_def) (auto simp: Start_file_def cstr_def)
qed

lemma start_checks_result:
  "case boot_error eax m of
     None \<Rightarrow> start_checks eax m = Done () m
   | Some (s, n) \<Rightarrow> \<exists>m1. start_checks eax m = Stop (Panic (cstr s @ [0]) (cstr Start_file @ [0]) n) m1 \<and> \<not> iflag m1
       \<and> term_of m1 = fold term_putc (panic_text (cstr s) (cstr Start_file) n) panic_screen"
  using start_panic [of "''EAX error''" 91 m] start_panic [of "''KERNEL_ADDR error''" 93 m]
    start_panic [of "''SYS_INFO error''" 96 m]
  by (auto simp: boot_error_def start_checks_def boot_codes k_when_def bind_def gets_def ret_def SYS_INFO_BEGIN_def
      SYS_INFO_END_def)

section \<open>Lemmas: memory at boot\<close>

lemma printf_line:
  assumes "con_wf m" "list_all piece_printable ps" "sum_list (map piece_width ps) < 256"
    and "fmt = fmt_of ps @ [0]" "args = args_of ps"
  shows "\<exists>i m1. CON_printf fmt args m = Done i m1 \<and> con_wf m1 \<and> console_step m m1"
  using CON_printf_pieces_w [OF assms(1-3)] assms(4,5) by blast

text \<open>The checks of the memory map that make its entries printable.\<close>

definition map_ok :: "u8 \<Rightarrow> boot_MEM_MAP_Info_Entry_t list \<Rightarrow> bool" where
  "map_ok n mm \<longleftrightarrow> unat n \<le> length mm \<and> list_all (\<lambda>e. 1 \<le> mtype e \<and> mtype e \<le> 4) (take (unat n) mm)"

lemma show_mem_map_done:
  assumes "con_wf m" "mem_map_entries (sys_info m) = mm" "map_ok n mm" "i < unat n"
  shows "\<exists>m1. show_mem_map i m = Done () m1 \<and> con_wf m1 \<and> console_step m m1"
proof -
  have i: "i < length mm" using assms(3,4) by (simp add: map_ok_def)
  have "mm ! i \<in> set (take (unat n) mm)" using assms(3,4) i by (auto simp: in_set_conv_nth map_ok_def)
  then have "1 \<le> mtype (mm ! i)" "mtype (mm ! i) \<le> 4" using assms(3) by (auto simp: map_ok_def list_all_iff)
  then have ty: "unat (mtype (mm ! i) - 1) < 4"
    by (simp add: unat_sub word_le_nat_alt)
  define t where "t = mem_types ! unat (mtype (mm ! i) - 1)"
  have "t \<in> set mem_types" unfolding t_def using ty by (intro nth_mem) (simp add: mem_types_def)
  then have t: "length t \<le> 9" "0 \<notin> set (cstr t)" by (auto simp: mem_types_def cstr_def)
  let ?e = "mm ! i"
  let ?ps = "[Lit (cstr ''Mem Map ''), Uns (of_nat i), Lit (cstr '': start=0x''), Hex True (base_addr_hi ?e), Lit (cstr '':''),
    Hex True (base_addr_lo ?e), Lit (cstr '' --- length=0x''), Hex True (length_hi ?e), Lit (cstr '':''),
    Hex True (length_lo ?e), Lit (cstr '' --- type=''), Uns (mtype ?e), Lit (cstr '' (''), Str (cstr t), Lit (cstr '')'' @ [10])]"
  have ps: "list_all piece_printable ?ps" "sum_list (map piece_width ?ps) < 256"
    using t by (auto simp: piece_printable_def cstr_def)
  have f: "cstr ''Mem Map %u: start=0x%X:%X --- length=0x%X:%X --- type=%u (%s)'' @ [10, 0] = fmt_of ?ps @ [0]"
    "[VInt (of_nat i), VInt (base_addr_hi ?e), VInt (base_addr_lo ?e), VInt (length_hi ?e),
       VInt (length_lo ?e), VInt (mtype ?e), VStr (cstr t @ [0])] = args_of ?ps"
    by (simp_all add: pieces_simps cstr_def)
  obtain k m1 where m1: "CON_printf (fmt_of ?ps @ [0]) (args_of ?ps) m = Done k m1" "con_wf m1" "console_step m m1"
    using printf_line [OF assms(1) ps refl refl] by blast
  have "show_mem_map i m = bind (CON_printf (fmt_of ?ps @ [0]) (args_of ?ps)) (\<lambda>_. ret ()) m"
    unfolding f [symmetric] using i ty assms(2)
    by (simp add: show_mem_map_def undefined_if_def Let_def t_def mem_types_def)
  then show ?thesis
    using m1 by (simp add: bind_def ret_def)
qed

lemma show_mem_maps_done:
  assumes "map_ok n mm" "set is \<subseteq> {..<unat n}" "con_wf m" "mem_map_entries (sys_info m) = mm"
  shows "\<exists>m1. for_each show_mem_map is m = Done () m1 \<and> con_wf m1 \<and> console_step m m1"
  using assms(2-4)
proof (induction "is" arbitrary: m)
  case Nil
  then show ?case by (simp add: ret_def)
next
  case (Cons i js)
  obtain m1 where m1: "show_mem_map i m = Done () m1" "con_wf m1" "console_step m m1"
    using show_mem_map_done [OF Cons.prems(2,3) assms(1)] Cons.prems(1) by auto
  obtain m2 where "for_each show_mem_map js m1 = Done () m2" "con_wf m2" "console_step m1 m2"
    using Cons.IH [of m1] Cons.prems m1(2) console_step_frame(3) [OF m1(3)] by auto
  then show ?case
    using m1 by (auto simp: bind_def intro: console_step_trans)
qed

lemma start_boot_info_done:
  assumes "con_wf m" "n = num_mem_map_entries (sys_info m)" "n \<noteq> 0" "unat n \<le> length (mem_map_entries (sys_info m))"
  shows "\<exists>m1. start_boot_info m = Done () m1 \<and> con_wf m1
    \<and> (\<exists>tot mm. boot_info_sanitize (tot_mem (sys_info m)) n (mem_map_entries (sys_info m)) = (tot, mm)
      \<and> map_ok n mm \<and> console_step (m\<lparr>sys_info := (sys_info m)\<lparr>tot_mem := tot, mem_map_entries := mm\<rparr>\<rparr>) m1)"
proof -
  let ?s = "sys_info m"
  obtain tot mm where b: "boot_info_sanitize (tot_mem ?s) n (mem_map_entries ?s) = (tot, mm)" by fastforce
  obtain es t where st: "sanitize_loop (take (unat n) (mem_map_entries ?s)) 0 = (es, t)" by fastforce
  then have es: "es = map sanitize_entry (take (unat n) (mem_map_entries ?s))"
    using sanitize_loop_entries [of "take (unat n) (mem_map_entries ?s)" 0] by simp
  then have mm: "mm = es @ drop (unat n) (mem_map_entries ?s)"
    using b assms(3) st by (auto simp: boot_info_sanitize_def)
  have ok: "map_ok n mm"
    using assms(4) sanitize_entry_type by (auto simp: mm es map_ok_def list_all_iff)
  let ?m = "m\<lparr>sys_info := ?s\<lparr>tot_mem := tot, mem_map_entries := mm\<rparr>\<rparr>"
  let ?ps = "[Lit (cstr ''Total Available Memory: ''), Uns (tot div 1024), Lit (cstr '' MB'' @ [10])]"
  have ps: "list_all piece_printable ?ps" "sum_list (map piece_width ?ps) < 256" "con_wf ?m"
    using assms(1) by (auto simp: piece_printable_def cstr_def con_wf_def)
  have f: "cstr ''Total Available Memory: %u MB'' @ [10, 0] = fmt_of ?ps @ [0]" "[VInt (tot div 1024)] = args_of ?ps"
    by (simp_all add: pieces_simps cstr_def)
  obtain k m1 where m1: "CON_printf (fmt_of ?ps @ [0]) (args_of ?ps) ?m = Done k m1" "con_wf m1" "console_step ?m m1"
    using printf_line [OF ps(3,1,2) refl refl] by blast
  have "\<not> n < 1" using assms(3) by (simp add: word_less_nat_alt unat_eq_zero)
  then have "start_boot_info m = bind (CON_printf (fmt_of ?ps @ [0]) (args_of ?ps)) (\<lambda>_. ret ()) ?m"
    unfolding f [symmetric] using assms(2,4) b
    by (simp add: start_boot_info_def undefined_if_def Let_def bind_assoc k_when_def)
  then show ?thesis
    using m1 b ok by (intro exI [of _ m1]) (simp add: bind_def ret_def)
qed

text \<open>Console output leaves a bitmap above the first megabyte alone.\<close>

lemma vga_region_bounds: "vga_region a \<Longrightarrow> 0xB8000 \<le> unat a \<and> unat a < 0xB8FA0"
proof -
  assume "vga_region a"
  then obtain i where "i < 4000" "a = 0xB8000 + of_nat i"
    unfolding vga_region_def VGA_MEM_TEXT_def by (blast dest: in_region_ex)
  then show ?thesis by (simp add: unat_word_ariths unat_of_nat_small)
qed

lemma vga_region_below: "vga_region a \<Longrightarrow> unat a < 0x100000"
  using vga_region_bounds [of a] by simp

definition bitmap_high :: "machine \<Rightarrow> bool" where
  "bitmap_high m \<longleftrightarrow> 0x100000 \<le> unat (frames_map (pmm m))
     \<and> unat (frames_map (pmm m)) + bitmap_size (unat (total_frames (pmm m))) \<le> 2 ^ 32"

lemma used_set_console:
  assumes "console_step m m1" "bitmap_high m"
  shows "used_set m1 = used_set m" "pmm_inv m \<Longrightarrow> pmm_inv m1"
proof -
  have p: "pmm m1 = pmm m" by (rule console_step_frame [OF assms(1)])
  have "ram m1 (bit_addr (frames_map (pmm m)) f) = ram m (bit_addr (frames_map (pmm m)) f)" if "f < total_frames (pmm m)" for f
  proof -
    have "unat f div 8 < bitmap_size (unat (total_frames (pmm m)))"
      using that by (simp add: bitmap_size_def word_less_nat_alt)
    then have "unat (bit_addr (frames_map (pmm m)) f) = unat (frames_map (pmm m)) + unat f div 8"
      using assms(2) by (simp add: bitmap_high_def bit_addr_def unat_word_ariths unat_div_numeral_u32)
    then have "\<not> vga_region (bit_addr (frames_map (pmm m)) f)" using vga_region_below assms(2) unfolding bitmap_high_def by fastforce
    then show ?thesis using assms(1) by (simp add: console_step_def screen_only_def)
  qed
  then show u: "used_set m1 = used_set m" by (auto simp: used_set_def p test_byte)
  show "pmm_inv m \<Longrightarrow> pmm_inv m1" by (simp add: pmm_inv_def p u)
qed

text \<open>The conditions under which the physical memory manager starts.\<close>

definition memory_fits :: "u8 \<Rightarrow> boot_MEM_MAP_Info_Entry_t list \<Rightarrow> u32 \<Rightarrow> u32 \<Rightarrow> bool" where
  "memory_fits n mm kend ksize \<longleftrightarrow> map_ok n mm \<and> list_all below_4GB (take (unat n) mm)
     \<and> (let T = frames_up (max_end (take (unat n) mm)) in
       0x1000 + unat ksize \<le> T * 4096 \<and> 0x1000 + unat ksize < 2 ^ 32
       \<and> 0x100000 \<le> unat kend \<and> unat kend < 2 ^ 32 - 7
       \<and> bitmap_at kend + bitmap_size T \<le> T * 4096 \<and> bitmap_at kend + bitmap_size T < 2 ^ 32)"

definition boot_used :: "u8 \<Rightarrow> boot_MEM_MAP_Info_Entry_t list \<Rightarrow> u32 \<Rightarrow> u32 \<Rightarrow> u32 set" where
  "boot_used n mm kend ksize = (\<Union>e \<in> set (take (unat n) mm). region_frames e)
     \<union> frame_range 0x1000 (0x1000 + unat ksize)
     \<union> frame_range (bitmap_at kend) (bitmap_at kend + bitmap_size (frames_up (max_end (take (unat n) mm))))"

text \<open>The colours, and the two parts of the console output around \<^verbatim>\<open>PMM_init\<close>.\<close>

lemma set_color_done:
  assumes "con_wf m"
  shows "\<exists>m1. CON_setConsoleColor2 b f m = Done () m1 \<and> con_wf m1 \<and> console_step m m1"
    and "\<exists>m1. CON_setConsoleColor c m = Done () m1 \<and> con_wf m1 \<and> console_step m m1"
  using assms unfolding CON_setConsoleColor_def
  by (simp_all add: CON_setConsoleColor2_def mod_con_def modify_def con_wf_def)

lemma show_memory_done:
  assumes "con_wf m" "map_ok (num_mem_map_entries (sys_info m)) (mem_map_entries (sys_info m))"
  shows "\<exists>m1. exec [CON_setConsoleColor2 VGA_COLOR_RED VGA_COLOR_BRIGHT_CYAN,
        for_each show_mem_map [0..<unat (num_mem_map_entries (sys_info m))],
        CON_setConsoleColor old, puts_line ''Init PMM''] m = Done () m1
    \<and> con_wf m1 \<and> console_step m m1"
proof -
  obtain m2 where 2: "CON_setConsoleColor2 VGA_COLOR_RED VGA_COLOR_BRIGHT_CYAN m = Done () m2" "con_wf m2" "console_step m m2"
    using set_color_done(1) [OF assms(1)] by blast
  have s2: "mem_map_entries (sys_info m2) = mem_map_entries (sys_info m)" using console_step_frame(3) [OF 2(3)] by simp
  obtain m3 where 3: "for_each show_mem_map [0..<unat (num_mem_map_entries (sys_info m))] m2 = Done () m3" "con_wf m3" "console_step m2 m3"
    using show_mem_maps_done [OF assms(2) _ 2(2) s2, of "[0..<unat (num_mem_map_entries (sys_info m))]"] by (auto simp: atLeast0LessThan)
  obtain m4 where 4: "CON_setConsoleColor old m3 = Done () m4" "con_wf m4" "console_step m3 m4"
    using set_color_done(2) [OF 3(2)] by blast
  obtain m5 where 5: "puts_line ''Init PMM'' m4 = Done () m5" "con_wf m5" "console_step m4 m5"
    using puts_line_term [OF 4(2), of "''Init PMM''"] by (auto simp: cstr_def)
  show ?thesis
    using 2 3 4 5 by (intro exI [of _ m5]) (auto simp: bind_def ret_def intro: console_step_trans)
qed

lemma report_frames_done:
  assumes "con_wf m"
  shows "\<exists>m1. exec [CON_setConsoleColor c,
      bind (gets (\<lambda>m. (PMM_frames_used m, PMM_frames_free m))) (\<lambda>(used, free).
        bind (CON_printf (cstr ''PMM frames: used=%u --- free=%u'' @ [10, 0]) [VInt (of_int used), VInt (of_int free)]) (\<lambda>_. ret ())),
      CON_setConsoleColor old] m = Done () m1 \<and> con_wf m1 \<and> console_step m m1"
proof -
  obtain m7 where 7: "CON_setConsoleColor c m = Done () m7" "con_wf m7" "console_step m m7"
    using set_color_done(2) [OF assms] by blast
  let ?u = "of_int (PMM_frames_used m7) :: u32" and ?f = "of_int (PMM_frames_free m7) :: u32"
  let ?ps = "[Lit (cstr ''PMM frames: used=''), Uns ?u, Lit (cstr '' --- free=''), Uns ?f, Lit [10]]"
  have ps: "list_all piece_printable ?ps" "sum_list (map piece_width ?ps) < 256"
    by (auto simp: piece_printable_def cstr_def)
  have f: "cstr ''PMM frames: used=%u --- free=%u'' @ [10, 0] = fmt_of ?ps @ [0]" "[VInt ?u, VInt ?f] = args_of ?ps"
    by (simp_all add: pieces_simps cstr_def)
  obtain k m8 where 8: "CON_printf (cstr ''PMM frames: used=%u --- free=%u'' @ [10, 0]) [VInt ?u, VInt ?f] m7 = Done k m8"
    "con_wf m8" "console_step m7 m8"
    using printf_line [OF 7(2) ps f] by blast
  obtain m9 where 9: "CON_setConsoleColor old m8 = Done () m9" "con_wf m9" "console_step m8 m9"
    using set_color_done(2) [OF 8(2)] by blast
  show ?thesis
    using 7 8 9 by (intro exI [of _ m9]) (auto simp: bind_def gets_def ret_def intro: console_step_trans)
qed

lemma start_PMM_init_done:
  assumes "con_wf m" "n = num_mem_map_entries (sys_info m)" "mm = mem_map_entries (sys_info m)"
    and "memory_fits n mm kend ksize"
  shows "\<exists>m1. start_PMM_init kend ksize m = Done () m1 \<and> con_wf m1 \<and> pmm_inv m1
    \<and> unat (total_frames (pmm m1)) = frames_up (max_end (take (unat n) mm))
    \<and> used_set m1 = boot_used n mm kend ksize \<and> bitmap_high m1
    \<and> (\<exists>r k t p. m1 = m\<lparr>ram := r, con := k, trace := t, pmm := p\<rparr>)"
proof -
  have ok: "map_ok n mm" using assms(4) by (simp add: memory_fits_def)
  let ?T = "frames_up (max_end (take (unat n) mm))"
  obtain m1 where 1: "puts_line ''Memory Regions'' m = Done () m1" "con_wf m1" "console_step m m1"
    using puts_line_term [OF assms(1), of "''Memory Regions''"] by (auto simp: cstr_def)
  note f1 = console_step_frame(3) [OF 1(3)]
  obtain old where old: "CON_getConsoleColor m1 = Done old m1" by (simp add: CON_getConsoleColor_def gets_def)
  let ?c = "\<lparr>fg_col = ucast VGA_COLOR_YELLOW, bg_col = ucast VGA_COLOR_BLUE\<rparr>"
  let ?show = "exec [CON_setConsoleColor2 VGA_COLOR_RED VGA_COLOR_BRIGHT_CYAN, for_each show_mem_map [0..<unat n],
        CON_setConsoleColor old, puts_line ''Init PMM'']"
  let ?report = "exec [CON_setConsoleColor ?c, bind (gets (\<lambda>m. (PMM_frames_used m, PMM_frames_free m))) (\<lambda>(used, free).
        bind (CON_printf (cstr ''PMM frames: used=%u --- free=%u'' @ [10, 0]) [VInt (of_int used), VInt (of_int free)]) (\<lambda>_. ret ())),
      CON_setConsoleColor old]"
  obtain m5 where 5: "?show m1 = Done () m5" "con_wf m5" "console_step m1 m5"
    using show_memory_done [OF 1(2), of old] ok f1 assms(2,3) by auto
  have un: "unat (ucast n :: u32) = unat n" using unat_le_2p [of n] by (simp add: unsigned_ucast_eq take_bit_nat_eq_self)
  obtain m6 where 6: "PMM_init (ucast n) mm kend KERNEL_SEG ksize m5 = Done () m6" "pmm_inv m6"
    "unat (total_frames (pmm m6)) = ?T" "unat (frames_map (pmm m6)) = bitmap_at kend"
    "used_set m6 = boot_used n mm kend ksize" "\<exists>r p. m6 = m5\<lparr>ram := r, pmm := p\<rparr>"
    using PMM_init_done [of "ucast n" mm ?T KERNEL_SEG ksize kend m5] assms(4) un
    by (auto simp: memory_fits_def Let_def KERNEL_SEG_def boot_used_def)
  obtain r6 p6 where e6: "m6 = m5\<lparr>ram := r6, pmm := p6\<rparr>" using 6(6) by blast
  have w6: "con_wf m6" using 5(2) by (simp add: e6 con_wf_def)
  obtain m9 where 9: "?report m6 = Done () m9" "con_wf m9" "console_step m6 m9"
    using report_frames_done [OF w6, of ?c old] by blast
  have "start_PMM_init kend ksize m = bind (puts_line ''Memory Regions'') (\<lambda>_. bind CON_getConsoleColor (\<lambda>old_col. exec [
      exec [CON_setConsoleColor2 VGA_COLOR_RED VGA_COLOR_BRIGHT_CYAN, for_each show_mem_map [0..<unat n],
        CON_setConsoleColor old_col, puts_line ''Init PMM''],
      PMM_init (ucast n) mm kend KERNEL_SEG ksize,
      exec [CON_setConsoleColor ?c, bind (gets (\<lambda>m. (PMM_frames_used m, PMM_frames_free m))) (\<lambda>(used, free).
        bind (CON_printf (cstr ''PMM frames: used=%u --- free=%u'' @ [10, 0]) [VInt (of_int used), VInt (of_int free)]) (\<lambda>_. ret ())),
        CON_setConsoleColor old_col]])) m"
    by (simp add: start_PMM_init_def bind_def [of "gets _"] gets_def assms(2,3) bind_assoc)
  then have "start_PMM_init kend ksize m = Done () m9"
    by (simp add: bind_def [of "puts_line _"] bind_def [of CON_getConsoleColor] 1(1) old del: exec.simps)
       (simp only: exec.simps(2) [of "?show"] exec.simps(2) [of "PMM_init _ _ _ _ _"] exec.simps(2) [of "?report"] exec.simps(1)
         bind_def [of "?show"] bind_def [of "PMM_init _ _ _ _ _"] bind_def [of "?report"] 5(1) 6(1) 9(1) outcome.case ret_def)
  moreover have s69: "console_step m6 m9" by (rule 9(3))
  moreover have high: "bitmap_high m6"
    using 6(3,4) assms(4) by (auto simp: bitmap_high_def memory_fits_def Let_def bitmap_at_def)
  moreover have "used_set m9 = used_set m6" "pmm_inv m9"
    using used_set_console [OF s69 high] 6(2) by auto
  moreover have "bitmap_high m9" using high console_step_frame(9) [OF s69] by (simp add: bitmap_high_def)
  moreover have "\<exists>r k t p. m9 = m\<lparr>ram := r, con := k, trace := t, pmm := p\<rparr>"
  proof -
    have "console_step m m5" using 1(3) 5(3) by (rule console_step_trans)
    then obtain r k t where a: "m5 = m\<lparr>ram := r, con := k, trace := t\<rparr>" unfolding console_step_def by blast
    obtain r' k' t' where b: "m9 = m6\<lparr>ram := r', con := k', trace := t'\<rparr>"
      using s69 unfolding console_step_def by blast
    have "m9 = m\<lparr>ram := r', con := k', trace := t', pmm := p6\<rparr>" unfolding b e6 a by simp
    then show ?thesis by blast
  qed
  ultimately show ?thesis
    using 9(2) 6(3,5) console_step_frame(9) [OF s69] by metis
qed

section \<open>Lemmas: the idle loop\<close>

definition hello_msg :: cstring where
  "hello_msg = cstr ''*** HELLO FROM BROSKRNL.SYS ***''"

text \<open>The screen with the greeting on it.\<close>

definition greeted :: "memory \<Rightarrow> memory \<Rightarrow> bool" where
  "greeted r r1 \<longleftrightarrow> (\<forall>x < 80. \<forall>y < 25. vga_cell x y r1
     = (if y = 10 \<and> 20 \<le> x \<and> x < 51 then (hello_msg ! (x - 20), 15) else vga_cell x y r))
   \<and> (\<forall>a. \<not> vga_region a \<longrightarrow> r1 a = r a)"

lemma main_done:
  assumes "irq_sched m = []"
  shows "\<exists>r t. main irq m = Stop Hang (m\<lparr>ram := r, trace := t\<rparr>) \<and> greeted (ram m) r
    \<and> cursor_offset t = 24 * 80 \<and> last t = Hlt"
proof -
  have "0 \<notin> set hello_msg" "length hello_msg = 31" by (simp_all add: hello_msg_def cstr_def)
  then obtain r where r: "VGA_WriteString 20 10 (hello_msg @ [0]) 15 m = Done () (m\<lparr>ram := r\<rparr>)" "greeted (ram m) r"
    using VGA_WriteString_cells [of 10 hello_msg 20 "[]" 15 m] by (auto simp: greeted_def)
  let ?es = "[Out8 VGA_REG_CTRL 0x0F, Out8 VGA_REG_DATA 0x80, Out8 VGA_REG_CTRL 0x0E, Out8 VGA_REG_DATA 7]"
  have u: "VGA_update_cursor 0 24 m' = Done () (m'\<lparr>trace := trace m' @ ?es\<rparr>)" for m'
    using VGA_update_cursor_done [of 24 0] by (simp add: in_int32_def)
  let ?t = "trace m @ ?es @ [Hlt]"
  have "main irq m = Stop Hang (m\<lparr>ram := r, trace := ?t\<rparr>)"
    unfolding main_def hello_msg_def [symmetric]
    by (simp add: bind_def [of "VGA_WriteString _ _ _ _"] r(1) bind_def [of "VGA_update_cursor _ _"] u main_loop_def
        wait_until_def assms hlt_def log_def stop_def)
  moreover have "cursor_offset ?t = 24 * 80" by (simp add: cursor_offset_def crtc_append)
  ultimately show ?thesis using r(2) by (intro exI [of _ r] exI [of _ ?t]) simp
qed

text \<open>
  The floppy drives the boot can start: the CMOS says that there is none, or a drive A of a known
  type whose controller reports cylinder 0; then the interrupts that the reset waits for arrive.
\<close>

definition floppy_ready :: "u8 \<Rightarrow> machine \<Rightarrow> bool" where
  "floppy_ready v m \<longleftrightarrow> fdc_ready v m \<and> length (isr_handlers m) = 256 \<and> (\<exists>cmos. (\<forall>t. hw m t 0x71 = cmos) \<and> unat (drop_bit 4 cmos) < 6 \<and> cmos AND 0xF = 0
     \<and> (if drop_bit 4 cmos = 0 then irq_sched m = []
        else v = 0 \<and> \<not> fdc_irq (fdc m)
          \<and> (\<exists>r r'. int_no r = 0 \<and> int_no r' = 6
              \<and> irq_sched m = [r'] # replicate 5 [r] @ replicate (calibrate_tries 0) [r'] @ replicate 5 [r])))"

lemma floppy_ready_cong:
  "hw m1 = hw m \<Longrightarrow> fdc m1 = fdc m \<Longrightarrow> irq_sched m1 = irq_sched m \<Longrightarrow> length (isr_handlers m1) = length (isr_handlers m)
   \<Longrightarrow> floppy_ready v m1 = floppy_ready v m"
  by (simp add: floppy_ready_def fdc_ready_def)

lemma drive_names:
  assumes "n < 6"
  obtains s where "drive_type ! n = cstr s @ [0]" "0 \<notin> set (cstr s)" "length s \<le> 14"
proof -
  let ?names = "[''None'', ''360KB  5.25in'', ''1.2MB  5.25in'', ''720KB  3.5in'', ''1.44MB 3.5in'', ''2.88MB 3.5in'']"
  have d: "drive_type ! n = cstr (?names ! n) @ [0]" unfolding drive_type_def using assms by (intro nth_map) simp
  have "?names ! n \<in> set ?names" using assms by (intro nth_mem) simp
  then have "0 \<notin> set (cstr (?names ! n))" "length (?names ! n) \<le> 14" by (auto simp: cstr_def)
  with d that show thesis by blast
qed

lemma fdc_init_printed:
  assumes "con_wf m" "\<forall>t. hw m t 0x71 = cmos" "unat (drop_bit 4 cmos) < 6" "cmos AND 0xF = 0"
  shows "\<exists>m1 r k t. fdc_init irq m = exec [k_when (drop_bit 4 cmos \<noteq> 0) (fdc_reset irq 0), fdc_drive_data 13 1 15 True] m1 \<and> con_wf m1
    \<and> m1 = m\<lparr>ram := r, con := k, trace := t, isr_handlers := (isr_handlers m)[38 := Some Fdc_handler]\<rparr>"
proof -
  obtain na where na: "drive_type ! unat (drop_bit 4 cmos) = cstr na @ [0]" "0 \<notin> set (cstr na)" "length na \<le> 14"
    using drive_names [OF assms(3)] .
  obtain nb where nb: "drive_type ! 0 = cstr nb @ [0]" "0 \<notin> set (cstr nb)" "length nb \<le> 14"
    using drive_names [of 0] by auto
  let ?m = "m\<lparr>isr_handlers := (isr_handlers m)[38 := Some Fdc_handler], trace := trace m @ [Out8 0x70 0x10, In8 0x71 cmos]\<rparr>"
  let ?ps = "[Lit (cstr ''Floppy A: ''), Str (cstr na), Lit (cstr '' --- Floppy B: ''), Str (cstr nb), Lit [10]]"
  have ps: "list_all piece_printable ?ps" "sum_list (map piece_width ?ps) < 256" "con_wf ?m"
    using assms(1) na(2,3) nb(2,3) by (auto simp: piece_printable_def con_wf_def cstr_def)
  have f: "cstr ''Floppy A: %s --- Floppy B: %s'' @ [10, 0] = fmt_of ?ps @ [0]"
    "[VStr (drive_type ! unat (drop_bit 4 cmos)), VStr (drive_type ! 0)] = args_of ?ps"
    unfolding na(1) nb(1) by (simp_all add: pieces_simps cstr_def)
  obtain k m1 where 1: "CON_printf (fmt_of ?ps @ [0]) (args_of ?ps) ?m = Done k m1" "con_wf m1" "console_step ?m m1"
    using printf_line [OF ps(3,1,2) refl refl] by blast
  have "fdc_init irq m = bind (CON_printf (fmt_of ?ps @ [0]) (args_of ?ps))
      (\<lambda>_. exec [k_when (drop_bit 4 cmos \<noteq> 0) (fdc_reset irq 0), fdc_drive_data 13 1 15 True]) ?m"
    unfolding f [symmetric] using assms(2-4)
    by (simp add: fdc_init_def IRQ_register_interrupt_handler_def ISR_register_interrupt_handler_def IRQ_DISKETTE_def
        PIC1_BASE_INT_def outb_def log_def inb_def bind_def [of "inb _"] Let_def undefined_if_def k_when_def bind_assoc not_le)
  then have d: "fdc_init irq m = exec [k_when (drop_bit 4 cmos \<noteq> 0) (fdc_reset irq 0), fdc_drive_data 13 1 15 True] m1"
    by (simp add: bind_def [of "CON_printf _ _"] 1(1))
  obtain r k' t where "m1 = ?m\<lparr>ram := r, con := k', trace := t\<rparr>" using 1(3) unfolding console_step_def by blast
  then have "m1 = m\<lparr>ram := r, con := k', trace := t, isr_handlers := (isr_handlers m)[38 := Some Fdc_handler]\<rparr>" by simp
  with d 1(2) show ?thesis by blast
qed

lemma drive_data_keeps:
  assumes "fdc_ready v m"
  shows "\<exists>m1 t s. fdc_drive_data 13 1 15 True m = Done () m1 \<and> irq_sched m1 = irq_sched m
    \<and> m1 = m\<lparr>trace := t, irq_sched := s\<rparr>"
  using drive_data_io [OF assms, of 13 1 15] unfolding fdc_io_def by blast

lemma fdc_init_done:
  assumes "con_wf m" "floppy_ready v m" "iflag m" "isr_handlers m ! 32 = Some Timer_callback" "unat (ticks m) + 10 < 2 ^ 31"
  shows "\<exists>m1. fdc_init kernel_irq m = Done () m1 \<and> irq_sched m1 = [] \<and> con_wf m1
    \<and> (\<exists>r k t s u. m1 = m\<lparr>ram := r, con := k, trace := t, irq_sched := s, ticks := u,
          isr_handlers := (isr_handlers m)[38 := Some Fdc_handler]\<rparr>)"
proof -
  have len: "length (isr_handlers m) = 256" using assms(2) by (simp add: floppy_ready_def)
  obtain cmos where c: "fdc_ready v m" "\<forall>t. hw m t 0x71 = cmos" "unat (drop_bit 4 cmos) < 6" "cmos AND 0xF = 0"
    "if drop_bit 4 cmos = 0 then irq_sched m = []
      else v = 0 \<and> \<not> fdc_irq (fdc m) \<and> (\<exists>r r'. int_no r = 0 \<and> int_no r' = 6
        \<and> irq_sched m = [r'] # replicate 5 [r] @ replicate (calibrate_tries 0) [r'] @ replicate 5 [r])"
    using assms(2) unfolding floppy_ready_def by blast
  let ?h = "(isr_handlers m)[38 := Some Fdc_handler]"
  obtain m1 r1 k1 t1 where m1: "fdc_init kernel_irq m
      = exec [k_when (drop_bit 4 cmos \<noteq> 0) (fdc_reset kernel_irq 0), fdc_drive_data 13 1 15 True] m1" "con_wf m1"
    "m1 = m\<lparr>ram := r1, con := k1, trace := t1, isr_handlers := ?h\<rparr>"
    using fdc_init_printed [OF assms(1) c(2-4)] by blast
  have rdy: "fdc_ready v m1" using c(1) by (simp add: m1(3) fdc_ready_def)
  obtain m2 r2 t2 s2 u2 where m2: "k_when (drop_bit 4 cmos \<noteq> 0) (fdc_reset kernel_irq 0) m1 = Done () m2" "irq_sched m2 = []"
    "m2 = m1\<lparr>ram := r2, trace := t2, irq_sched := s2, ticks := u2\<rparr>"
  proof (cases "drop_bit 4 cmos = 0")
    case True
    then have "irq_sched m1 = []" using c(5) by (simp add: m1(3))
    moreover have "m1 = m1\<lparr>ram := ram m1, trace := trace m1, irq_sched := irq_sched m1, ticks := ticks m1\<rparr>" by simp
    ultimately show thesis
      using True by (intro that [where ?m2.0 = m1 and ?r2.0 = "ram m1" and ?t2.0 = "trace m1" and ?s2.0 = "irq_sched m1" and ?u2.0 = "ticks m1"]) (auto simp: k_when_def ret_def)
  next
    case False
    then obtain r r' where r: "int_no r = 0" "int_no r' = 6" "v = 0" "\<not> fdc_irq (fdc m)"
      "irq_sched m = [r'] # replicate 5 [r] @ replicate (calibrate_tries 0) [r'] @ replicate 5 [r]"
      using c(5) by auto
    have i: "fdc_idle m1" "timer_ready m1" "fdc_ready 0 m1"
      using r(3,4) len assms(3,4) rdy by (simp_all add: m1(3) fdc_idle_def timer_ready_def)
    have h: "run_handler Timer_callback = (\<lambda>_. timer_callback)" "run_handler Fdc_handler = (\<lambda>_. fdc_handler)"
      by (simp_all add: fun_eq_iff)
    have s: "irq_sched m1 = [r'] # replicate 5 [r] @ replicate (calibrate_tries 0) [r'] @ replicate 5 [r] @ []"
      "unat (ticks m1) + 10 < 2 ^ 31"
      using r(5) assms(5) by (simp_all add: m1(3))
    obtain m2 es where m2: "phase es m1 m2" "irq_sched m2 = []" "fdc_reset (IRQ_stub run_handler) 0 m1 = Done () m2"
      using reset_result [where call = run_handler and drive = 0, OF _ i(3,1,2) h r(1,2) s(2,1)] by auto
    obtain u r2 s2 where "m2 = m1\<lparr>ticks := u, trace := trace m1 @ es, ram := r2, irq_sched := s2\<rparr>" using m2(1) by (rule phaseE)
    then have "m2 = m1\<lparr>ram := r2, trace := trace m1 @ es, irq_sched := s2, ticks := u\<rparr>" by simp
    with m2(2,3) False show thesis by (intro that [of m2]) (simp_all add: k_when_def kernel_irq_def)
  qed
  have "fdc_ready v m2" using rdy by (simp add: m2(3) fdc_ready_def)
  then obtain m3 t3 s3 where m3: "fdc_drive_data 13 1 15 True m2 = Done () m3" "irq_sched m3 = irq_sched m2"
    "m3 = m2\<lparr>trace := t3, irq_sched := s3\<rparr>"
    using drive_data_keeps by blast
  have "fdc_init kernel_irq m = Done () m3"
    by (simp add: m1(1) bind_def [of "k_when _ _"] m2(1) bind_def [of "fdc_drive_data _ _ _ _"] m3(1) ret_def)
  moreover have "m3 = m\<lparr>ram := r2, con := k1, trace := t3, irq_sched := s3, ticks := u2, isr_handlers := ?h\<rparr>"
    unfolding m3(3) m2(3) m1(3) by simp
  moreover have "con_wf m3" using m1(2) by (simp add: m3(3) m2(3) con_wf_def)
  moreover have "irq_sched m3 = []" using m3(2) m2(2) by simp
  ultimately show ?thesis by blast
qed

section \<open>Lemmas: the whole boot\<close>

text \<open>The map that the kernel works with, after sanitizing.\<close>

definition boot_map :: "machine \<Rightarrow> boot_MEM_MAP_Info_Entry_t list" where
  "boot_map m = snd (boot_info_sanitize (tot_mem (sys_info m)) (num_mem_map_entries (sys_info m)) (mem_map_entries (sys_info m)))"

text \<open>
  A machine the kernel can boot on: what the boot loader hands over passes the checks, the memory
  map fits, the cursor is on the screen, the keyboard controller \<open>c\<close> and the floppy controller
  answer, and no interrupt is pending but the ones that the reset of a floppy drive waits for.
\<close>

definition boot_ready :: "u32 \<Rightarrow> u8 \<Rightarrow> i8042 \<Rightarrow> machine \<Rightarrow> bool" where
  "boot_ready eax v c m \<longleftrightarrow> boot_error eax m = None
     \<and> crtc_device (hw m) \<and> cursor_offset (trace m) < 2000
     \<and> connected m c \<and> length (obuf c) \<le> 1 \<and> dest c = To_Keyboard \<and> kbd_param c = No_Param \<and> mouse_param c = No_Param
     \<and> length (idtd m) = 256
     \<and> num_mem_map_entries (sys_info m) \<noteq> 0
     \<and> unat (num_mem_map_entries (sys_info m)) \<le> length (mem_map_entries (sys_info m))
     \<and> memory_fits (num_mem_map_entries (sys_info m)) (boot_map m) (symaddr m Sym_end) (symaddr m Sym_end - 0x100000)
     \<and> frames_up (max_end (take (unat (num_mem_map_entries (sys_info m))) (boot_map m))) \<le> 2 ^ 20
     \<and> floppy_ready v m"

text \<open>The kernel's handlers over the vectors' previous ones.\<close>

definition kernel_handlers :: "handler option list \<Rightarrow> handler option list" where
  "kernel_handlers h = h[32 := Some Timer_callback, 33 := Some Keyboard_handler, 44 := Some Mouse_handler,
     14 := Some Page_fault_handler, 38 := Some Fdc_handler]"

lemma boot_memory:
  assumes "boot_ready eax v c m"
  shows "\<exists>m1. exec [cli, start_VGA_init debug, start_checks eax, start_devices, start_boot_info,
        bind (gets (\<lambda>m. symaddr m Sym_end)) (\<lambda>e. start_PMM_init e (e - KERNEL_ADDR))] m = Done () m1
    \<and> con_wf m1 \<and> pmm_wf m1 \<and> bitmap_high m1
    \<and> unat (total_frames (pmm m1)) = frames_up (max_end (take (unat (num_mem_map_entries (sys_info m))) (boot_map m)))
    \<and> used_set m1 = boot_used (num_mem_map_entries (sys_info m)) (boot_map m) (symaddr m Sym_end) (symaddr m Sym_end - 0x100000)
    \<and> idtd m1 = map (\<lambda>n. kernel_gate (symaddr m (vector_symbol n))) [0..<256]
    \<and> isr_handlers m1 = (isr_handlers m)[32 := Some Timer_callback, 33 := Some Keyboard_handler, 44 := Some Mouse_handler]
    \<and> \<not> iflag m1 \<and> ticks m1 = 0 \<and> hw m1 = hw m \<and> irq_sched m1 = irq_sched m \<and> ring m1 = ring m \<and> mouse m1 = mouse m \<and> fdc m1 = fdc m"
proof -
  let ?s = "sys_info m"
  let ?n = "num_mem_map_entries ?s"
  note rdy = assms [unfolded boot_ready_def]
  let ?m0 = "m\<lparr>trace := trace m @ [Cli], iflag := False\<rparr>"
  have 0: "cli m = Done () ?m0" by (simp add: cli_def log_def modify_def ret_def bind_def)
  have c0: "connected ?m0 c" using rdy by (intro connected_events [of m c ?m0 "[Cli]"]) simp_all
  have "cursor_offset (trace ?m0) < 2000" using rdy by (simp add: cursor_offset_def crtc_append)
  then obtain m1 where 1: "start_VGA_init debug ?m0 = Done () m1" "con_wf m1" "console_step ?m0 m1"
    using start_VGA_init_done [of ?m0 debug] rdy by auto
  note f1 = console_step_frame [OF 1(3)]
  have c1: "connected m1 c" by (rule preserves_Done [OF connected_start_VGA_init c0 1(1)])
  have 2: "start_checks eax m1 = Done () m1"
    using start_checks_result [of eax m1] f1 rdy by (simp add: boot_error_def split: if_splits)
  obtain m3 where 3: "start_devices m1 = Done () m3" "con_wf m3" "\<not> iflag m3"
    "idtd m3 = map (\<lambda>n. kernel_gate (symaddr m1 (vector_symbol n))) [0..<256]"
    "isr_handlers m3 = (isr_handlers m1)[32 := Some Timer_callback, 33 := Some Keyboard_handler, 44 := Some Mouse_handler]"
    "ticks m3 = 0" "symaddr m3 = symaddr m1" "sys_info m3 = sys_info m1" "hw m3 = hw m1" "irq_sched m3 = irq_sched m1"
    "ring m3 = ring m1" "mouse m3 = mouse m1" "fdc m3 = fdc m1"
    using start_devices_done [OF 1(2) c1] f1 rdy by auto
  have s3: "sys_info m3 = ?s" "symaddr m3 = symaddr m" using 3(7,8) f1 by simp_all
  obtain m4 tot mm where 4: "start_boot_info m3 = Done () m4" "con_wf m4"
    "boot_info_sanitize (tot_mem ?s) ?n (mem_map_entries ?s) = (tot, mm)"
    "console_step (m3\<lparr>sys_info := ?s\<lparr>tot_mem := tot, mem_map_entries := mm\<rparr>\<rparr>) m4"
    using start_boot_info_done [OF 3(2) refl] s3(1) rdy by auto
  note f4 = console_step_frame [OF 4(4)]
  have mm: "boot_map m = mm" using 4(3) by (simp add: boot_map_def)
  let ?e = "symaddr m Sym_end"
  have i4: "num_mem_map_entries (sys_info m4) = ?n" "mem_map_entries (sys_info m4) = boot_map m" "symaddr m4 = symaddr m"
    using f4 s3 mm by simp_all
  have fits: "memory_fits ?n (boot_map m) ?e (?e - 0x100000)" using rdy by simp
  obtain m5 where 5: "start_PMM_init ?e (?e - 0x100000) m4 = Done () m5" "con_wf m5" "pmm_inv m5"
    "unat (total_frames (pmm m5)) = frames_up (max_end (take (unat ?n) (boot_map m)))"
    "used_set m5 = boot_used ?n (boot_map m) ?e (?e - 0x100000)" "bitmap_high m5"
    "\<exists>r k t p. m5 = m4\<lparr>ram := r, con := k, trace := t, pmm := p\<rparr>"
    using start_PMM_init_done [OF 4(2) i4(1) [symmetric] i4(2) [symmetric] fits] by blast
  obtain r k t p where e5: "m5 = m4\<lparr>ram := r, con := k, trace := t, pmm := p\<rparr>" using 5(7) by blast
  have "pmm_wf m5" using 5(3,4) rdy by (simp add: pmm_wf_def)
  moreover have "idtd m5 = map (\<lambda>n. kernel_gate (symaddr m (vector_symbol n))) [0..<256]" "\<not> iflag m5" "ticks m5 = 0"
    "hw m5 = hw m" "irq_sched m5 = irq_sched m" "ring m5 = ring m" "mouse m5 = mouse m" "fdc m5 = fdc m"
    "isr_handlers m5 = (isr_handlers m)[32 := Some Timer_callback, 33 := Some Keyboard_handler, 44 := Some Mouse_handler]"
    using f4 3 f1 rdy by (simp_all add: e5 del: upt_rec_numeral)
  moreover have "exec [cli, start_VGA_init debug, start_checks eax, start_devices, start_boot_info,
        bind (gets (\<lambda>m. symaddr m Sym_end)) (\<lambda>e. start_PMM_init e (e - KERNEL_ADDR))] m = Done () m5"
    using 5(1) by (simp add: bind_def 0 1(1) 2 3(1) 4(1) gets_def i4(3) ret_def KERNEL_ADDR_def KERNEL_HIMEM_def)
  ultimately show ?thesis using 5(2,4,5,6) by blast
qed

text \<open>The end of the boot, from the moment paging is on.\<close>

lemma boot_last_done:
  assumes "con_wf m" "floppy_ready v m" "isr_handlers m ! 32 = Some Timer_callback" "ticks m = 0"
  shows "\<exists>m1. exec [puts_line ''Enable Interrupts'', sti, puts_line ''Init Floppy Disk Controller'', fdc_init kernel_irq,
      main kernel_irq] m = Stop Hang m1
    \<and> iflag m1 \<and> cr0 m1 = cr0 m \<and> idtd m1 = idtd m \<and> con_wf m1 \<and> isr_handlers m1 = (isr_handlers m)[38 := Some Fdc_handler]
    \<and> ring m1 = ring m \<and> mouse m1 = mouse m
    \<and> (\<exists>r. greeted r (ram m1)) \<and> cursor_offset (trace m1) = 24 * 80 \<and> last (trace m1) = Hlt"
proof -
  obtain md where d: "puts_line ''Enable Interrupts'' m = Done () md" "con_wf md" "console_step m md"
    using puts_line_term [OF assms(1), of "''Enable Interrupts''"] by (auto simp: cstr_def)
  note fd = console_step_frame [OF d(3)]
  let ?me = "md\<lparr>trace := trace md @ [Sti], iflag := True\<rparr>"
  have e: "sti md = Done () ?me" "con_wf ?me" using d(2) by (simp_all add: sti_def log_def modify_def ret_def bind_def con_wf_def)
  obtain mf where f: "puts_line ''Init Floppy Disk Controller'' ?me = Done () mf" "con_wf mf" "console_step ?me mf"
    using puts_line_term [OF e(2), of "''Init Floppy Disk Controller''"] by (auto simp: cstr_def)
  note ff = console_step_frame [OF f(3)]
  have "floppy_ready v mf" "iflag mf" "isr_handlers mf ! 32 = Some Timer_callback" "unat (ticks mf) + 10 < 2 ^ 31"
    using assms(2-4) ff fd by (simp_all add: floppy_ready_cong [of mf m])
  then obtain mg rg kg tg sg ug where g: "fdc_init kernel_irq mf = Done () mg" "irq_sched mg = []" "con_wf mg"
    "mg = mf\<lparr>ram := rg, con := kg, trace := tg, irq_sched := sg, ticks := ug, isr_handlers := (isr_handlers mf)[38 := Some Fdc_handler]\<rparr>"
    using fdc_init_done [OF f(2), of v] by auto
  obtain rh th where h: "main kernel_irq mg = Stop Hang (mg\<lparr>ram := rh, trace := th\<rparr>)" "greeted (ram mg) rh"
    "cursor_offset th = 24 * 80" "last th = Hlt" using main_done [OF g(2)] by blast
  have w: "con_wf (mg\<lparr>ram := rh, trace := th\<rparr>)" using g(3) by (simp add: con_wf_def)
  show ?thesis
    using ff fd h(2-4) w
    by (intro exI [of _ "mg\<lparr>ram := rh, trace := th\<rparr>"])
       (simp add: bind_def d(1) e(1) f(1) g(1) h(1), simp add: g(4), blast)
qed

lemma boot_done:
  assumes "boot_ready eax v c m"
  shows "\<exists>mp m1 d t m2. pmm_wf mp
    \<and> unat (total_frames (pmm mp)) = frames_up (max_end (take (unat (num_mem_map_entries (sys_info m))) (boot_map m)))
    \<and> used_set mp = boot_used (num_mem_map_entries (sys_info m)) (boot_map m) (symaddr m Sym_end) (symaddr m Sym_end - 0x100000)
    \<and> alloc_run PMM_alloc_page 2 mp = ([d, t], m2)
    \<and> (if d = 0 \<or> t = 0
       then start debug eax m = Stop (Panic (cstr ''VMM error'' @ [0]) (cstr Start_file @ [0]) 118) m1 \<and> \<not> iflag m1
       else start debug eax m = Stop Hang m1 \<and> iflag m1 \<and> bit (cr0 m1) 31
         \<and> idtd m1 = map (\<lambda>n. kernel_gate (symaddr m (vector_symbol n))) [0..<256]
         \<and> isr_handlers m1 = kernel_handlers (isr_handlers m)
         \<and> (\<exists>r. greeted r (ram m1)) \<and> cursor_offset (trace m1) = 24 * 80 \<and> last (trace m1) = Hlt
         \<and> con_wf m1 \<and> ring m1 = ring m \<and> mouse m1 = mouse m)"
proof -
  let ?mem = "exec [cli, start_VGA_init debug, start_checks eax, start_devices, start_boot_info,
        bind (gets (\<lambda>m. symaddr m Sym_end)) (\<lambda>e. start_PMM_init e (e - KERNEL_ADDR))]"
  let ?h = "(isr_handlers m)[32 := Some Timer_callback, 33 := Some Keyboard_handler, 44 := Some Mouse_handler]"
  obtain ma where a: "?mem m = Done () ma" "con_wf ma" "pmm_wf ma" "bitmap_high ma"
    "unat (total_frames (pmm ma)) = frames_up (max_end (take (unat (num_mem_map_entries (sys_info m))) (boot_map m)))"
    "used_set ma = boot_used (num_mem_map_entries (sys_info m)) (boot_map m) (symaddr m Sym_end) (symaddr m Sym_end - 0x100000)"
    "idtd ma = map (\<lambda>n. kernel_gate (symaddr m (vector_symbol n))) [0..<256]"
    "isr_handlers ma = ?h" "hw ma = hw m" "irq_sched ma = irq_sched m" "ring ma = ring m" "mouse ma = mouse m"
    "fdc ma = fdc m" "ticks ma = 0"
    using boot_memory [OF assms] by blast
  have dev: "floppy_ready v m" using assms by (simp add: boot_ready_def)
  obtain mb where b: "puts_line ''Init VMM'' ma = Done () mb" "con_wf mb" "console_step ma mb"
    using puts_line_term [OF a(2), of "''Init VMM''"] by (auto simp: cstr_def)
  note fb = console_step_frame [OF b(3)]
  have wb: "pmm_wf mb" "unat (total_frames (pmm mb)) = frames_up (max_end (take (unat (num_mem_map_entries (sys_info m))) (boot_map m)))"
    "used_set mb = boot_used (num_mem_map_entries (sys_info m)) (boot_map m) (symaddr m Sym_end)
      (symaddr m Sym_end - 0x100000)"
    using used_set_console [OF b(3) a(4)] a(3,5,6) fb by (auto simp: pmm_wf_def)
  obtain d t m2 where al: "alloc_run PMM_alloc_page 2 mb = ([d, t], m2)"
    by (cases "PMM_alloc_page mb"; cases "PMM_alloc_page (snd (PMM_alloc_page mb))") (auto simp: numeral_2_eq_2)
  let ?ok = "d \<noteq> 0 \<and> t \<noteq> 0"
  obtain mc where c: "VMM_init mb = Done ?ok mc" "?ok \<longrightarrow> isr_handlers mc = (isr_handlers mb)[14 := Some Page_fault_handler]"
    using VMM_init_result [OF wb(1) al] by auto
  obtain r p v' h k0 k3 tr where ec: "mc = mb\<lparr>ram := r, pmm := p, vmm := v', isr_handlers := h, cr0 := k0, cr3 := k3, trace := tr\<rparr>"
    "?ok \<longrightarrow> bit k0 31"
    using VMM_init_frame [OF wb(1) c(1)] by blast
  have wc: "con_wf mc" using b(2) by (simp add: ec(1) con_wf_def)
  let ?rest = "exec [puts_line ''Enable Interrupts'', sti, puts_line ''Init Floppy Disk Controller'', fdc_init kernel_irq, main kernel_irq]"
  have boot: "start debug eax m = bind (k_when (\<not> ?ok) (KERNEL_PANIC ''VMM error'' Start_file 118)) (\<lambda>_. ?rest) mc"
  proof -
    have "start debug eax m = bind ?mem (\<lambda>_. exec [puts_line ''Init VMM'',
        bind VMM_init (\<lambda>b. k_when (\<not> b) (KERNEL_PANIC ''VMM error'' Start_file 118)), ?rest]) m"
      by (simp add: start_def start_init_def bind_assoc)
    then show ?thesis by (simp add: bind_def [of ?mem] a(1) bind_def [of "puts_line _"] b(1) bind_assoc
          bind_def [of VMM_init] c(1) del: exec.simps) (simp add: bind_assoc bind_def [of "puts_line _"] b(1) bind_def [of VMM_init] c(1))
  qed
  show ?thesis
  proof (cases ?ok)
    case False
    obtain m1 where "(KERNEL_PANIC ''VMM error'' Start_file 118 :: unit K) mc
        = Stop (Panic (cstr ''VMM error'' @ [0]) (cstr Start_file @ [0]) 118) m1" "\<not> iflag m1"
      using start_panic [of "''VMM error''" 118 mc] by auto
    then have "start debug eax m = Stop (Panic (cstr ''VMM error'' @ [0]) (cstr Start_file @ [0]) 118) m1 \<and> \<not> iflag m1"
      using False by (simp add: boot k_when_def bind_def)
    then show ?thesis using False wb al by (intro exI [of _ mb] exI [of _ m1] exI [of _ d] exI [of _ t] exI [of _ m2]) auto
  next
    case True
    have cm: "hw mc = hw m" "irq_sched mc = irq_sched m" "fdc mc = fdc m" "ticks mc = 0" "ring mc = ring m" "mouse mc = mouse m"
      "idtd mc = map (\<lambda>n. kernel_gate (symaddr m (vector_symbol n))) [0..<256]"
      "(isr_handlers mc)[38 := Some Fdc_handler] = kernel_handlers (isr_handlers m)"
      using fb a(7-14) c(2) True by (simp_all add: ec(1) kernel_handlers_def del: upt_rec_numeral)
    have hc: "isr_handlers mc = ?h[14 := Some Page_fault_handler]" using fb(6) a(8) c(2) True by simp
    have lmc: "length (isr_handlers mc) = length (isr_handlers m)" by (simp add: hc)
    have h32: "isr_handlers mc ! 32 = Some Timer_callback" using dev by (simp add: hc floppy_ready_def)
    obtain mh where h: "?rest mc = Stop Hang mh" "iflag mh" "cr0 mh = cr0 mc" "idtd mh = idtd mc" "con_wf mh"
      "isr_handlers mh = (isr_handlers mc)[38 := Some Fdc_handler]" "ring mh = ring mc" "mouse mh = mouse mc"
      "\<exists>r. greeted r (ram mh)" "cursor_offset (trace mh) = 24 * 80" "last (trace mh) = Hlt"
      using boot_last_done [OF wc _ h32 cm(4), of v] dev lmc by (auto simp: floppy_ready_cong [OF cm(1,3,2)])
    have "start debug eax m = Stop Hang mh" using True h(1) by (simp add: boot k_when_def bind_def ret_def)
    moreover have "bit (cr0 mh) 31" using ec(2) True by (simp add: h(3) ec(1))
    ultimately show ?thesis
      using True wb al h(2,5,9-11) cm
      by (intro exI [of _ mb] exI [of _ mh] exI [of _ d] exI [of _ t] exI [of _ m2]) (simp add: h(4,6-8) del: upt_rec_numeral)
  qed
qed

section \<open>An example machine\<close>

text \<open>
  2 MiB of memory, a kernel of 16 KiB, a 1.44 MB floppy drive, and devices that answer from their
  history.
\<close>

definition boot_hw :: "event list \<Rightarrow> u16 \<Rightarrow> u8" where
  "boot_hw t p = (if p = 0x3D5 then snd (crtc t) (fst (crtc t))
     else if p = 0x60 \<or> p = 0x64 then i8042_port (fold i8042_step t i8042_example) p
     else if p = 0x3F4 then 0x80 else if p = 0x71 then 0x40 else 0)"

text \<open>The requests of the timer and of the floppy controller.\<close>

definition request_of :: "u32 \<Rightarrow> ISR_registers_t" where
  "request_of n = \<lparr>r_ds = 16, r_edi = 0, r_esi = 0, r_ebp = 0, r_esp = 0, r_ebx = 0, r_edx = 0, r_ecx = 0, r_eax = 0,
     int_no = n, err_code = 0, r_eip = 0, r_cs = 8, r_eflags = 0x202, r_useresp = 0, r_ss = 0\<rparr>"

definition boot_example :: "machine \<Rightarrow> machine" where
  "boot_example m = m\<lparr>hw := boot_hw, symaddr := (\<lambda>s. if s = Sym_end then 0x104000 else 0x100000),
     irq_sched := [request_of 6] # replicate 5 [request_of 0] @ [[request_of 6]] @ replicate 5 [request_of 0],
     fdc := fdc_state_init, trace := [], idtd := replicate 256 idt_descriptor_zero, isr_handlers := replicate 256 None,
     sys_info := \<lparr>begin_marker = 0x12345678, tot_mem = 0, kernel_size = 0x4000, boot_drive = 0, num_mem_map_entries = 1,
       mem_map_entries = [\<lparr>base_addr_lo = 0, base_addr_hi = 0, length_lo = 0x200000, length_hi = 0, mtype = 1, acpi = 0\<rparr>],
       end_marker = 0x87654321\<rparr>\<rparr>"

lemma boot_example_map: "boot_map (boot_example m)
    = [\<lparr>base_addr_lo = 0, base_addr_hi = 0, length_lo = 0x200000, length_hi = 0, mtype = 1, acpi = 0\<rparr>]"
  by (simp add: boot_map_def boot_example_def boot_info_sanitize_def sanitize_entry_def MEM_MAP_TYPE_BAD_def
      MEM_MAP_TYPE_ERROR_def MEM_MAP_TYPE_AVAILABLE_def word_le_nat_alt)

lemma boot_example_frames:
  "frames_up (max_end [\<lparr>base_addr_lo = 0, base_addr_hi = 0, length_lo = 0x200000, length_hi = 0, mtype = 1, acpi = 0\<rparr>]) = 512"
  by (simp add: max_end_def region_end_def frames_up_def)

lemma boot_example_ready: "boot_ready 0x42524F53 0 i8042_example (boot_example m)"
proof -
  have "floppy_ready 0 (boot_example m)"
  proof -
    have "drop_bit 4 (0x40 :: u8) = 4" "(0x40 :: u8) AND 0xF = 0" by simp_all
    moreover have "int_no (request_of n) = n" for n by (simp add: request_of_def)
    moreover have "[request_of 6] # replicate 5 [request_of 0] @ [[request_of 6]] @ replicate 5 [request_of 0]
        = [request_of 6] # replicate 5 [request_of 0] @ replicate (calibrate_tries 0) [request_of 6] @ replicate 5 [request_of 0]"
      by (simp add: calibrate_tries_def)
    ultimately show ?thesis
      unfolding floppy_ready_def
      by (intro conjI exI [of _ "0x40 :: u8"])
        (auto simp: boot_example_def fdc_state_init_def fdc_ready_def boot_hw_def)
  qed
  moreover have "connected (boot_example m) i8042_example" by (simp add: connected_def boot_example_def boot_hw_def)
  moreover have "crtc_device (hw (boot_example m))" "cursor_offset (trace (boot_example m)) < 2000"
    by (simp_all add: crtc_device_def boot_example_def boot_hw_def VGA_REG_DATA_def cursor_offset_def crtc_def)
  moreover have "memory_fits 1 (boot_map (boot_example m)) 0x104000 0x4000"
    by (simp add: boot_example_map memory_fits_def map_ok_def below_4GB_def boot_example_frames bitmap_at_def bitmap_size_def)
  ultimately show ?thesis
    by (simp add: boot_ready_def)
       (simp add: boot_example_map boot_example_frames, simp add: boot_error_def boot_example_def i8042_example_def boot_example_frames)
qed

lemma boot_example_used: "boot_used 1 (boot_map (boot_example m)) 0x104000 0x4000 = {1, 2, 3, 4, 0x104}"
proof -
  have f: "f \<in> frame_range 0x1000 0x5000 \<longleftrightarrow> unat f \<in> {1, 2, 3, 4}"
    "f \<in> frame_range 0x104000 0x104040 \<longleftrightarrow> unat f = 0x104" for f :: u32
    by (auto simp: frame_range_def frames_up_def)
  have u: "unat f = 1 \<longleftrightarrow> f = 1" "unat f = 2 \<longleftrightarrow> f = 2" "unat f = 3 \<longleftrightarrow> f = 3" "unat f = 4 \<longleftrightarrow> f = 4"
    "unat f = 0x104 \<longleftrightarrow> f = 0x104" for f :: u32 by (simp_all add: word_unat_eq_iff)
  have "boot_used 1 (boot_map (boot_example m)) 0x104000 0x4000 = frame_range 0x1000 0x5000 \<union> frame_range 0x104000 0x104040"
    by (simp add: boot_used_def boot_example_map boot_example_frames region_frames_def bitmap_at_def bitmap_size_def)
  then show ?thesis using f u by auto
qed

text \<open>The first fit for one page after \<open>k\<close> frames from frame 1 on.\<close>

lemma find_after_kernel:
  assumes "k = 4 \<or> k = 5" "\<And>f. f < 512 \<Longrightarrow> bitset_test p f r \<longleftrightarrow> 1 \<le> f \<and> unat f \<le> k \<or> f = 0x104"
  shows "bitset_find p 512 1 r = Some (of_nat (Suc k))"
proof (rule bitset_find_first_word [where j = "Suc k"])
  show "bitset_find_body p r 512 1 0 j = None" if "j < Suc k" for j
  proof (cases "j = 0")
    case True
    have "bitset_test p 1 r" "bitset_test p 2 r" using assms by auto
    then have "\<not> count_free p r 1 1 [0, Suc 0] 0" by simp
    then show ?thesis using True by (simp add: bitset_find_body_def Let_def word_less_nat_alt del: count_free.simps)
  next
    case False
    then have "bitset_test p (of_nat 0 * 32 + of_nat j) r"
      using that assms by (auto simp: word_le_nat_alt word_less_nat_alt unat_of_nat_small)
    then show ?thesis using that assms(1) by (intro find_body_used) auto
  qed
  have "\<not> bitset_test p (of_nat 0 * 32 + of_nat (Suc k)) r"
    using assms by (auto simp: word_unat_eq_iff)
  then have z: "load32 r (bitset_word p (of_nat 0)) AND push_bit (Suc k) 1 = 0"
    using word_bit_test [of 0 "Suc k" r p] assms(1) by auto
  have "\<not> bitset_test p (push_bit (Suc k) 1) r" using assms by (auto simp: word_unat_eq_iff)
  then have "count_free p r (push_bit (Suc k) 1) 1 [0, Suc 0] 0" by (simp del: push_bit_of_1 push_bit_Suc)
  moreover have "\<not> push_bit (Suc k) 1 + 1 > (512 :: u32)" using assms(1) by auto
  ultimately show "bitset_find_body p r 512 1 0 (Suc k) = Some (Some (of_nat (Suc k)))"
    using z by (simp add: bitset_find_body_def Let_def BITSET_SIZE_def del: push_bit_of_1 of_nat_Suc push_bit_Suc count_free.simps)
qed (use assms(1) in auto)

lemma malloc_after_kernel:
  assumes "k = 4 \<or> k = 5" "pmm_wf m" "unat (total_frames (pmm m)) = 512"
    and "used_set m = {f. 1 \<le> f \<and> unat f \<le> k} \<union> {0x104}"
  shows "\<exists>m1. PMM_alloc_page m = (of_nat (Suc k) * 4096, m1) \<and> pmm_wf m1 \<and> unat (total_frames (pmm m1)) = 512
    \<and> used_set m1 = insert (of_nat (Suc k)) (used_set m)"
proof -
  have t: "total_frames (pmm m) = 512" using assms(3) by (simp add: word_unat_eq_iff)
  have "bitset_test (frames_map (pmm m)) f (ram m) \<longleftrightarrow> 1 \<le> f \<and> unat f \<le> k \<or> f = 0x104" if "f < 512" for f
  proof -
    have "f \<in> used_set m \<longleftrightarrow> bitset_test (frames_map (pmm m)) f (ram m)" using that by (simp add: used_set_def t)
    then show ?thesis using assms(4) by auto
  qed
  from find_after_kernel [OF assms(1) this]
  have find: "bitset_find (frames_map (pmm m)) 512 1 (ram m) = Some (of_nat (Suc k))" by blast
  have "card (used_set m) \<le> 6"
  proof -
    have "{f :: u32. 1 \<le> f \<and> unat f \<le> k} \<subseteq> of_nat ` {1..5}"
    proof
      fix f :: u32
      assume "f \<in> {f. 1 \<le> f \<and> unat f \<le> k}"
      then have "unat f \<in> {1..5}" using assms(1) by (auto simp: word_le_nat_alt)
      then show "f \<in> of_nat ` {1..5}" by (intro image_eqI [of _ _ "unat f"]) auto
    qed
    then have "used_set m \<subseteq> insert 0x104 (of_nat ` {1..5})" using assms(4) by auto
    from card_mono [OF _ this] show ?thesis
      using card_image_le [of "{1..5 :: nat}" "of_nat :: nat \<Rightarrow> u32"] by (simp add: card_insert_if split: if_splits)
  qed
  then have "unat (used_frames (pmm m)) \<le> 6" using assms(2) by (simp add: pmm_wf_def pmm_inv_def)
  then have "\<not> 512 - used_frames (pmm m) < 1"
    by (simp add: word_less_nat_alt unat_sub word_le_nat_alt)
  then obtain m1 where m1: "PMM_malloc 4096 m = Done (of_nat (Suc k) * 4096) m1"
    by (simp add: PMM_malloc_def Let_def frames_free_word t find PMM_FRAME_SIZE_def del: of_nat_Suc)
  have k: "of_nat (Suc k) * 4096 \<noteq> (0 :: u32)" "unat (of_nat (Suc k) :: u32) = Suc k"
    using assms(1) by auto
  obtain f where f: "PMM_malloc 4096 m = Done (f * 4096) m1" "f < total_frames (pmm m)"
    "used_set m1 = insert f (used_set m)" "pmm_step m m1"
    using PMM_malloc_one [of m 4096] assms(2) m1 k(1) by (auto simp: pmm_wf_def simp del: of_nat_Suc)
  have "f = of_nat (Suc k)"
    using frame_addr_inj [of f "of_nat (Suc k)"] f(1,2) m1 k(2) t assms(1)
    by (auto simp: word_less_nat_alt simp del: of_nat_Suc)
  moreover have "pmm_wf m1" using pages.alloc_wf [OF assms(2)] PMM_alloc_page_Done [OF m1] by simp
  moreover have "total_frames (pmm m1) = 512" using f(4) t by (simp add: pmm_step_def)
  ultimately show ?thesis using PMM_alloc_page_Done [OF m1] f(3) by (intro exI [of _ m1]) simp
qed

lemma boot_example_allocs:
  assumes "pmm_wf mp" "unat (total_frames (pmm mp)) = 512" "used_set mp = {1, 2, 3, 4, 0x104}"
    and "alloc_run PMM_alloc_page 2 mp = ([d, t], m2)"
  shows "d = 5 * 4096" "t = 6 * 4096"
proof -
  have small: "1 \<le> f \<and> unat f \<le> k \<longleftrightarrow> 1 \<le> unat f \<and> unat f \<le> k" for f :: u32 and k
    by (simp add: word_le_nat_alt)
  have num: "unat f = 1 \<longleftrightarrow> f = 1" "unat f = 2 \<longleftrightarrow> f = 2" "unat f = 3 \<longleftrightarrow> f = 3" "unat f = 4 \<longleftrightarrow> f = 4"
    "unat f = 5 \<longleftrightarrow> f = 5" for f :: u32 by (simp_all add: word_unat_eq_iff)
  have "1 \<le> f \<and> unat f \<le> 4 \<longleftrightarrow> unat f = 1 \<or> unat f = 2 \<or> unat f = 3 \<or> unat f = 4"
    "1 \<le> f \<and> unat f \<le> 5 \<longleftrightarrow> unat f = 1 \<or> unat f = 2 \<or> unat f = 3 \<or> unat f = 4 \<or> unat f = 5" for f :: u32
    unfolding small by presburger+
  then have u4: "{1, 2, 3, 4, 0x104} = {f :: u32. 1 \<le> f \<and> unat f \<le> 4} \<union> {0x104}"
    "insert 5 {1, 2, 3, 4, 0x104} = {f :: u32. 1 \<le> f \<and> unat f \<le> 5} \<union> {0x104}"
    unfolding num by auto
  obtain ma where a: "PMM_alloc_page mp = (5 * 4096, ma)" "pmm_wf ma" "unat (total_frames (pmm ma)) = 512"
    "used_set ma = insert 5 {1, 2, 3, 4, 0x104}"
    using malloc_after_kernel [of 4 mp] assms(1-3) u4(1) by auto
  obtain mb where "PMM_alloc_page ma = (6 * 4096, mb)"
    using malloc_after_kernel [of 5 ma] a u4(2) by auto
  then show "d = 5 * 4096" "t = 6 * 4096" using assms(4) a(1) by (simp_all add: numeral_2_eq_2)
qed

lemma boot_example_runs: "\<exists>m1. start debug 0x42524F53 (boot_example m) = Stop Hang m1"
proof -
  have i: "num_mem_map_entries (sys_info (boot_example m)) = 1" "symaddr (boot_example m) Sym_end = 0x104000"
    by (simp_all add: boot_example_def)
  show ?thesis
    using boot_done [OF boot_example_ready [of m], of debug] boot_example_used [of m] boot_example_frames boot_example_allocs
    unfolding i by (fastforce simp: boot_example_map simp del: upt_rec_numeral)
qed

section \<open>Properties\<close>

text \<open>
  C1. On a machine the kernel can boot on, with a floppy drive or without, the boot runs to the
  end.  The memory manager marks
  exactly the frames of the unavailable regions, of the range at \<^verbatim>\<open>KERNEL_SEG\<close> and of its
  bitmap; if it then has no two pages, the kernel panics with interrupts off; otherwise the
  kernel greets and halts for ever, with interrupts and paging on, every interrupt vector set,
  its five handlers registered and the cursor at the last line.
\<close>

theorem boot_reaches_main:
  assumes "boot_ready eax v c m"
  shows "\<exists>mp m1 d t m2. pmm_wf mp
    \<and> unat (total_frames (pmm mp)) = frames_up (max_end (take (unat (num_mem_map_entries (sys_info m))) (boot_map m)))
    \<and> used_set mp = boot_used (num_mem_map_entries (sys_info m)) (boot_map m) (symaddr m Sym_end) (symaddr m Sym_end - 0x100000)
    \<and> alloc_run PMM_alloc_page 2 mp = ([d, t], m2)
    \<and> (if d = 0 \<or> t = 0
       then start debug eax m = Stop (Panic (cstr ''VMM error'' @ [0]) (cstr Start_file @ [0]) 118) m1 \<and> \<not> iflag m1
       else start debug eax m = Stop Hang m1 \<and> iflag m1 \<and> bit (cr0 m1) 31
         \<and> idtd m1 = map (\<lambda>n. kernel_gate (symaddr m (vector_symbol n))) [0..<256]
         \<and> isr_handlers m1 = kernel_handlers (isr_handlers m)
         \<and> (\<exists>r. greeted r (ram m1)) \<and> cursor_offset (trace m1) = 24 * 80 \<and> last (trace m1) = Hlt)"
proof -
  have drop: "if b then P else Q" if "if b then P else Q \<and> A" for b P Q A using that by (simp split: if_splits)
  show ?thesis
    by (insert boot_done [OF assms, of debug], elim exE conjE, intro exI conjI, assumption+)
       (rule drop, unfold conj_assoc, assumption)
qed

theorem boot_reaches_main_witness:
  "\<forall>m. \<exists>m1 r. start True 0x42524F53 (boot_example m) = Stop Hang m1 \<and> iflag m1 \<and> bit (cr0 m1) 31
     \<and> isr_handlers m1 = kernel_handlers (replicate 256 None) \<and> greeted r (ram m1)"
proof
  fix m :: machine
  have i: "num_mem_map_entries (sys_info (boot_example m)) = 1" "symaddr (boot_example m) Sym_end = 0x104000"
    "isr_handlers (boot_example m) = replicate 256 None" by (simp_all add: boot_example_def)
  obtain mp m1 d t m2 where b: "pmm_wf mp" "unat (total_frames (pmm mp)) = 512" "used_set mp = {1, 2, 3, 4, 0x104}"
    "alloc_run PMM_alloc_page 2 mp = ([d, t], m2)"
    "if d = 0 \<or> t = 0
       then start True 0x42524F53 (boot_example m) = Stop (Panic (cstr ''VMM error'' @ [0]) (cstr Start_file @ [0]) 118) m1 \<and> \<not> iflag m1
       else start True 0x42524F53 (boot_example m) = Stop Hang m1 \<and> iflag m1 \<and> bit (cr0 m1) 31
         \<and> idtd m1 = map (\<lambda>n. kernel_gate (symaddr (boot_example m) (vector_symbol n))) [0..<256]
         \<and> isr_handlers m1 = kernel_handlers (replicate 256 None)
         \<and> (\<exists>r. greeted r (ram m1)) \<and> cursor_offset (trace m1) = 24 * 80 \<and> last (trace m1) = Hlt"
    using boot_reaches_main [OF boot_example_ready [of m], of True] boot_example_used [of m] boot_example_frames
    unfolding i by (auto simp: boot_example_map simp del: upt_rec_numeral)
  have "d = 5 * 4096" "t = 6 * 4096" using boot_example_allocs [OF b(1-4)] .
  then show "\<exists>m1 r. start True 0x42524F53 (boot_example m) = Stop Hang m1 \<and> iflag m1 \<and> bit (cr0 m1) 31
     \<and> isr_handlers m1 = kernel_handlers (replicate 256 None) \<and> greeted r (ram m1)"
    using b(5) by auto
qed

text \<open>
  C17. The boot stops at the first check that fails: a wrong boot signature, a kernel at the
  wrong address, or boot information without its markers end in a panic on the screen that
  names the check and its line, with interrupts off.
\<close>

theorem boot_rejects:
  assumes "crtc_device (hw m)" "cursor_offset (trace m) < 2000" "boot_error eax m = Some (s, n)"
  shows "\<exists>m1. start debug eax m = Stop (Panic (cstr s @ [0]) (cstr Start_file @ [0]) n) m1 \<and> \<not> iflag m1
    \<and> term_of m1 = fold term_putc (panic_text (cstr s) (cstr Start_file) n) panic_screen"
proof -
  let ?m0 = "m\<lparr>trace := trace m @ [Cli], iflag := False\<rparr>"
  have 0: "cli m = Done () ?m0" by (simp add: cli_def log_def modify_def ret_def bind_def)
  have "cursor_offset (trace ?m0) < 2000" using assms(2) by (simp add: cursor_offset_def crtc_append)
  then obtain m1 where 1: "start_VGA_init debug ?m0 = Done () m1" "console_step ?m0 m1"
    using start_VGA_init_done [of ?m0 debug] assms(1) by auto
  have "boot_error eax m1 = boot_error eax m"
    using console_step_frame [OF 1(2)] by (simp add: boot_error_def)
  then obtain m2 where "start_checks eax m1 = Stop (Panic (cstr s @ [0]) (cstr Start_file @ [0]) n) m2" "\<not> iflag m2"
    "term_of m2 = fold term_putc (panic_text (cstr s) (cstr Start_file) n) panic_screen"
    using start_checks_result [of eax m1] assms(3) by auto
  then show ?thesis
    using 0 1(1) by (intro exI [of _ m2]) (simp add: start_def start_init_def bind_def ret_def)
qed

theorem boot_rejects_witness:
  "\<forall>m. \<exists>m1. start False 0 (boot_example m) = Stop (Panic (cstr ''EAX error'' @ [0]) (cstr Start_file @ [0]) 91) m1"
proof
  fix m :: machine
  have "crtc_device (hw (boot_example m))" "cursor_offset (trace (boot_example m)) < 2000"
    "boot_error 0 (boot_example m) = Some (''EAX error'', 91)"
    using boot_example_ready [of m] by (simp_all add: boot_ready_def) (simp add: boot_error_def)
  from boot_rejects [OF this, of False]
  show "\<exists>m1. start False 0 (boot_example m) = Stop (Panic (cstr ''EAX error'' @ [0]) (cstr Start_file @ [0]) 91) m1" by blast
qed

text \<open>
  C15. The frames of the kernel are left free: for a kernel of less than 1 MiB at the address it
  is linked at, on memory that is available there, the memory manager takes the frames of as
  many bytes at \<^verbatim>\<open>KERNEL_SEG\<close>, and no whole frame of the kernel itself.
\<close>

theorem start_PMM_init_kernel_frames:
  assumes "con_wf m" "n = num_mem_map_entries (sys_info m)" "mm = mem_map_entries (sys_info m)"
    and "memory_fits n mm kend ksize" "unat kend = 0x100000 + unat ksize" "unat ksize \<le> 0xFF000"
    and "list_all (\<lambda>e. mtype e = 1 \<or> region_end e \<le> 0x100000 \<or> unat kend \<le> unat (base_addr_lo e)) (take (unat n) mm)"
  shows "\<exists>m1. start_PMM_init kend ksize m = Done () m1 \<and> pmm_inv m1
    \<and> (\<forall>f. 0x100 \<le> unat f \<and> unat f < unat kend div 4096 \<longrightarrow> f \<notin> used_set m1)
    \<and> (\<forall>f. 1 \<le> unat f \<and> unat f < frames_up (0x1000 + unat ksize) \<longrightarrow> f \<in> used_set m1)"
proof -
  have free: "f \<notin> boot_used n mm kend ksize" if f: "0x100 \<le> unat f" "unat f < unat kend div 4096" for f
  proof -
    have "f \<notin> region_frames e" if "e \<in> set (take (unat n) mm)" for e
    proof -
      have "mtype e = 1 \<or> region_end e \<le> 0x100000 \<or> unat kend \<le> unat (base_addr_lo e)"
        using assms(7) that unfolding list_all_iff by blast
      then consider "mtype e = 1" | "region_end e \<le> 0x100000" | "unat kend \<le> unat (base_addr_lo e)" by blast
      then show ?thesis
      proof cases
        case 2
        then have "frames_up (region_end e) \<le> 0x100" using frames_up_mono [of "region_end e" "0x100000"] by (simp add: frames_up_def)
        then show ?thesis using f by (simp add: region_frames_def frame_range_def)
      next
        case 3
        then have "unat kend div 4096 \<le> unat (base_addr_lo e) div 4096" by (rule div_le_mono)
        then show ?thesis using f by (simp add: region_frames_def frame_range_def)
      qed (simp add: region_frames_def)
    qed
    moreover have "frames_up (0x1000 + unat ksize) \<le> 0x100"
      using frames_up_mono [of "0x1000 + unat ksize" "0x100000"] assms(6) by (simp add: frames_up_def)
    then have "f \<notin> frame_range 0x1000 (0x1000 + unat ksize)" using f by (simp add: frame_range_def)
    moreover have "unat kend div 4096 \<le> bitmap_at kend div 4096" by (rule div_le_mono) (simp add: bitmap_at_def)
    then have "f \<notin> frame_range (bitmap_at kend) x" for x using f by (simp add: frame_range_def)
    ultimately show ?thesis by (simp add: boot_used_def)
  qed
  have "f \<in> boot_used n mm kend ksize" if "1 \<le> unat f" "unat f < frames_up (0x1000 + unat ksize)" for f
    using that by (simp add: boot_used_def frame_range_def)
  then show ?thesis using start_PMM_init_done [OF assms(1-4)] free by auto
qed

theorem start_PMM_init_kernel_frames_witness:
  "\<forall>m. \<exists>m1. start_PMM_init 0x104000 0x4000 (boot_example m\<lparr>con := \<lparr>con_attr = 7, curX = 0, curY = 0\<rparr>\<rparr>) = Done () m1
     \<and> 0x100 \<notin> used_set m1 \<and> 1 \<in> used_set m1"
proof
  fix m :: machine
  let ?m = "boot_example m\<lparr>con := \<lparr>con_attr = 7, curX = 0, curY = 0\<rparr>\<rparr>"
  let ?e = "\<lparr>base_addr_lo = 0, base_addr_hi = 0, length_lo = 0x200000, length_hi = 0, mtype = 1, acpi = 0\<rparr>"
  have "memory_fits 1 [?e] 0x104000 0x4000"
    using boot_example_ready [of m] by (simp add: boot_ready_def boot_example_map) (simp add: boot_example_def)
  then have fits: "memory_fits (num_mem_map_entries (sys_info ?m)) (mem_map_entries (sys_info ?m)) 0x104000 0x4000"
    by (simp add: boot_example_def)
  have "con_wf ?m" by (simp add: con_wf_def)
  moreover have "list_all (\<lambda>e. mtype e = 1 \<or> region_end e \<le> 0x100000 \<or> unat (0x104000 :: u32) \<le> unat (base_addr_lo e))
      (take (unat (num_mem_map_entries (sys_info ?m))) (mem_map_entries (sys_info ?m)))"
    by (simp add: boot_example_def)
  ultimately obtain m1 where "start_PMM_init 0x104000 0x4000 ?m = Done () m1"
    "\<forall>f. 0x100 \<le> unat f \<and> unat f < unat (0x104000 :: u32) div 4096 \<longrightarrow> f \<notin> used_set m1"
    "\<forall>f. 1 \<le> unat f \<and> unat f < frames_up (0x1000 + unat (0x4000 :: u32)) \<longrightarrow> f \<in> used_set m1"
    using start_PMM_init_kernel_frames [OF _ refl refl fits] by fastforce
  then show "\<exists>m1. start_PMM_init 0x104000 0x4000 ?m = Done () m1 \<and> 0x100 \<notin> used_set m1 \<and> 1 \<in> used_set m1"
    by (intro exI [of _ m1]) (simp add: frames_up_def)
qed

end
