(* ===== verification/Running.thy ===== *)
theory Running
  imports Start
begin

text \<open>
  The kernel after the boot: everything that happens is an interrupt request or an exception,
  taken while the idle loop of \<^verbatim>\<open>main.c\<close> halts.  The theory states the invariant of the static
  variables that the handlers use, what the handlers together leave alone, and that both hold in
  every state that the running kernel reaches.
\<close>

section \<open>The steps of the running kernel\<close>

text \<open>
  A step is an interrupt request of line \<open>n\<close>, an exception of vector \<open>n\<close> (\<^verbatim>\<open>ISR_init\<close> sets the
  vectors 0 to 21 but 15), or a round of the idle loop.
\<close>

inductive kernel_step :: "machine \<Rightarrow> machine \<Rightarrow> bool" where
  request: "iflag m \<Longrightarrow> unat n < 16 \<Longrightarrow> kernel_irq (r\<lparr>int_no := ucast (n :: u8)\<rparr>) m = Done () m1
    \<Longrightarrow> kernel_step m m1"
| fault: "unat (int_no r) < 22 \<Longrightarrow> int_no r \<noteq> 15 \<Longrightarrow> ISR_stub run_handler r m = Done () m1 \<Longrightarrow> kernel_step m m1"
| idle: "hlt m = Done () m1 \<Longrightarrow> kernel_step m m1"

section \<open>The invariant and the frame\<close>

text \<open>The static variables of the console, the keyboard and the mouse.\<close>

definition kernel_vars :: "machine \<Rightarrow> bool" where
  "kernel_vars m \<longleftrightarrow> con_wf m \<and> ring_wf (ring m) \<and> mouse_wf m"

definition kernel_inv :: "machine \<Rightarrow> bool" where
  "kernel_inv m \<longleftrightarrow> isr_handlers m = kernel_handlers (replicate 256 None) \<and> iflag m \<and> kernel_vars m"

text \<open>
  What no step changes: the tables, the handlers, the memory managers, paging, the boot
  information, and all memory but the screen.
\<close>

definition kernel_frame :: "machine \<Rightarrow> machine \<Rightarrow> bool" where
  "kernel_frame m m1 \<longleftrightarrow> gdtd m1 = gdtd m \<and> idtd m1 = idtd m \<and> isr_handlers m1 = isr_handlers m
     \<and> pmm m1 = pmm m \<and> vmm m1 = vmm m \<and> cr0 m1 = cr0 m \<and> cr3 m1 = cr3 m \<and> sys_info m1 = sys_info m
     \<and> key_mod m1 = key_mod m \<and> hw m1 = hw m \<and> symaddr m1 = symaddr m
     \<and> screen_only (ram m) m1"

lemma kernel_frame_refl [simp]: "kernel_frame m m"
  by (simp add: kernel_frame_def screen_only_def)

lemma kernel_frame_trans: "kernel_frame m m1 \<Longrightarrow> kernel_frame m1 m2 \<Longrightarrow> kernel_frame m m2"
  by (simp add: kernel_frame_def screen_only_def)

lemma kernel_frame_static [simp]:
  "kernel_frame m (m1\<lparr>trace := t\<rparr>) = kernel_frame m m1"
  "kernel_frame m (m1\<lparr>iflag := b\<rparr>) = kernel_frame m m1"
  "kernel_frame m (m1\<lparr>ticks := k\<rparr>) = kernel_frame m m1"
  "kernel_frame m (m1\<lparr>ring := q\<rparr>) = kernel_frame m m1"
  "kernel_frame m (m1\<lparr>mouse := s\<rparr>) = kernel_frame m m1"
  "kernel_frame m (m1\<lparr>fdc := f\<rparr>) = kernel_frame m m1"
  "kernel_frame m (m1\<lparr>con := c\<rparr>) = kernel_frame m m1"
  by (simp_all add: kernel_frame_def screen_only_def)

lemma kernel_vars_static [simp]:
  "kernel_vars (m\<lparr>trace := t\<rparr>) = kernel_vars m"
  "kernel_vars (m\<lparr>iflag := b\<rparr>) = kernel_vars m"
  "kernel_vars (m\<lparr>ticks := k\<rparr>) = kernel_vars m"
  "kernel_vars (m\<lparr>fdc := f\<rparr>) = kernel_vars m"
  "kernel_vars (m\<lparr>ram := s\<rparr>) = kernel_vars m"
  by (simp_all add: kernel_vars_def con_wf_def mouse_wf_def)

lemma console_kernel_frame: "console_step m m1 \<Longrightarrow> kernel_frame m m1"
  unfolding console_step_def
  by (elim conjE, erule ssubst) (simp add: kernel_frame_def screen_only_def)

section \<open>Lemmas: what the handlers keep\<close>

text \<open>The frame from \<open>m0\<close> is the screen, which only the drawing functions touch, and the rest.\<close>

definition rest_frame :: "machine \<Rightarrow> machine \<Rightarrow> bool" where
  "rest_frame m m1 \<longleftrightarrow> kernel_frame m (m1\<lparr>ram := ram m\<rparr>)"

lemma kernel_frame_split: "kernel_frame m = (\<lambda>m1. rest_frame m m1 \<and> screen_only (ram m) m1)"
  by (rule ext) (auto simp: rest_frame_def kernel_frame_def screen_only_def)

lemma rest_frame_ram [simp]: "rest_frame m (m1\<lparr>ram := r\<rparr>) = rest_frame m m1"
  by (simp add: rest_frame_def)

lemma frame_WriteChar [frame]: "preserves (kernel_frame m0) (VGA_WriteChar x y ch col)"
  unfolding kernel_frame_split
  by (intro preserves_conj screen_only_VGA_WriteChar preserves_VGA_WriteChar) simp

lemma frame_WriteString [frame]:
  assumes "\<And>x y ch. preserves I (VGA_WriteChar x y ch col)"
  shows "preserves I (VGA_WriteString x y s col)"
proof -
  have "preserves I (VGA_WriteString_loop x y col s i)" for i
    by (induction s arbitrary: i) (simp_all add: preserves_ret preserves_stop preserves_bind assms)
  then show ?thesis by (simp add: VGA_WriteString_def)
qed

lemma frame_clear [frame]: "preserves (kernel_frame m0) VGA_clear"
proof -
  have "preserves (rest_frame m0) VGA_clear"
    unfolding VGA_clear_def VGA_fill_def
    by (rule preserves_modify) (simp add: rest_frame_def kernel_frame_def)
  then show ?thesis
    unfolding kernel_frame_split by (intro preserves_conj) (simp_all add: VGA_clear_def screen_only_VGA_fill)
qed

lemma vars_clear [frame]: "preserves kernel_vars VGA_clear"
  unfolding VGA_clear_def VGA_fill_def
  by (rule preserves_modify) (simp add: kernel_vars_def con_wf_def mouse_wf_def)

lemma vars_WriteChar [frame]: "preserves kernel_vars (VGA_WriteChar x y ch col)"
  by (rule preserves_VGA_WriteChar) simp

lemmas drawing = frame_WriteChar vars_WriteChar frame_WriteString frame_clear vars_clear

lemma timer_keeps: "preserves (kernel_frame m0) timer_callback" "preserves kernel_vars timer_callback"
  unfolding timer_callback_def
  by (auto intro!: frame drawing simp: exec.simps)

lemma show_hex_keeps [frame]: "preserves (kernel_frame m0) (show_hex n y)" "preserves kernel_vars (show_hex n y)"
  unfolding show_hex_def by (auto intro!: frame drawing split: option.splits)

lemma kernel_frame_panicked:
  assumes "panicked (m\<lparr>trace := t\<rparr>) m1"
  shows "kernel_frame m m1"
proof -
  obtain r c es where "m1 = m\<lparr>ram := r, con := c, trace := t @ es @ [Hlt], iflag := False\<rparr>" "screen_only (ram m) m1"
    using assms unfolding panicked_def by auto
  then show ?thesis by (simp add: kernel_frame_def)
qed

text \<open>The keyboard handler panics exactly when its controller has no data for a whole poll.\<close>

lemma keyboard_result:
  "if dry_poll PS2_POLL_TIMEOUT (hw m) (trace m)
   then \<exists>m1. keyboard_handler_scancode m = Stop (PS2_timeout 121) m1 \<and> kernel_frame m m1 \<and> \<not> iflag m1
   else \<exists>m1 c. keyboard_handler_scancode m = Done () m1 \<and> kernel_frame m m1
      \<and> con m1 = con m \<and> mouse m1 = mouse m \<and> ticks m1 = ticks m \<and> ring m1 = PS2_ring_buf_push c (ring m)"
proof (cases "dry_poll PS2_POLL_TIMEOUT (hw m) (trace m)")
  case True
  then obtain m1 es where m1: "PS2_ready_loop PS2_POLL_TIMEOUT m = Stop (PS2_timeout 121) m1"
    "panicked (m\<lparr>trace := trace m @ es\<rparr>) m1"
    using ready_loop_result [of PS2_POLL_TIMEOUT m] by auto
  then have "keyboard_handler_scancode m = Stop (PS2_timeout 121) m1"
    by (simp add: keyboard_handler_scancode_def PS2_polling_wait_until_is_ready_def bind_def)
  with True show ?thesis using kernel_frame_panicked [OF m1(2)] panicked_iflag [OF m1(2)] by auto
next
  case False
  then obtain m1 where m1: "PS2_ready_loop PS2_POLL_TIMEOUT m = Done () m1"
    "polled (\<lambda>v. v AND 1 \<noteq> 0) PS2_POLL_TIMEOUT m m1"
    using ready_loop_result [of PS2_POLL_TIMEOUT m] by auto
  moreover from this(2) obtain t where "m1 = m\<lparr>trace := t\<rparr>" unfolding polled_def by blast
  ultimately have "\<exists>m2 c. keyboard_handler_scancode m = Done () m2 \<and> kernel_frame m m2
      \<and> con m2 = con m \<and> mouse m2 = mouse m \<and> ticks m2 = ticks m \<and> ring m2 = PS2_ring_buf_push c (ring m)"
    by (simp add: keyboard_handler_scancode_def PS2_polling_wait_until_is_ready_def
        bind_def [of "PS2_ready_loop _"] bind_def [of PS2_read_data] read_data_Done modify_def) blast
  with False show ?thesis by simp
qed

lemma mouse_keeps:
  "preserves (kernel_frame m0) mouse_handler"
  "preserves (\<lambda>m. con_wf m \<and> ring_wf (ring m)) mouse_handler"
  unfolding mouse_handler_def mouse_draw_def PS2_read_data_def VGA_Write_def VGA_Read_def
  by (auto intro!: frame simp: con_wf_def split: option.splits)

lemma mouse_ticks: "preserves (\<lambda>m. ticks m = k) mouse_handler"
  unfolding mouse_handler_def mouse_draw_def PS2_read_data_def VGA_Write_def VGA_Read_def
  by (auto intro!: frame split: option.splits)

text \<open>Every handler that returns keeps the variables and the frame.\<close>

lemma handler_keeps:
  assumes "kernel_vars m" "run_handler h r m = Done () m1"
  shows "kernel_frame m m1 \<and> kernel_vars m1"
proof (cases h)
  case Timer_callback
  then show ?thesis
    using assms preserves_Done [OF timer_keeps(1) [of m], of m "()" m1] preserves_Done [OF timer_keeps(2), of m "()" m1] by simp
next
  case Keyboard_handler
  then show ?thesis
    using assms keyboard_result [of m] by (auto simp: kernel_vars_def con_wf_def mouse_wf_def ring_wf_push split: if_splits)
next
  case Mouse_handler
  obtain b0 b1 b2 where "packet m = (b0, b1, b2)" by (metis prod_cases3)
  then have "mouse_wf m1"
    using assms Mouse_handler mouse_handler_result [of m b0 b1 b2] by (auto simp: kernel_vars_def)
  then show ?thesis
    using assms Mouse_handler preserves_Done [OF mouse_keeps(1) [of m], of m "()" m1]
      preserves_Done [OF mouse_keeps(2), of m "()" m1] by (simp add: kernel_vars_def)
next
  case Fdc_handler
  then show ?thesis using assms by (auto simp: fdc_handler_def set_fdc_irq_def modify_def)
next
  case Page_fault_handler
  then obtain k where "con_wf m1" "console_step m m1"
    using assms page_fault_reports [of m r] by (auto simp: kernel_vars_def)
  then show ?thesis
    using assms console_step_frame [of m m1] console_kernel_frame [of m m1] by (simp add: kernel_vars_def mouse_wf_def)
qed

interpretation service: interrupt_service run_handler kernel_vars kernel_frame
proof unfold_locales
  fix m m1 n e
  let ?show = "exec [VGA_clear, show_hex n 2, show_hex e 3]"
  assume "kernel_vars m" "?show m = Done () m1"
  moreover have "preserves (kernel_frame m) ?show" "preserves kernel_vars ?show"
    by (intro preserves_exec; auto intro: frame_clear vars_clear show_hex_keeps)+
  ultimately show "kernel_frame m m1 \<and> kernel_vars m1"
    using preserves_Done [of "kernel_frame m" ?show m "()" m1] preserves_Done [of kernel_vars ?show m "()" m1] by simp
qed (rule handler_keeps, assumption+, simp_all add: kernel_frame_def)

lemma step_keeps:
  assumes "kernel_step m m1" "kernel_inv m"
  shows "kernel_inv m1 \<and> kernel_frame m m1"
proof -
  have v: "kernel_vars m" using assms(2) by (simp add: kernel_inv_def)
  have "kernel_frame m m1 \<and> kernel_vars m1 \<and> iflag m1 = iflag m"
    using assms(1)
  proof (cases rule: kernel_step.cases)
    case (request n r)
    then show ?thesis using service.request [OF v] by (simp add: kernel_irq_def)
  next
    case (fault r)
    then show ?thesis using service.exception [OF v] by simp
  next
    case idle
    then show ?thesis using assms(2) by (auto simp: hlt_def log_def modify_def kernel_inv_def)
  qed
  then show ?thesis using assms(2) by (simp add: kernel_inv_def kernel_frame_def)
qed

lemma steps_keep: "kernel_step\<^sup>*\<^sup>* m m1 \<Longrightarrow> kernel_inv m \<Longrightarrow> kernel_inv m1 \<and> kernel_frame m m1"
  by (induction rule: rtranclp_induct) (auto dest: step_keeps intro: kernel_frame_trans)

section \<open>Lemmas: every request is served\<close>

text \<open>The number of timer requests of a schedule.\<close>

definition timer_requests :: "ISR_registers_t list \<Rightarrow> nat" where
  "timer_requests rs = length (filter (\<lambda>r. int_no r = 0) rs)"

lemma timer_requests_simps [simp]:
  "timer_requests [] = 0"
  "timer_requests (r # rs) = (if int_no r = 0 then 1 else 0) + timer_requests rs"
  "timer_requests (rs @ rs') = timer_requests rs + timer_requests rs'"
  by (simp_all add: timer_requests_def)

text \<open>
  A keyboard request that finds no data: the handler polls from here, after the stub has turned
  interrupts off and the request has been acknowledged.
\<close>

definition keyboard_silent :: "machine \<Rightarrow> bool" where
  "keyboard_silent m \<longleftrightarrow> dry_poll PS2_POLL_TIMEOUT (hw m) (trace m @ [Cli, Out8 0x20 0x20])"

lemma handler_served:
  assumes "kernel_vars m" "h = Keyboard_handler \<Longrightarrow> \<not> dry_poll PS2_POLL_TIMEOUT (hw m) (trace m)" "h \<noteq> Page_fault_handler"
    and "h = Timer_callback \<Longrightarrow> unat (ticks m) + 1 < 2 ^ 31"
  shows "\<exists>m1. run_handler h r m = Done () m1 \<and> ticks m1 = ticks m + (if h = Timer_callback then 1 else 0)"
proof (cases h)
  case Timer_callback
  then show ?thesis using assms(4) timer_callback_done [of m] by auto
next
  case Keyboard_handler
  then show ?thesis
    using keyboard_result [of m] assms(2) by auto
next
  case Mouse_handler
  obtain b0 b1 b2 where "packet m = (b0, b1, b2)" by (metis prod_cases3)
  then obtain m1 where "mouse_handler m = Done () m1"
    using assms(1) mouse_handler_result [of m b0 b1 b2] by (auto simp: kernel_vars_def)
  moreover from this have "ticks m1 = ticks m"
    by (rule preserves_Done [OF mouse_ticks [of "ticks m"], rotated]) simp
  ultimately show ?thesis using Mouse_handler by simp
next
  case Fdc_handler
  then show ?thesis by (simp add: fdc_handler_def set_fdc_irq_def modify_def)
qed (use assms in simp)

text \<open>One request: the handler of its line runs between the stub's \<^verbatim>\<open>cli\<close> and \<^verbatim>\<open>sti\<close>.\<close>

lemma request_runs:
  assumes "kernel_inv m" "unat (int_no r) < 16"
  defines "n \<equiv> unat (int_no r)"
  defines "m0 \<equiv> m\<lparr>iflag := False, trace := trace m @ [Cli] @ (if n > 7 then [Out8 0xA0 0x20] else []) @ [Out8 0x20 0x20]\<rparr>"
  shows "kernel_irq r m = bind (case kernel_handlers (replicate 256 None) ! (32 + n) of
      Some h \<Rightarrow> run_handler h (r\<lparr>int_no := 0x20 + int_no r\<rparr>) | None \<Rightarrow> ret ()) (\<lambda>_. sti) m0"
proof -
  define k :: u8 where "k = ucast (int_no r)"
  have k: "unat k = n" "ucast k = int_no r" "unat k < 16" "r\<lparr>int_no := ucast k\<rparr> = r"
    using assms(2) by (simp_all add: k_def n_def unsigned_ucast_eq unsigned_take_bit_eq take_bit_nat_eq_self word_unat_eq_iff)
  have i: "iflag m" "isr_handlers m = kernel_handlers (replicate 256 None)" using assms(1) by (simp_all add: kernel_inv_def)
  show ?thesis
    using IRQ_UniversalHandler_eq [OF k(3), of run_handler r "m\<lparr>trace := trace m @ [Cli], iflag := False\<rparr>",
        unfolded k(4) k(1), unfolded k(2)]
    by (simp add: i kernel_irq_def IRQ_stub_on cli_def log_def bind_assoc bind_def [of "IRQ_UniversalHandler _ _"]
        bind_def [of "case_option _ _ _"] m0_def)
qed

lemma request_handlers:
  "n < 16 \<Longrightarrow> kernel_handlers (replicate 256 None) ! (32 + n) = (if n = 0 then Some Timer_callback
     else if n = 1 then Some Keyboard_handler else if n = 12 then Some Mouse_handler
     else if n = 6 then Some Fdc_handler else None)"
  by (simp add: kernel_handlers_def nth_list_update)

lemma request_served:
  assumes "kernel_inv m" "unat (int_no r) < 16" "int_no r = 1 \<Longrightarrow> \<not> keyboard_silent m"
    and "int_no r = 0 \<Longrightarrow> unat (ticks m) + 1 < 2 ^ 31"
  shows "\<exists>m1. kernel_irq r m = Done () m1 \<and> kernel_inv m1 \<and> kernel_frame m m1
    \<and> ticks m1 = ticks m + (if int_no r = 0 then 1 else 0)"
proof -
  let ?n = "unat (int_no r)" and ?r = "r\<lparr>int_no := 0x20 + int_no r\<rparr>"
  let ?m = "m\<lparr>iflag := False, trace := trace m @ [Cli] @ (if ?n > 7 then [Out8 0xA0 0x20] else []) @ [Out8 0x20 0x20]\<rparr>"
  have z: "?n = 0 \<longleftrightarrow> int_no r = 0" "?n = 1 \<longleftrightarrow> int_no r = 1" using word_unat_eq_iff [of "int_no r" 1] by (simp_all add: unat_eq_0)
  have "\<exists>m2. (case kernel_handlers (replicate 256 None) ! (32 + ?n) of Some h \<Rightarrow> run_handler h ?r | None \<Rightarrow> ret ()) ?m = Done () m2
      \<and> ticks m2 = ticks m + (if int_no r = 0 then 1 else 0)"
  proof (cases "kernel_handlers (replicate 256 None) ! (32 + ?n)")
    case None
    then show ?thesis using request_handlers [OF assms(2)] z by (auto simp: ret_def split: if_splits)
  next
    case (Some h)
    have "kernel_vars ?m" using assms(1) by (simp add: kernel_inv_def)
    then show ?thesis
      using handler_served [of ?m h ?r] assms(3,4) Some request_handlers [OF assms(2)] z
      by (auto simp: keyboard_silent_def split: if_splits)
  qed
  then obtain m2 where m2: "kernel_irq r m = sti m2" "ticks m2 = ticks m + (if int_no r = 0 then 1 else 0)"
    using request_runs [OF assms(1,2)] by (auto simp: bind_def [of "case_option _ _ _"])
  let ?m1 = "m2\<lparr>trace := trace m2 @ [Sti], iflag := True\<rparr>"
  have k: "kernel_irq r m = Done () ?m1" using m2(1) by (simp add: sti_def log_def modify_def ret_def bind_def)
  have "(ucast (ucast (int_no r) :: u8) :: u32) = int_no r" "unat (ucast (int_no r) :: u8) < 16"
    using assms(2) by (simp_all add: unsigned_ucast_eq unsigned_take_bit_eq take_bit_nat_eq_self word_unat_eq_iff)
  then have "kernel_step m ?m1"
    using assms(1) k by (intro request [of m "ucast (int_no r)" r]) (simp_all add: kernel_inv_def)
  then show ?thesis using k step_keeps [of m ?m1] assms(1) m2(2) by auto
qed

lemma request_silent:
  assumes "kernel_inv m" "int_no r = 1" "keyboard_silent m"
  shows "\<exists>m1. kernel_irq r m = Stop (PS2_timeout 121) m1 \<and> kernel_frame m m1 \<and> \<not> iflag m1"
proof -
  let ?m = "m\<lparr>iflag := False, trace := trace m @ [Cli, Out8 0x20 0x20]\<rparr>"
  obtain m1 where m1: "keyboard_handler_scancode ?m = Stop (PS2_timeout 121) m1" "kernel_frame ?m m1" "\<not> iflag m1"
    using keyboard_result [of ?m] assms(3) by (auto simp: keyboard_silent_def)
  have "kernel_irq r m = Stop (PS2_timeout 121) m1"
    using request_runs [OF assms(1), of r] request_handlers [of 1] assms(2) m1(1) by (simp add: bind_def)
  moreover have "kernel_frame m m1" using m1(2) by (simp add: kernel_frame_def)
  ultimately show ?thesis using m1(3) by blast
qed

text \<open>
  How a list of requests ends: all of them are served, or the kernel panics in a keyboard request
  among them, taken in a state \<open>m2\<close> in which the keyboard stays silent.
\<close>

definition keyboard_panics :: "ISR_registers_t list \<Rightarrow> machine \<Rightarrow> machine \<Rightarrow> bool" where
  "keyboard_panics rs m m1 \<longleftrightarrow> \<not> iflag m1 \<and> kernel_frame m m1
     \<and> (\<exists>r m2. r \<in> set rs \<and> int_no r = 1 \<and> kernel_inv m2 \<and> kernel_frame m m2 \<and> keyboard_silent m2
          \<and> kernel_irq r m2 = Stop (PS2_timeout 121) m1)"

lemma keyboard_panics_later:
  "kernel_frame m m' \<Longrightarrow> keyboard_panics rs m' m1 \<Longrightarrow> set rs \<subseteq> set rs' \<Longrightarrow> keyboard_panics rs' m m1"
  unfolding keyboard_panics_def by (blast intro: kernel_frame_trans)

lemma request_ends:
  assumes "kernel_inv m" "unat (int_no r) < 16" "int_no r = 0 \<Longrightarrow> unat (ticks m) + 1 < 2 ^ 31"
  shows "(\<exists>m1. kernel_irq r m = Done () m1 \<and> kernel_inv m1 \<and> kernel_frame m m1
      \<and> ticks m1 = ticks m + (if int_no r = 0 then 1 else 0))
    \<or> (\<exists>m1. kernel_irq r m = Stop (PS2_timeout 121) m1 \<and> keyboard_panics [r] m m1)"
proof (cases "int_no r = 1 \<and> keyboard_silent m")
  case True
  then obtain m1 where "kernel_irq r m = Stop (PS2_timeout 121) m1" "kernel_frame m m1" "\<not> iflag m1"
    using request_silent [OF assms(1)] by blast
  with True assms(1) show ?thesis by (intro disjI2) (auto simp: keyboard_panics_def)
next
  case False
  then show ?thesis by (intro disjI1 request_served assms) auto
qed

lemma requests_end:
  assumes "kernel_inv m" "\<forall>r \<in> set rs. unat (int_no r) < 16" "unat (ticks m) + timer_requests rs < 2 ^ 31"
  shows "(\<exists>m1. for_each kernel_irq rs m = Done () m1 \<and> kernel_inv m1 \<and> kernel_frame m m1
      \<and> unat (ticks m1) = unat (ticks m) + timer_requests rs)
    \<or> (\<exists>m1. for_each kernel_irq rs m = Stop (PS2_timeout 121) m1 \<and> keyboard_panics rs m m1)"
  using assms
proof (induction rs arbitrary: m)
  case Nil
  then show ?case by (simp add: ret_def)
next
  case (Cons r rs)
  have r: "unat (int_no r) < 16" "int_no r = 0 \<longrightarrow> unat (ticks m) + 1 < 2 ^ 31" using Cons.prems(2,3) by auto
  from request_ends [OF Cons.prems(1) r(1)] r(2) have "(\<exists>m1. kernel_irq r m = Done () m1 \<and> kernel_inv m1 \<and> kernel_frame m m1
      \<and> ticks m1 = ticks m + (if int_no r = 0 then 1 else 0))
    \<or> (\<exists>m1. kernel_irq r m = Stop (PS2_timeout 121) m1 \<and> keyboard_panics [r] m m1)" by blast
  then show ?case
  proof (elim disjE exE conjE)
    fix m1
    assume m1: "kernel_irq r m = Done () m1" "kernel_inv m1" "kernel_frame m m1" "ticks m1 = ticks m + (if int_no r = 0 then 1 else 0)"
    have t: "unat (ticks m1) = unat (ticks m) + (if int_no r = 0 then 1 else 0)"
      using m1(4) Cons.prems(3) by (simp add: unat_word_ariths)
    then have "unat (ticks m1) + timer_requests rs < 2 ^ 31" using Cons.prems(3) by simp
    from Cons.IH [OF m1(2) _ this] Cons.prems(2)
    consider m2 where "for_each kernel_irq rs m1 = Done () m2" "kernel_inv m2" "kernel_frame m1 m2"
        "unat (ticks m2) = unat (ticks m1) + timer_requests rs"
      | m2 where "for_each kernel_irq rs m1 = Stop (PS2_timeout 121) m2" "keyboard_panics rs m1 m2" by auto
    then show ?case
    proof cases
      case 1
      then show ?thesis using m1(1,3) t kernel_frame_trans by (intro disjI1) (auto simp: bind_def)
    next
      case 2
      then show ?thesis
        using m1(1) keyboard_panics_later [OF m1(3), of rs m2 "r # rs"] by (intro disjI2) (auto simp: bind_def)
    qed
  next
    fix m1
    assume "kernel_irq r m = Stop (PS2_timeout 121) m1" "keyboard_panics [r] m m1"
    then show ?case
      using keyboard_panics_later [OF kernel_frame_refl, of "[r]" m m1 "r # rs"] by (intro disjI2) (simp add: bind_def)
  qed
qed

lemma schedule_ends:
  assumes "kernel_inv m" "\<forall>r \<in> set (concat rss). unat (int_no r) < 16"
    and "unat (ticks m) + timer_requests (concat rss) < 2 ^ 31"
  shows "(\<exists>m1. wait_loop (\<lambda>_. False) hlt kernel_irq rss m = Stop Hang m1 \<and> kernel_inv m1 \<and> kernel_frame m m1
      \<and> unat (ticks m1) = unat (ticks m) + timer_requests (concat rss))
    \<or> (\<exists>m1. wait_loop (\<lambda>_. False) hlt kernel_irq rss m = Stop (PS2_timeout 121) m1 \<and> keyboard_panics (concat rss) m m1)"
  using assms
proof (induction rss arbitrary: m)
  case Nil
  then show ?case by (simp add: bind_def hlt_def log_def modify_def stop_def kernel_inv_def)
next
  case (Cons rs rss)
  let ?m = "m\<lparr>trace := trace m @ [Hlt], irq_sched := rss\<rparr>"
  have p: "kernel_inv ?m" "iflag m"
    using Cons.prems(1) by (simp_all add: kernel_inv_def kernel_vars_def con_wf_def mouse_wf_def)
  have f: "kernel_frame m ?m" by (simp add: kernel_frame_def screen_only_def)
  have h: "hlt m = Done () (m\<lparr>trace := trace m @ [Hlt]\<rparr>)" by (simp add: hlt_def log_def modify_def)
  have "\<forall>r \<in> set rs. unat (int_no r) < 16" "unat (ticks ?m) + timer_requests rs < 2 ^ 31"
    using Cons.prems(2,3) by auto
  from requests_end [OF p(1) this] show ?case
  proof (elim disjE exE conjE)
    fix m1
    assume m1: "for_each kernel_irq rs ?m = Done () m1" "kernel_inv m1" "kernel_frame ?m m1"
      "unat (ticks m1) = unat (ticks ?m) + timer_requests rs"
    have f1: "kernel_frame m m1" by (rule kernel_frame_trans [OF f m1(3)])
    have "unat (ticks m1) + timer_requests (concat rss) < 2 ^ 31" using Cons.prems(3) m1(4) by simp
    from Cons.IH [OF m1(2) _ this] Cons.prems(2)
    consider m2 where "wait_loop (\<lambda>_. False) hlt kernel_irq rss m1 = Stop Hang m2" "kernel_inv m2" "kernel_frame m1 m2"
        "unat (ticks m2) = unat (ticks m1) + timer_requests (concat rss)"
      | m2 where "wait_loop (\<lambda>_. False) hlt kernel_irq rss m1 = Stop (PS2_timeout 121) m2" "keyboard_panics (concat rss) m1 m2"
      by auto
    then show ?case
    proof cases
      case 1
      then show ?thesis
        using m1(1,4) p(2) h kernel_frame_trans [OF f1]
        by (intro disjI1) (auto simp: bind_def [of hlt] bind_def [of "for_each _ _"])
    next
      case 2
      then show ?thesis
        using m1(1) p(2) h keyboard_panics_later [OF f1, of "concat rss" m2 "concat (rs # rss)"]
        by (intro disjI2) (auto simp: bind_def [of hlt] bind_def [of "for_each _ _"])
    qed
  next
    fix m1
    assume "for_each kernel_irq rs ?m = Stop (PS2_timeout 121) m1" "keyboard_panics rs ?m m1"
    then show ?case
      using p(2) h keyboard_panics_later [OF f, of rs m1 "concat (rs # rss)"]
      by (intro disjI2) (auto simp: bind_def [of hlt] bind_def [of "for_each _ _"])
  qed
qed

section \<open>Lemmas: the boot establishes the invariant\<close>

lemma mouse_wf_init: "mouse m = mouse_state_init \<Longrightarrow> mouse_wf m"
  by (simp add: mouse_wf_def on_screen_def pointer_at_def mouse_state_init_def VGA_TEXT_MODE_3_COLS_def VGA_TEXT_MODE_3_ROWS_def)

lemma boot_establishes:
  assumes "boot_ready eax v c m" "ring m = ring_buf_init" "mouse m = mouse_state_init" "isr_handlers m = replicate 256 None"
    and "start debug eax m = Stop Hang m1"
  shows "kernel_inv m1 \<and> idtd m1 = map (\<lambda>n. kernel_gate (symaddr m (vector_symbol n))) [0..<256] \<and> bit (cr0 m1) 31"
proof -
  obtain m2 where "start debug eax m = Stop Hang m2 \<Longrightarrow> iflag m2 \<and> bit (cr0 m2) 31
      \<and> idtd m2 = map (\<lambda>n. kernel_gate (symaddr m (vector_symbol n))) [0..<256]
      \<and> isr_handlers m2 = kernel_handlers (isr_handlers m) \<and> con_wf m2 \<and> ring m2 = ring m \<and> mouse m2 = mouse m"
    "\<exists>r. start debug eax m = Stop r m2"
    using boot_done [OF assms(1), of debug] by (auto simp del: upt_rec_numeral split: if_splits)
  moreover from this(2) assms(5) have "m2 = m1" by simp
  ultimately show ?thesis
    using assms by (simp add: kernel_inv_def kernel_vars_def mouse_wf_init ring_wf_init del: upt_rec_numeral)
qed

section \<open>Properties\<close>

text \<open>
  C2. Once the boot has reached the idle loop, no sequence of interrupt requests and exceptions
  whose handlers return damages the kernel: in every reachable state interrupts are on, the handlers, the console, the
  scancode buffer and the mouse are consistent, the interrupt table and the descriptor table are
  the ones of the boot, paging is on with the same directory, the memory managers are untouched,
  and no byte outside the screen has changed.
\<close>

theorem running_kernel_safe:
  assumes "boot_ready eax v c m" "ring m = ring_buf_init" "mouse m = mouse_state_init" "isr_handlers m = replicate 256 None"
    and "start debug eax m = Stop Hang m1" "kernel_step\<^sup>*\<^sup>* m1 m2"
  shows "kernel_inv m2 \<and> kernel_frame m1 m2 \<and> bit (cr0 m2) 31
    \<and> idtd m2 = map (\<lambda>n. kernel_gate (symaddr m (vector_symbol n))) [0..<256]"
  using steps_keep [OF assms(6)] boot_establishes [OF assms(1-5)]
  by (simp add: kernel_frame_def del: upt_rec_numeral)

text \<open>A mouse request, whatever the mouse has sent, and a round of the idle loop after it.\<close>

theorem running_kernel_safe_witness:
  "\<forall>m r. \<exists>m1 m2. start True 0x42524F53 (boot_example (m\<lparr>ring := ring_buf_init, mouse := mouse_state_init\<rparr>)) = Stop Hang m1
     \<and> kernel_irq (r\<lparr>int_no := 12\<rparr>) m1 = Done () m2
     \<and> kernel_inv (m2\<lparr>trace := trace m2 @ [Hlt]\<rparr>) \<and> bit (cr0 (m2\<lparr>trace := trace m2 @ [Hlt]\<rparr>)) 31"
proof (intro allI)
  fix m :: machine and r :: ISR_registers_t
  let ?m = "boot_example (m\<lparr>ring := ring_buf_init, mouse := mouse_state_init\<rparr>)"
  obtain m1 where m1: "start True 0x42524F53 ?m = Stop Hang m1"
    using boot_example_runs [of True "m\<lparr>ring := ring_buf_init, mouse := mouse_state_init\<rparr>"] by auto
  have p: "ring ?m = ring_buf_init" "mouse ?m = mouse_state_init" "isr_handlers ?m = replicate 256 None"
    by (simp_all add: boot_example_def)
  have "kernel_inv m1" using running_kernel_safe [OF boot_example_ready p m1] by simp
  then obtain m2 where m2: "kernel_irq (r\<lparr>int_no := 12\<rparr>) m1 = Done () m2"
    using request_served [of m1 "r\<lparr>int_no := 12\<rparr>"] by auto
  let ?m2 = "m2\<lparr>trace := trace m2 @ [Hlt]\<rparr>"
  have "kernel_step m1 m2"
    using \<open>kernel_inv m1\<close> m2 by (intro request [of m1 12 "r\<lparr>int_no := 12\<rparr>"]) (simp_all add: kernel_inv_def)
  moreover have "kernel_step m2 ?m2" by (rule idle) (simp add: hlt_def log_def modify_def)
  ultimately have "kernel_step\<^sup>*\<^sup>* m1 ?m2" by (blast intro: rtranclp_trans r_into_rtranclp)
  from running_kernel_safe [OF boot_example_ready p m1 this] have "kernel_inv ?m2 \<and> bit (cr0 ?m2) 31" by blast
  with m1 m2 show "\<exists>m1 m2. start True 0x42524F53 ?m = Stop Hang m1 \<and> kernel_irq (r\<lparr>int_no := 12\<rparr>) m1 = Done () m2
     \<and> kernel_inv (m2\<lparr>trace := trace m2 @ [Hlt]\<rparr>) \<and> bit (cr0 (m2\<lparr>trace := trace m2 @ [Hlt]\<rparr>)) 31" by blast
qed

text \<open>
  C3. The idle loop serves every interrupt request of every schedule, on any of the 16 lines and
  in any order, as long as the timer requests do not take the tick counter past the largest
  \<^verbatim>\<open>int\<close>: it halts for ever after the last one with every timer request counted and the
  invariant kept, and the only way it can end otherwise is the timeout panic of a keyboard request
  whose controller answers a million polls in a row without data; in both cases the kernel's
  tables, its memory managers and all memory but the screen are untouched.
\<close>

theorem idle_loop_serves:
  assumes "kernel_inv m" "\<forall>r \<in> set (concat (irq_sched m)). unat (int_no r) < 16"
    and "unat (ticks m) + timer_requests (concat (irq_sched m)) < 2 ^ 31"
  shows "(\<exists>m1. main_loop kernel_irq m = Stop Hang m1 \<and> kernel_inv m1 \<and> kernel_frame m m1
      \<and> unat (ticks m1) = unat (ticks m) + timer_requests (concat (irq_sched m)))
    \<or> (\<exists>m1 m2 r. main_loop kernel_irq m = Stop (PS2_timeout 121) m1 \<and> \<not> iflag m1 \<and> kernel_frame m m1
      \<and> r \<in> set (concat (irq_sched m)) \<and> int_no r = 1 \<and> kernel_inv m2 \<and> kernel_frame m m2
      \<and> dry_poll 1000000 (hw m) (trace m2 @ [Cli, Out8 0x20 0x20]) \<and> kernel_irq r m2 = Stop (PS2_timeout 121) m1)"
  using schedule_ends [OF assms]
proof (elim disjE exE)
  fix m1
  assume "wait_loop (\<lambda>_. False) hlt kernel_irq (irq_sched m) m = Stop (PS2_timeout 121) m1
    \<and> keyboard_panics (concat (irq_sched m)) m m1"
  moreover have "hw m2 = hw m" if "kernel_frame m m2" for m2 using that by (simp add: kernel_frame_def)
  ultimately show ?thesis
    unfolding keyboard_panics_def keyboard_silent_def PS2_POLL_TIMEOUT_def main_loop_def wait_until_def by metis
qed (simp add: main_loop_def wait_until_def)

text \<open>
  A timer and a keyboard request in one round and a mouse request in the next, on a machine whose
  controller has data.
\<close>

theorem idle_loop_serves_witness:
  "\<forall>m r. \<exists>m1. main_loop kernel_irq (m\<lparr>isr_handlers := kernel_handlers (replicate 256 None), iflag := True, ticks := 41,
       con := \<lparr>con_attr = 7, curX = 0, curY = 0\<rparr>, ring := ring_buf_init, mouse := mouse_state_init, hw := (\<lambda>_ _. 0x1D),
       irq_sched := [[r\<lparr>int_no := 0\<rparr>, r\<lparr>int_no := 1\<rparr>], [r\<lparr>int_no := 12\<rparr>]]\<rparr>) = Stop Hang m1
     \<and> kernel_inv m1 \<and> unat (ticks m1) = 42"
proof (intro allI)
  fix m :: machine and r :: ISR_registers_t
  let ?m = "m\<lparr>isr_handlers := kernel_handlers (replicate 256 None), iflag := True, ticks := 41,
       con := \<lparr>con_attr = 7, curX = 0, curY = 0\<rparr>, ring := ring_buf_init, mouse := mouse_state_init, hw := (\<lambda>_ _. 0x1D),
       irq_sched := [[r\<lparr>int_no := 0\<rparr>, r\<lparr>int_no := 1\<rparr>], [r\<lparr>int_no := 12\<rparr>]]\<rparr>"
  have "kernel_inv ?m"
    by (simp add: kernel_inv_def kernel_vars_def con_wf_def ring_wf_init mouse_wf_init)
  moreover have "\<not> dry_poll 1000000 (hw ?m) t" for t
    using not_dry_poll [of 1000000 "hw ?m"] by simp
  ultimately show "\<exists>m1. main_loop kernel_irq ?m = Stop Hang m1 \<and> kernel_inv m1 \<and> unat (ticks m1) = 42"
    using idle_loop_serves [of ?m] by auto
qed

end
