(* ===== verification/Boot_Memory.thy ===== *)
theory Boot_Memory
  imports Boot_Info
begin

text \<open>
  The boot information as it lies in memory: the packed structures of \<^verbatim>\<open>bios/boot_info.h\<close>, the
  pointer macros, and \<^verbatim>\<open>boot_info_sanitize\<close> as it runs over the array.  The other theories use
  the record of the machine state; this one shows that the record is what the memory holds.
\<close>

section \<open>Definitions\<close>

definition sizeof_boot_SYS_Info_t :: nat where "sizeof_boot_SYS_Info_t = 3 * 4 + 2"
definition sizeof_boot_MEM_MAP_Info_Entry_t :: nat where "sizeof_boot_MEM_MAP_Info_Entry_t = 6 * 4"

definition MEM_MAP_ENTRY_PTR :: "u32 \<Rightarrow> u32" where
  "MEM_MAP_ENTRY_PTR x = x + of_nat sizeof_boot_SYS_Info_t"

definition SYS_INFO_END_MARKER_PTR :: "memory \<Rightarrow> u32 \<Rightarrow> u32" where
  "SYS_INFO_END_MARKER_PTR r x =
     x + of_nat sizeof_boot_SYS_Info_t + ucast (r (x + 13)) * of_nat sizeof_boot_MEM_MAP_Info_Entry_t"

text \<open>The fields of the packed structures at their offsets.\<close>

definition load_entry :: "memory \<Rightarrow> u32 \<Rightarrow> boot_MEM_MAP_Info_Entry_t" where
  "load_entry r p = \<lparr>base_addr_lo = load32 r p, base_addr_hi = load32 r (p + 4), length_lo = load32 r (p + 8),
     length_hi = load32 r (p + 12), mtype = load32 r (p + 16), acpi = load32 r (p + 20)\<rparr>"

definition entry_ptr :: "u32 \<Rightarrow> nat \<Rightarrow> u32" where
  "entry_ptr mem_map i = mem_map + of_nat (i * sizeof_boot_MEM_MAP_Info_Entry_t)"

definition load_map :: "memory \<Rightarrow> u32 \<Rightarrow> nat \<Rightarrow> boot_MEM_MAP_Info_Entry_t list" where
  "load_map r mem_map n = map (\<lambda>i. load_entry r (entry_ptr mem_map i)) [0..<n]"

definition load_sys_info :: "memory \<Rightarrow> u32 \<Rightarrow> boot_SYS_Info_t" where
  "load_sys_info r x = \<lparr>begin_marker = load32 r x, tot_mem = load32 r (x + 4), kernel_size = load32 r (x + 8),
     boot_drive = r (x + 12), num_mem_map_entries = r (x + 13),
     mem_map_entries = load_map r (MEM_MAP_ENTRY_PTR x) (unat (r (x + 13))),
     end_marker = load32 r (SYS_INFO_END_MARKER_PTR r x)\<rparr>"

text \<open>One round of the loop of \<^verbatim>\<open>boot_info_sanitize\<close>: \<^verbatim>\<open>tot_memMap\<close> and the memory.\<close>

definition sanitize_mem_step :: "u32 \<Rightarrow> nat \<Rightarrow> u32 \<times> memory \<Rightarrow> u32 \<times> memory" where
  "sanitize_mem_step mem_map i = (\<lambda>(tot_memMap, r).
     let e = entry_ptr mem_map i;
         r1 = (if load32 r (e + 16) \<ge> MEM_MAP_TYPE_BAD \<or> load32 r (e + 16) = MEM_MAP_TYPE_ERROR
           then store32 (e + 16) MEM_MAP_TYPE_RESERVED r else r)
     in (if load32 r1 (e + 16) = MEM_MAP_TYPE_AVAILABLE then tot_memMap + load32 r1 (e + 8) div 1024 else tot_memMap, r1))"

text \<open>\<^verbatim>\<open>tot_mem\<close> points to a local variable of the caller: its value comes in and goes out.\<close>

definition boot_info_sanitize_mem :: "u32 \<Rightarrow> u8 \<Rightarrow> u32 \<Rightarrow> memory \<Rightarrow> u32 \<times> memory" where
  "boot_info_sanitize_mem tot num_mem_map mem_map r =
     (if num_mem_map = 0 then (tot, r)
      else let (tot_memMap, r1) = fold (sanitize_mem_step mem_map) [0..<unat num_mem_map] (0, r)
        in (if tot < tot_memMap then tot_memMap else tot, r1))"

text \<open>The statements of \<^verbatim>\<open>_start_boot_info\<close> before its output.\<close>

definition start_boot_info_mem :: "u32 \<Rightarrow> memory \<Rightarrow> memory" where
  "start_boot_info_mem x r =
     (let (tot, r1) = boot_info_sanitize_mem (load32 r (x + 4)) (r (x + 13)) (MEM_MAP_ENTRY_PTR x) r
      in store32 (x + 4) tot r1)"

lemmas boot_sizes = sizeof_boot_SYS_Info_t_def sizeof_boot_MEM_MAP_Info_Entry_t_def

section \<open>Lemmas\<close>

text \<open>The type fields of the first \<open>n\<close> entries.\<close>

definition type_field :: "u32 \<Rightarrow> nat \<Rightarrow> u32 \<Rightarrow> bool" where
  "type_field mem_map n a \<longleftrightarrow> (\<exists>i < n. in_region (entry_ptr mem_map i + 16) 4 a)"

lemma load_entry_store_type:
  assumes "i < 256" "j < 256"
  shows "load_entry (store32 (entry_ptr p i + 16) w r) (entry_ptr p j)
    = (if i = j then (load_entry r (entry_ptr p j))\<lparr>mtype := w\<rparr> else load_entry r (entry_ptr p j))"
proof -
  have e: "entry_ptr p k + of_nat f = p + of_nat (k * 24 + f)" for k f
    by (simp add: entry_ptr_def boot_sizes)
  have l: "load32 (store32 (entry_ptr p i + 16) w r) (entry_ptr p j + of_nat f)
      = load32 r (entry_ptr p j + of_nat f)" if "f \<in> {0, 4, 8, 12, 16, 20}" "i \<noteq> j \<or> f \<noteq> 16" for f
  proof -
    have "j * 24 + f + 4 \<le> i * 24 + 16 \<or> i * 24 + 16 + 4 \<le> j * 24 + f"
      using that by (cases i j rule: linorder_cases) auto
    moreover have "f \<le> 20" using that by auto
    ultimately have "load32 (store32 (p + of_nat (i * 24 + 16)) w r) (p + of_nat (j * 24 + f)) = load32 r (p + of_nat (j * 24 + f))"
      using assms by (intro load_offset_apart) auto
    then show ?thesis using e [of i 16] by (simp only: e of_nat_numeral)
  qed
  show ?thesis
    using l [of 0] l [of 4] l [of 8] l [of 12] l [of 16] l [of 20] by (auto simp: load_entry_def)
qed

lemma load_map_Suc: "load_map r p (Suc n) = load_map r p n @ [load_entry r (entry_ptr p n)]"
  by (simp add: load_map_def)

lemma sanitize_loop_append:
  "snd (sanitize_loop (es @ [e]) t)
    = (let e1 = sanitize_entry e; t1 = snd (sanitize_loop es t)
       in if mtype e1 = MEM_MAP_TYPE_AVAILABLE then t1 + length_lo e1 div 1024 else t1)"
  by (induction es arbitrary: t) (auto simp: Let_def split_def)

text \<open>One round sanitizes one entry and leaves the others alone.\<close>

lemma sanitize_mem_step_entry:
  assumes "sanitize_mem_step p n (t, r) = (t1, r1)" "n < 256"
  shows "i < 256 \<Longrightarrow> load_entry r1 (entry_ptr p i)
      = (if i = n then sanitize_entry (load_entry r (entry_ptr p i)) else load_entry r (entry_ptr p i))"
    and "t1 = (let e = sanitize_entry (load_entry r (entry_ptr p n))
      in if mtype e = MEM_MAP_TYPE_AVAILABLE then t + length_lo e div 1024 else t)"
    and "\<not> in_region (entry_ptr p n + 16) 4 a \<Longrightarrow> r1 a = r a"
proof -
  let ?e = "entry_ptr p n"
  have r1: "r1 = (if load32 r (?e + 16) \<ge> MEM_MAP_TYPE_BAD \<or> load32 r (?e + 16) = MEM_MAP_TYPE_ERROR
           then store32 (?e + 16) MEM_MAP_TYPE_RESERVED r else r)"
    and t1: "t1 = (if load32 r1 (?e + 16) = MEM_MAP_TYPE_AVAILABLE then t + load32 r1 (?e + 8) div 1024 else t)"
    using assms(1) by (auto simp: sanitize_mem_step_def Let_def)
  have f: "load32 r' (q + 16) = mtype (load_entry r' q)" "load32 r' (q + 8) = length_lo (load_entry r' q)" for r' q
    by (simp_all add: load_entry_def)
  show e1: "load_entry r1 (entry_ptr p i)
      = (if i = n then sanitize_entry (load_entry r (entry_ptr p i)) else load_entry r (entry_ptr p i))" if "i < 256" for i
    using load_entry_store_type [OF assms(2) that, of p MEM_MAP_TYPE_RESERVED r]
    by (auto simp: r1 f sanitize_entry_def)
  show "t1 = (let e = sanitize_entry (load_entry r (entry_ptr p n))
      in if mtype e = MEM_MAP_TYPE_AVAILABLE then t + length_lo e div 1024 else t)"
    using e1 [OF assms(2)] by (simp add: t1 f Let_def)
  show "\<not> in_region (entry_ptr p n + 16) 4 a \<Longrightarrow> r1 a = r a"
    by (simp add: r1 store32_apply)
qed

lemma sanitize_mem_loop:
  assumes "n \<le> 256" "fold (sanitize_mem_step p) [0..<n] (t, r) = (t1, r1)"
  shows "i < 256 \<Longrightarrow> load_entry r1 (entry_ptr p i)
      = (if i < n then sanitize_entry (load_entry r (entry_ptr p i)) else load_entry r (entry_ptr p i))"
    and "t1 = snd (sanitize_loop (load_map r p n) t)"
    and "\<not> type_field p n a \<Longrightarrow> r1 a = r a"
  using assms
proof (induction n arbitrary: t1 r1 i a)
  case 0
  {
    case 1 then show ?case by simp
  next
    case 2 then show ?case by (simp add: load_map_def)
  next
    case 3 then show ?case by simp
  }
next
  case (Suc n)
  obtain t0 r0 where f: "fold (sanitize_mem_step p) [0..<n] (t, r) = (t0, r0)" by (metis surj_pair)
  {
    case 1
    then have st: "sanitize_mem_step p n (t0, r0) = (t1, r1)" "n < 256" "n \<le> 256" by (simp_all add: f)
    then show ?case
      using sanitize_mem_step_entry(1) [OF st(1,2) 1(1)] Suc.IH(1) [OF 1(1) st(3) f] by auto
  next
    case 2
    then have st: "sanitize_mem_step p n (t0, r0) = (t1, r1)" "n < 256" "n \<le> 256" by (simp_all add: f)
    then show ?case
      using sanitize_mem_step_entry(2) [OF st(1,2)] Suc.IH(1) [OF st(2,3) f] Suc.IH(2) [OF st(3) f]
      by (simp add: load_map_Suc sanitize_loop_append Let_def)
  next
    case 3
    then have st: "sanitize_mem_step p n (t0, r0) = (t1, r1)" "n < 256" "n \<le> 256" by (simp_all add: f)
    have "\<not> type_field p n a" "\<not> in_region (entry_ptr p n + 16) 4 a"
      using 3(1) by (auto simp: type_field_def)
    then show ?case
      using sanitize_mem_step_entry(3) [OF st(1,2)] Suc.IH(3) [OF _ st(3) f] by simp
  }
qed

lemma type_field_offset:
  assumes "type_field (x + 14) n a" "n < 256"
  obtains j where "a = x + of_nat j" "14 \<le> j" "j < 14 + n * 24"
proof -
  obtain i where i: "i < n" "in_region (entry_ptr (x + 14) i + 16) 4 a" using assms(1) by (auto simp: type_field_def)
  obtain k where k: "k < 4" "a = entry_ptr (x + 14) i + 16 + of_nat k" using in_region_ex [OF i(2)] by blast
  then have "a = x + of_nat (14 + i * 24 + 16 + k)" by (simp add: entry_ptr_def boot_sizes)
  moreover have "14 + i * 24 + 16 + k < 14 + n * 24" using i(1) k(1) by linarith
  ultimately show thesis using that [of "14 + i * 24 + 16 + k"] by simp
qed

lemma offset_eq:
  assumes "(x :: u32) + of_nat k = x + of_nat j" "k < 2 ^ 31" "j < 2 ^ 31"
  shows "k = j"
proof -
  have "unat (of_nat k :: u32) = unat (of_nat j :: u32)" using assms(1) by simp
  then show ?thesis using assms(2,3) by (simp add: unat_of_nat_small)
qed

text \<open>The loop leaves the header and the end marker alone.\<close>

lemma no_type_field:
  assumes "n < 256" "k < 14 \<or> 14 + n * 24 \<le> k" "k < 2 ^ 31"
  shows "\<not> type_field (x + 14) n (x + of_nat k)"
proof
  assume "type_field (x + 14) n (x + of_nat k)"
  then obtain j where j: "x + of_nat k = x + of_nat j" "14 \<le> j" "j < 14 + n * 24"
    by (rule type_field_offset [OF _ assms(1)])
  then have "k = j" using assms by (intro offset_eq [of x]) auto
  then show False using assms(2) j by auto
qed

lemma load32_cong_offset:
  "(\<And>j. k \<le> j \<Longrightarrow> j < k + 4 \<Longrightarrow> r1 (x + of_nat j) = r (x + of_nat j)) \<Longrightarrow> load32 r1 (x + of_nat k) = load32 r (x + of_nat k)"
proof (rule load32_cong)
  fix i :: nat
  assume h: "\<And>j. k \<le> j \<Longrightarrow> j < k + 4 \<Longrightarrow> r1 (x + of_nat j) = r (x + of_nat j)" and "i < 4"
  then show "r1 (x + of_nat k + of_nat i) = r (x + of_nat k + of_nat i)"
    using h [of "k + i"] by (simp add: add.assoc)
qed

lemma sanitize_mem_result:
  assumes "s = load_sys_info r x" "boot_info_sanitize_mem (tot_mem s) (num_mem_map_entries s) (MEM_MAP_ENTRY_PTR x) r = (tot, r1)"
    and "n = unat (num_mem_map_entries s)"
  shows "(tot, load_map r1 (x + 14) n) = boot_info_sanitize (tot_mem s) (num_mem_map_entries s) (mem_map_entries s)"
    and "\<not> type_field (x + 14) n a \<Longrightarrow> r1 a = r a"
proof -
  have n: "n < 256" using assms(3) unsigned_less [of "num_mem_map_entries s", where ?'a = nat] by simp
  have mm: "mem_map_entries s = load_map r (x + 14) n" "num_mem_map_entries s = r (x + 13)"
    by (simp_all add: assms(1,3) load_sys_info_def MEM_MAP_ENTRY_PTR_def boot_sizes)
  obtain t r0 where f: "fold (sanitize_mem_step (x + 14)) [0..<n] (0, r) = (t, r0)" by (metis surj_pair)
  have z: "num_mem_map_entries s = 0 \<longleftrightarrow> n = 0" using assms(3) by (simp add: unat_eq_0)
  have n': "n \<le> 256" using n by simp
  have m: "load_map r0 (x + 14) n = map sanitize_entry (load_map r (x + 14) n)"
    using sanitize_mem_loop(1) [OF n' f] n by (simp add: load_map_def)
  have r: "tot = (if n = 0 \<or> \<not> tot_mem s < t then tot_mem s else t)" "r1 = (if n = 0 then r else r0)"
    using assms(2) by (auto simp: boot_info_sanitize_mem_def z assms(3) [symmetric] MEM_MAP_ENTRY_PTR_def boot_sizes f
      split: if_splits)
  have t: "t = snd (sanitize_loop (load_map r (x + 14) n) 0)" by (rule sanitize_mem_loop(2) [OF n' f])
  have len: "length (load_map r (x + 14) n) = n" by (simp add: load_map_def)
  show "(tot, load_map r1 (x + 14) n) = boot_info_sanitize (tot_mem s) (num_mem_map_entries s) (mem_map_entries s)"
    using m t len by (auto simp: boot_info_sanitize_def z r mm(1) assms(3) [symmetric] split_def sanitize_loop_entries Let_def load_map_def)
  show "\<not> type_field (x + 14) n a \<Longrightarrow> r1 a = r a"
    using sanitize_mem_loop(3) [OF n' f, of a] by (simp add: r)
qed

text \<open>What \<^verbatim>\<open>_start_boot_info\<close> makes of the structure in memory.\<close>

lemma start_boot_info_mem_result:
  assumes s: "s = load_sys_info r x"
    and b: "boot_info_sanitize (tot_mem s) (num_mem_map_entries s) (mem_map_entries s) = (tot, mm)"
  shows "load_sys_info (start_boot_info_mem x r) x = s\<lparr>tot_mem := tot, mem_map_entries := mm\<rparr>"
    and "\<not> in_region (x + 4) 4 a \<Longrightarrow> \<not> type_field (x + 14) (unat (r (x + 13))) a \<Longrightarrow> start_boot_info_mem x r a = r a"
proof -
  define n where "n = unat (r (x + 13))"
  obtain tot1 r1 where f: "boot_info_sanitize_mem (tot_mem s) (num_mem_map_entries s) (MEM_MAP_ENTRY_PTR x) r = (tot1, r1)"
    by fastforce
  have h: "tot_mem s = load32 r (x + 4)" "num_mem_map_entries s = r (x + 13)"
    by (simp_all add: s load_sys_info_def)
  have n: "n < 256" unfolding n_def using unsigned_less [of "r (x + 13)", where ?'a = nat] by simp
  have nn: "n = unat (num_mem_map_entries s)" by (simp add: n_def h)
  have t: "tot1 = tot" "load_map r1 (x + 14) n = mm"
    using sanitize_mem_result(1) [OF s f nn] b by simp_all
  have keep: "r1 a = r a" if "\<not> type_field (x + 14) n a" for a
    by (rule sanitize_mem_result(2) [OF s f nn that])
  let ?r = "store32 (x + 4) tot r1"
  have res: "start_boot_info_mem x r = ?r"
    using f t by (simp add: start_boot_info_mem_def h)
  have byte: "?r (x + of_nat k) = r (x + of_nat k)" if "k < 14 \<or> 14 + n * 24 \<le> k" "k < 2 ^ 31" "k < 4 \<or> 8 \<le> k" for k
  proof -
    have "\<not> in_region (x + 4) 4 (x + of_nat k)"
    proof
      assume "in_region (x + 4) 4 (x + of_nat k)"
      then obtain i where "i < 4" "x + of_nat k = x + of_nat (4 + i)"
        by (auto dest!: in_region_ex simp: add.assoc)
      then show False using offset_eq [of x k "4 + i"] that(2,3) by auto
    qed
    then show ?thesis
      using keep [OF no_type_field [OF n that(1,2)]] by (simp add: store32_apply)
  qed
  have word: "load32 ?r (x + of_nat k) = load32 r (x + of_nat k)"
    if "k \<in> {0, 8} \<or> k = 14 + n * 24" for k
    using that n by (intro load32_cong_offset byte) auto
  have entries: "load_map ?r (x + 14) n = mm"
  proof -
    have "load32 ?r (entry_ptr (x + 14) i + of_nat k) = load32 r1 (entry_ptr (x + 14) i + of_nat k)"
      if "i < n" "k < 24" for i k
    proof -
      have "entry_ptr (x + 14) i + of_nat k = x + of_nat (14 + i * 24 + k)" by (simp add: entry_ptr_def boot_sizes)
      then show ?thesis
        using load_offset_apart [of 4 "14 + i * 24 + k" x tot r1] that n by (simp add: add.assoc)
    qed
    from this [where k = 0] this [where k = 4] this [where k = 8] this [where k = 12] this [where k = 16]
      this [where k = 20]
    have "load_entry ?r (entry_ptr (x + 14) i) = load_entry r1 (entry_ptr (x + 14) i)" if "i < n" for i
      using that by (simp add: load_entry_def)
    then show ?thesis unfolding t(2) [symmetric] by (simp add: load_map_def)
  qed
  show "load_sys_info (start_boot_info_mem x r) x = s\<lparr>tot_mem := tot, mem_map_entries := mm\<rparr>"
    using word [of 0] word [of 8] word [of "14 + n * 24"] byte [of 12] byte [of 13] entries
    by (simp add: res s load_sys_info_def MEM_MAP_ENTRY_PTR_def SYS_INFO_END_MARKER_PTR_def boot_sizes n_def add.assoc)
  show "\<not> in_region (x + 4) 4 a \<Longrightarrow> \<not> type_field (x + 14) (unat (r (x + 13))) a \<Longrightarrow> start_boot_info_mem x r a = r a"
    using keep by (simp add: res store32_apply n_def)
qed

lemma boot_info_sanitize_types:
  assumes "boot_info_sanitize tot (num_mem_map_entries s) (mem_map_entries s) = (tot', mm)" "s = load_sys_info r x"
  shows "length mm = unat (num_mem_map_entries s) \<and> list_all (\<lambda>e. 1 \<le> mtype e \<and> mtype e \<le> 4) mm"
proof -
  have len: "length (mem_map_entries s) = unat (num_mem_map_entries s)"
    by (simp add: assms(2) load_sys_info_def load_map_def)
  then have "mm = map sanitize_entry (mem_map_entries s)"
    using assms(1) sanitize_loop_entries [of "mem_map_entries s" 0]
    by (auto simp: boot_info_sanitize_def split: if_splits prod.splits)
  then show ?thesis using len by (simp add: list_all_iff sanitize_entry_type)
qed

section \<open>Properties\<close>

text \<open>
  C16. The record of the boot information is what the memory holds: run on the packed structure at
  any address, \<^verbatim>\<open>_start_boot_info\<close> leaves there exactly the sanitized structure (the total memory
  and the types of the entries, the rest of the header, the other fields of every entry and the
  marker behind the last entry as they were), stores no byte outside the total and the type
  fields of the entries the header counts, and every type it leaves is a known one.
\<close>

theorem boot_info_memory:
  assumes "s = load_sys_info r x"
    and "boot_info_sanitize (tot_mem s) (num_mem_map_entries s) (mem_map_entries s) = (tot, mm)"
  shows "load_sys_info (start_boot_info_mem x r) x = s\<lparr>tot_mem := tot, mem_map_entries := mm\<rparr>
    \<and> (start_boot_info_mem x r a = r a \<or> in_region (x + 4) 4 a
        \<or> (\<exists>i < unat (num_mem_map_entries s). in_region (entry_ptr (MEM_MAP_ENTRY_PTR x) i + 16) 4 a))
    \<and> length mm = unat (num_mem_map_entries s) \<and> list_all (\<lambda>e. 1 \<le> mtype e \<and> mtype e \<le> 4) mm"
proof (intro conjI)
  show "load_sys_info (start_boot_info_mem x r) x = s\<lparr>tot_mem := tot, mem_map_entries := mm\<rparr>"
    by (rule start_boot_info_mem_result(1) [OF assms])
  have "num_mem_map_entries s = r (x + 13)" "MEM_MAP_ENTRY_PTR x = x + 14"
    by (simp_all add: assms(1) load_sys_info_def MEM_MAP_ENTRY_PTR_def boot_sizes)
  then show "start_boot_info_mem x r a = r a \<or> in_region (x + 4) 4 a
      \<or> (\<exists>i < unat (num_mem_map_entries s). in_region (entry_ptr (MEM_MAP_ENTRY_PTR x) i + 16) 4 a)"
    using start_boot_info_mem_result(2) [OF assms, of a] by (auto simp: type_field_def)
qed (use boot_info_sanitize_types [OF assms(2,1)] in auto)

text \<open>One entry of 16 KB at \<^verbatim>\<open>0x500\<close>, of the unknown type 7 in the second case.\<close>

definition sample_boot_memory :: "u32 \<Rightarrow> memory" where
  "sample_boot_memory ty = (store32 (0x500 + 14 + 16) ty (store32 (0x500 + 14 + 8) 0x4000 (\<lambda>_. 0)))(0x50D := 1)"

theorem boot_info_memory_witness:
  "tot_mem (load_sys_info (start_boot_info_mem 0x500 (sample_boot_memory 1)) 0x500) = 16
    \<and> map mtype (mem_map_entries (load_sys_info (start_boot_info_mem 0x500 (sample_boot_memory 7)) 0x500)) = [2]"
proof -
  let ?s = "\<lambda>ty. load_sys_info (sample_boot_memory ty) 0x500"
  have b: "boot_info_sanitize (tot_mem (?s 1)) (num_mem_map_entries (?s 1)) (mem_map_entries (?s 1))
      = (16, mem_map_entries (?s 1))" by code_simp
  have c: "boot_info_sanitize (tot_mem (?s 7)) (num_mem_map_entries (?s 7)) (mem_map_entries (?s 7))
      = (0, map (\<lambda>e. e\<lparr>mtype := 2\<rparr>) (mem_map_entries (?s 7)))" by code_simp
  have d: "map mtype (map (\<lambda>e. e\<lparr>mtype := 2\<rparr>) (mem_map_entries (?s 7))) = [2]" by code_simp
  show ?thesis
    using boot_info_memory [OF refl b] boot_info_memory [OF refl c] d by simp
qed

end
