(* ===== verification/Trap_Frame.thy ===== *)
theory Trap_Frame
  imports Interrupts
begin

text \<open>
  The stubs of \<^verbatim>\<open>arch/x86/ISR.S\<close> and \<^verbatim>\<open>arch/x86/IRQ.S\<close> instruction by instruction: what the
  CPU and the stub push, how the C handler finds it as its argument of type \<^verbatim>\<open>ISR_registers_t\<close>,
  and how the stub gives the registers back.
\<close>

section \<open>The CPU\<close>

record cpu_t =
  c_eax :: u32
  c_ecx :: u32
  c_edx :: u32
  c_ebx :: u32
  c_esp :: u32
  c_ebp :: u32
  c_esi :: u32
  c_edi :: u32
  c_eip :: u32
  c_cs :: u32
  c_eflags :: u32
  c_ds :: u16
  c_es :: u16
  c_fs :: u16
  c_gs :: u16

type_synonym cpu_mem = "cpu_t \<times> memory"

definition push32 :: "u32 \<Rightarrow> cpu_mem \<Rightarrow> cpu_mem" where
  "push32 v = (\<lambda>(c, r). (c\<lparr>c_esp := c_esp c - 4\<rparr>, store32 (c_esp c - 4) v r))"

definition push16 :: "u16 \<Rightarrow> cpu_mem \<Rightarrow> cpu_mem" where
  "push16 v = (\<lambda>(c, r). (c\<lparr>c_esp := c_esp c - 2\<rparr>, store16 (c_esp c - 2) v r))"

text \<open>
  An interrupt without a change of the privilege level pushes three words and, for some
  exceptions, an error code; the gate is an interrupt gate and clears the interrupt flag.
\<close>

definition cpu_interrupt :: "u32 option \<Rightarrow> cpu_mem \<Rightarrow> cpu_mem" where
  "cpu_interrupt e = (\<lambda>(c, r).
     let s = push32 (c_eip c) (push32 (c_cs c) (push32 (c_eflags c) (c, r)));
         s1 = (case e of None \<Rightarrow> s | Some v \<Rightarrow> push32 v s)
     in (fst s1\<lparr>c_eflags := c_eflags c AND NOT 0x200\<rparr>, snd s1))"

text \<open>
  \<^verbatim>\<open>arch/x86/cpuid.c\<close>: the instruction overwrites four registers with what the processor model,
  a parameter, answers for EAX and ECX; the structure that the argument points to has no field.
\<close>

definition cpuid :: "(u32 \<Rightarrow> u32 \<Rightarrow> u32 \<times> u32 \<times> u32 \<times> u32) \<Rightarrow> u32 \<Rightarrow> cpu_t \<Rightarrow> cpu_t" where
  "cpuid leaf p c = (if p = 0 then c
     else let (a, b, x, d) = leaf (c_eax c) (c_ecx c) in c\<lparr>c_eax := a, c_ebx := b, c_ecx := x, c_edx := d\<rparr>)"

section \<open>Stubs\<close>

definition pushad :: "cpu_mem \<Rightarrow> cpu_mem" where
  "pushad = (\<lambda>(c, r). push32 (c_edi c) (push32 (c_esi c) (push32 (c_ebp c) (push32 (c_esp c)
     (push32 (c_ebx c) (push32 (c_edx c) (push32 (c_ecx c) (push32 (c_eax c) (c, r)))))))))"

text \<open>\<^verbatim>\<open>mov ax, w\<close>: the upper half of EAX stays.\<close>

definition mov_ax :: "u16 \<Rightarrow> cpu_t \<Rightarrow> cpu_t" where
  "mov_ax w c = c\<lparr>c_eax := (c_eax c AND NOT 0xFFFF) OR ucast w\<rparr>"

definition set_segments :: "u16 \<Rightarrow> cpu_t \<Rightarrow> cpu_t" where
  "set_segments w c = c\<lparr>c_ds := w, c_es := w, c_fs := w, c_gs := w\<rparr>"

text \<open>The common part of both stubs up to the call, which pushes the return address.\<close>

definition universal_entry :: "u32 \<Rightarrow> cpu_mem \<Rightarrow> cpu_mem" where
  "universal_entry ret_addr s =
     (let (c1, r1) = pushad s;
          c2 = mov_ax (c_ds c1) c1;
          (c3, r3) = push16 (ucast (c_eax c2)) (c2, r1);
          c4 = set_segments 0x10 (mov_ax 0x10 c3)
      in push32 ret_addr (c4, r3))"

definition ISR_INT_entry :: "u32 \<Rightarrow> bool \<Rightarrow> u32 \<Rightarrow> cpu_mem \<Rightarrow> cpu_mem" where
  "ISR_INT_entry x e ret_addr s = universal_entry ret_addr (push32 x (if e then s else push32 0 s))"

definition IRQ_INT_entry :: "u32 \<Rightarrow> u32 \<Rightarrow> cpu_mem \<Rightarrow> cpu_mem" where
  "IRQ_INT_entry x ret_addr s = universal_entry ret_addr (push32 x (push32 0 s))"

text \<open>From the return of the C function to the end of the stub; \<^verbatim>\<open>popad\<close> skips the saved ESP.\<close>

definition popad :: "memory \<Rightarrow> cpu_t \<Rightarrow> cpu_t" where
  "popad r c = (let p = c_esp c in
     c\<lparr>c_edi := load32 r p, c_esi := load32 r (p + 4), c_ebp := load32 r (p + 8), c_ebx := load32 r (p + 16),
       c_edx := load32 r (p + 20), c_ecx := load32 r (p + 24), c_eax := load32 r (p + 28), c_esp := p + 32\<rparr>)"

definition cpu_iretd :: "memory \<Rightarrow> cpu_t \<Rightarrow> cpu_t" where
  "cpu_iretd r c = (let p = c_esp c in
     c\<lparr>c_eip := load32 r p, c_cs := load32 r (p + 4), c_eflags := load32 r (p + 8), c_esp := p + 12\<rparr>)"

definition universal_exit :: "memory \<Rightarrow> cpu_t \<Rightarrow> cpu_t" where
  "universal_exit r c =
     (let w = load16 r (c_esp c);
          c1 = set_segments w (mov_ax w (c\<lparr>c_esp := c_esp c + 2\<rparr>));
          c2 = popad r c1
      in cpu_iretd r (c2\<lparr>c_esp := c_esp c2 + 8\<rparr>))"

text \<open>The argument of the C function: the fields of the packed structure at their offsets.\<close>

definition sizeof_ISR_registers_t :: nat where "sizeof_ISR_registers_t = 2 + 15 * 4"

definition load_ISR_registers :: "memory \<Rightarrow> u32 \<Rightarrow> ISR_registers_t" where
  "load_ISR_registers r p =
     \<lparr>r_ds = load16 r p, r_edi = load32 r (p + 2), r_esi = load32 r (p + 6), r_ebp = load32 r (p + 10),
      r_esp = load32 r (p + 14), r_ebx = load32 r (p + 18), r_edx = load32 r (p + 22), r_ecx = load32 r (p + 26),
      r_eax = load32 r (p + 30), int_no = load32 r (p + 34), err_code = load32 r (p + 38),
      r_eip = load32 r (p + 42), r_cs = load32 r (p + 46), r_eflags = load32 r (p + 50),
      r_useresp = load32 r (p + 54), r_ss = load32 r (p + 58)\<rparr>"

text \<open>The stubs that \<^verbatim>\<open>ISR.S\<close> generates: the vector, and whether the CPU has pushed an error code.\<close>

definition ISR_INT_table :: "(nat \<times> bool) list" where
  "ISR_INT_table = [(0, False), (1, False), (2, False), (3, False), (4, False), (5, False), (6, False), (7, False),
     (8, True), (9, False), (10, True), (11, True), (12, True), (13, True), (14, True), (16, False), (17, True),
     (18, False), (19, False), (20, False), (21, True)]"

section \<open>Reference\<close>

text \<open>
  The exceptions for which the CPU pushes an error code, as the manual of the architecture lists
  them: double fault, invalid TSS, segment not present, stack fault, general protection, page
  fault, alignment check (17) and control protection (21).  The table in the comment at the top of
  \<^verbatim>\<open>arch/x86/defs/interrupts.h\<close> says otherwise for two of them: it lists 17 and the reserved
  exceptions 19 to 31 without an error code.  The macros of \<^verbatim>\<open>ISR.S\<close> follow the manual.
\<close>

definition exception_has_error :: "nat \<Rightarrow> bool" where
  "exception_has_error n \<longleftrightarrow> n \<in> {8, 10, 11, 12, 13, 14, 17, 21}"

definition documented_error :: "nat \<Rightarrow> bool" where
  "documented_error n \<longleftrightarrow> n = 8 \<or> 10 \<le> n \<and> n \<le> 14"

text \<open>
  What the handler should be given: the registers of the interrupted program.  ESP is its value
  before \<^verbatim>\<open>pushad\<close>; the CPU does not push a stack pointer when the privilege level stays, so the
  last two fields are the words on top of the interrupted stack.
\<close>

definition saved_registers :: "cpu_t \<Rightarrow> memory \<Rightarrow> u32 \<Rightarrow> u32 \<Rightarrow> ISR_registers_t" where
  "saved_registers c r n e =
     \<lparr>r_ds = c_ds c, r_edi = c_edi c, r_esi = c_esi c, r_ebp = c_ebp c, r_esp = c_esp c - 20, r_ebx = c_ebx c,
      r_edx = c_edx c, r_ecx = c_ecx c, r_eax = c_eax c, int_no = n, err_code = e, r_eip = c_eip c, r_cs = c_cs c,
      r_eflags = c_eflags c, r_useresp = load32 r (c_esp c), r_ss = load32 r (c_esp c + 4)\<rparr>"

section \<open>Lemmas: the frame\<close>

text \<open>EBX, which a C function has to keep, is lost, and the other registers are not touched.\<close>

lemma cpuid_registers:
  assumes "leaf (c_eax c) (c_ecx c) = (a, b, x, d)" "p \<noteq> 0"
  shows "c_ebx (cpuid leaf p c) = b" "c_esp (cpuid leaf p c) = c_esp c" "c_ebp (cpuid leaf p c) = c_ebp c"
    "c_esi (cpuid leaf p c) = c_esi c" "c_edi (cpuid leaf p c) = c_edi c" "c_eip (cpuid leaf p c) = c_eip c"
  using assms by (simp_all add: cpuid_def)

lemma stack_offset: "(p + numeral k) - numeral j = p + (numeral k - numeral j :: u32)"
  by simp

lemma ucast_low_half: "ucast ((x :: u32) AND NOT 0xFFFF OR ucast (w :: u16)) = w"
  by (rule bit_word_eqI) (auto simp: bit_simps bit_low_masks)

lemmas stub_defs = universal_entry_def cpu_interrupt_def pushad_def push32_def push16_def mov_ax_def set_segments_def

lemma entry_frame:
  assumes "c_esp c = p + 58"
  shows "load_ISR_registers (snd (IRQ_INT_entry n ra (cpu_interrupt None (c, r)))) (p + 4) = saved_registers c r n 0"
    "load_ISR_registers (snd (ISR_INT_entry n False ra (cpu_interrupt None (c, r)))) (p + 4) = saved_registers c r n 0"
    "load_ISR_registers (snd (ISR_INT_entry n True ra (cpu_interrupt (Some e) (c, r)))) (p + 4) = saved_registers c r n e"
    "c_esp (fst (IRQ_INT_entry n ra (cpu_interrupt None (c, r)))) = p"
    "c_esp (fst (ISR_INT_entry n False ra (cpu_interrupt None (c, r)))) = p"
    "c_esp (fst (ISR_INT_entry n True ra (cpu_interrupt (Some e) (c, r)))) = p"
  by (simp_all add: load_ISR_registers_def saved_registers_def IRQ_INT_entry_def ISR_INT_entry_def stub_defs assms
      stack_offset Let_def split_def load_apart ucast_low_half [simplified] add.assoc del: add_diff_eq diff_diff_eq)

text \<open>The stub and the CPU write the 58 bytes below the interrupted stack pointer and no others.\<close>

lemma entry_writes:
  assumes "c_esp c = p + 58" "\<not> in_region p 58 a"
  shows "snd (IRQ_INT_entry n ra (cpu_interrupt None (c, r))) a = r a"
proof -
  have "\<not> in_region (p + of_nat k) j a" if "k + j \<le> 58" for k j
    using assms(2) in_region_inside [of p k j a 58] that by auto
  from this [of 0 4] this [of 4 2] this [of 6 4] this [of 10 4] this [of 14 4] this [of 18 4] this [of 22 4]
    this [of 26 4] this [of 30 4] this [of 34 4] this [of 38 4] this [of 42 4] this [of 46 4] this [of 50 4] this [of 54 4]
  show ?thesis
    by (simp add: IRQ_INT_entry_def stub_defs assms stack_offset Let_def split_def store32_apply store16_other
        add.assoc del: add_diff_eq diff_diff_eq)
qed

lemma exit_registers:
  assumes "c_esp c = p" "g = load_ISR_registers r p"
  shows "universal_exit r c = \<lparr>c_eax = r_eax g, c_ecx = r_ecx g, c_edx = r_edx g, c_ebx = r_ebx g, c_esp = p + 54,
     c_ebp = r_ebp g, c_esi = r_esi g, c_edi = r_edi g, c_eip = r_eip g, c_cs = r_cs g, c_eflags = r_eflags g,
     c_ds = r_ds g, c_es = r_ds g, c_fs = r_ds g, c_gs = r_ds g\<rparr>"
  using assms
  by (simp add: universal_exit_def popad_def cpu_iretd_def set_segments_def mov_ax_def load_ISR_registers_def Let_def add.assoc)

text \<open>
  The stubs agree with the manual on every exception they are written for, and disagree with the
  table of \<^verbatim>\<open>interrupts.h\<close> on exactly two of them.
\<close>

lemma error_code_table_divergence:
  "list_all (\<lambda>(n, e). e = exception_has_error n) ISR_INT_table"
  "map fst (filter (\<lambda>(n, e). e \<noteq> documented_error n) ISR_INT_table) = [17, 21]"
  by (simp_all add: ISR_INT_table_def exception_has_error_def documented_error_def)

section \<open>Properties\<close>

text \<open>
  C12. Every stub gives its handler the registers of the interrupted program in the layout of
  the C structure: the exceptions for which the CPU pushes an error code, by the manual of the
  architecture, are exactly the ones whose stub does not push a zero in its place, so the vector,
  the error code and all registers are found at the offsets of their fields, and so they are for
  the interrupt requests.  This holds of the exceptions 17 and 21, too, for which the table in
  \<^verbatim>\<open>interrupts.h\<close> lists no error code (\<^verbatim>\<open>error_code_table_divergence\<close>).
\<close>

theorem trap_frame_layout:
  assumes "(n, e) \<in> set ISR_INT_table" "v = (if exception_has_error n then Some code else None)"
  shows "(case ISR_INT_entry (of_nat n) e ra (cpu_interrupt v (c, r)) of (c1, r1) \<Rightarrow>
       load_ISR_registers r1 (c_esp c1 + 4) = saved_registers c r (of_nat n) (case v of None \<Rightarrow> 0 | Some w \<Rightarrow> w))
   \<and> (case IRQ_INT_entry k ra (cpu_interrupt None (c, r)) of (c1, r1) \<Rightarrow>
       load_ISR_registers r1 (c_esp c1 + 4) = saved_registers c r k 0)"
proof -
  have e: "e = exception_has_error n" using assms(1) by (auto simp: ISR_INT_table_def exception_has_error_def)
  have p: "c_esp c = (c_esp c - 58) + 58" by simp
  show ?thesis
    using entry_frame [OF p] assms(2) e by (cases "exception_has_error n") (simp_all add: split_def)
qed

theorem trap_frame_layout_witness:
  "\<forall>c r ra. case ISR_INT_entry 14 True ra (cpu_interrupt (Some 2) (c, r)) of (c1, r1) \<Rightarrow>
     int_no (load_ISR_registers r1 (c_esp c1 + 4)) = 14 \<and> err_code (load_ISR_registers r1 (c_esp c1 + 4)) = 2"
proof (intro allI)
  fix c r ra
  show "case ISR_INT_entry 14 True ra (cpu_interrupt (Some 2) (c, r)) of (c1, r1) \<Rightarrow>
     int_no (load_ISR_registers r1 (c_esp c1 + 4)) = 14 \<and> err_code (load_ISR_registers r1 (c_esp c1 + 4)) = 2"
    using trap_frame_layout [of 14 True "Some 2" 2, where c = c and r = r and ra = ra]
    by (simp add: ISR_INT_table_def exception_has_error_def saved_registers_def split_def)
qed

end
