(* ===== verification/Transparency.thy ===== *)
theory Transparency
  imports Running Trap_Frame
begin

text \<open>
  An interrupt request as the interrupted program sees it: the CPU and the stub of \<^verbatim>\<open>IRQ.S\<close> save
  its registers on its stack, the kernel's handler runs, and the stub gives the registers back.
\<close>

section \<open>An interrupt request\<close>

text \<open>
  \<open>junk\<close> are the registers that a C function may leave with any value (EAX, ECX, EDX), and
  \<open>scratch\<close> is what the compiled handlers do to the stack: they use the part below their
  argument, \<open>depth\<close> bytes here, and may assign to the number and the error code in the argument,
  as \<^verbatim>\<open>IRQ_UniversalHandler\<close> does.
\<close>

definition interrupt_request :: "u8 \<Rightarrow> u32 \<Rightarrow> u32 \<times> u32 \<times> u32 \<Rightarrow> (memory \<Rightarrow> memory) \<Rightarrow> cpu_t \<Rightarrow> cpu_t K" where
  "interrupt_request n ret_addr junk scratch c =
     bind (gets ram) (\<lambda>r.
     let (c1, r1) = IRQ_INT_entry (ucast n) ret_addr (cpu_interrupt None (c, r));
         arg = c_esp c1 + 4;
         (a, cx, d) = junk
     in
     bind (modify (\<lambda>m. m\<lparr>ram := r1\<rparr>)) (\<lambda>_.
     bind (kernel_irq (load_ISR_registers r1 arg)) (\<lambda>_.
     bind (modify (\<lambda>m. m\<lparr>ram := scratch (ram m)\<rparr>)) (\<lambda>_.
     gets (\<lambda>m. universal_exit (ram m) (c1\<lparr>c_esp := arg, c_eax := a, c_ecx := cx, c_edx := d\<rparr>))))))"

definition handler_stack :: "u32 \<Rightarrow> nat \<Rightarrow> u32 \<Rightarrow> bool" where
  "handler_stack esp depth a \<longleftrightarrow> in_region (esp - 54 - of_nat depth) depth a \<or> in_region (esp - 20) 8 a"

section \<open>Lemmas\<close>

text \<open>The argument but for the two words that a handler may assign to.\<close>

lemma handler_stack_frame:
  assumes "depth < 2 ^ 31" "k < 34 \<or> 42 \<le> k" "k < 54"
  shows "\<not> handler_stack (p + 58) depth (p + 4 + of_nat k)"
proof -
  have "unat (of_nat depth + of_nat k :: u32) = depth + k"
    using assms by (simp add: unat_of_nat_small flip: of_nat_add)
  moreover have "p + 4 + of_nat k - (p + 58 - 54 - of_nat depth) = of_nat depth + of_nat k" by simp
  ultimately have "\<not> in_region (p + 58 - 54 - of_nat depth) depth (p + 4 + of_nat k)"
    by (simp add: in_region_def add.commute)
  moreover have "\<not> in_region (p + 58 - 20) 8 (p + 4 + of_nat k)"
  proof
    assume "in_region (p + 58 - 20) 8 (p + 4 + of_nat k)"
    then obtain i where i: "i < 8" "p + 4 + of_nat k = p + 58 - 20 + of_nat i" using in_region_ex by blast
    then have "(of_nat k :: u32) = of_nat (34 + i)" by (simp add: algebra_simps)
    moreover have "unat (of_nat k :: u32) = k" "unat (of_nat (34 + i) :: u32) = 34 + i"
      using assms(3) i(1) by (simp_all add: unat_of_nat_small del: of_nat_add)
    ultimately have "k = 34 + i" by metis
    then show False using assms(2) i(1) by linarith
  qed
  ultimately show ?thesis by (simp add: handler_stack_def)
qed

lemma frame_fields:
  assumes "\<And>k. k < 34 \<or> 42 \<le> k \<Longrightarrow> k < 54 \<Longrightarrow> r2 (q + of_nat k) = r1 (q + of_nat k)"
    and "g1 = load_ISR_registers r1 q" "g2 = load_ISR_registers r2 q"
  shows "r_eax g2 = r_eax g1" "r_ecx g2 = r_ecx g1" "r_edx g2 = r_edx g1" "r_ebx g2 = r_ebx g1" "r_ebp g2 = r_ebp g1"
    "r_esi g2 = r_esi g1" "r_edi g2 = r_edi g1" "r_eip g2 = r_eip g1" "r_cs g2 = r_cs g1" "r_eflags g2 = r_eflags g1"
    "r_ds g2 = r_ds g1"
proof -
  have w: "load32 r2 (q + of_nat i) = load32 r1 (q + of_nat i)" if "i + 4 \<le> 34 \<or> 42 \<le> i" "i + 4 \<le> 54" for i
  proof (rule load32_cong)
    fix k :: nat
    assume "k < 4"
    with that have "i + k < 34 \<or> 42 \<le> i + k" "i + k < 54" by linarith+
    from assms(1) [OF this] show "r2 (q + of_nat i + of_nat k) = r1 (q + of_nat i + of_nat k)"
      by (simp add: add.assoc)
  qed
  have "load16 r2 q = load16 r1 q"
    using assms(1) [of 0] assms(1) [of 1] by (simp add: load16_def)
  then show "r_eax g2 = r_eax g1" "r_ecx g2 = r_ecx g1" "r_edx g2 = r_edx g1" "r_ebx g2 = r_ebx g1" "r_ebp g2 = r_ebp g1"
    "r_esi g2 = r_esi g1" "r_edi g2 = r_edi g1" "r_eip g2 = r_eip g1" "r_cs g2 = r_cs g1" "r_eflags g2 = r_eflags g1"
    "r_ds g2 = r_ds g1"
    unfolding assms(2,3) load_ISR_registers_def
    using w [of 2] w [of 6] w [of 10] w [of 18] w [of 22] w [of 26] w [of 30] w [of 42] w [of 46] w [of 50] by simp_all
qed

text \<open>The request is served on the stack of the interrupted program and leaves its registers alone.\<close>

lemma request_transparent:
  assumes "kernel_inv m" "n = 1 \<Longrightarrow> \<not> keyboard_silent m" "unat n < 16" "n = 0 \<Longrightarrow> unat (ticks m) + 1 < 2 ^ 31"
    and "c_esp c = p + 58" "\<And>a. in_region p 58 a \<Longrightarrow> \<not> vga_region a"
    and "depth < 2 ^ 31" "\<And>r a. \<not> handler_stack (p + 58) depth a \<Longrightarrow> scratch r a = r a"
  shows "\<exists>m1. interrupt_request n ret_addr junk scratch c m = Done (set_segments (c_ds c) c) m1
    \<and> kernel_inv m1 \<and> kernel_frame (m\<lparr>ram := ram m1\<rparr>) m1
    \<and> ticks m1 = ticks m + (if n = 0 then 1 else 0)
    \<and> (\<forall>a. \<not> vga_region a \<and> \<not> in_region p 58 a \<and> \<not> handler_stack (p + 58) depth a \<longrightarrow> ram m1 a = ram m a)"
proof -
  obtain c1 r1 where e: "IRQ_INT_entry (ucast n) ret_addr (cpu_interrupt None (c, ram m)) = (c1, r1)"
    by (cases "IRQ_INT_entry (ucast n) ret_addr (cpu_interrupt None (c, ram m))")
  let ?m = "m\<lparr>ram := r1\<rparr>" and ?g = "saved_registers c (ram m) (ucast n) 0"
  have g: "load_ISR_registers r1 (p + 4) = ?g" "c_esp c1 = p"
    using entry_frame(1,4) [OF assms(5), of "ucast n" ret_addr "ram m"] by (simp_all add: e)
  have n: "unat (ucast n :: u32) = unat n" "(ucast n :: u32) = 0 \<longleftrightarrow> n = 0"
    using assms(3) by (simp_all add: unsigned_ucast_eq unsigned_take_bit_eq take_bit_nat_eq_self word_unat_eq_iff)
  have n1: "(ucast n :: u32) = 1 \<longleftrightarrow> n = 1" using n(1) by (simp add: word_unat_eq_iff)
  have "kernel_inv ?m" "n = 1 \<Longrightarrow> \<not> keyboard_silent ?m"
    using assms(1,2) by (simp_all add: kernel_inv_def keyboard_silent_def)
  then obtain m2 where m2: "kernel_irq ?g ?m = Done () m2" "kernel_inv m2" "kernel_frame ?m m2"
    "ticks m2 = ticks m + (if n = 0 then 1 else 0)"
    using request_served [of ?m ?g] assms(3,4) n n1 by (auto simp: saved_registers_def)
  let ?m1 = "m2\<lparr>ram := scratch (ram m2)\<rparr>"
  have screen: "ram m2 a = r1 a" if "\<not> vga_region a" for a
    using m2(3) that by (simp add: kernel_frame_def screen_only_def)
  have frame: "ram ?m1 (p + 4 + of_nat k) = r1 (p + 4 + of_nat k)" if "k < 34 \<or> 42 \<le> k" "k < 54" for k
  proof -
    have "in_region p 58 (p + of_nat (4 + k))" using that by (subst in_region_offset) auto
    then have "\<not> vga_region (p + 4 + of_nat k)" by (intro assms(6)) (simp add: add.assoc)
    then show ?thesis
      using assms(8) [OF handler_stack_frame [OF assms(7) that]] screen by simp
  qed
  have "universal_exit (ram ?m1) (c1\<lparr>c_esp := p + 4, c_eax := a, c_ecx := cx, c_edx := d\<rparr>) = set_segments (c_ds c) c" for a cx d
    using exit_registers [of "c1\<lparr>c_esp := p + 4, c_eax := a, c_ecx := cx, c_edx := d\<rparr>" "p + 4" _ "ram ?m1", OF _ refl]
      frame_fields [OF frame g(1) [symmetric] refl] assms(5)
    by (simp add: saved_registers_def set_segments_def)
  then have "interrupt_request n ret_addr junk scratch c m = Done (set_segments (c_ds c) c) ?m1"
    by (simp add: interrupt_request_def bind_def gets_def modify_def e g m2(1) Let_def split_def)
  moreover have "ram ?m1 a = ram m a" if "\<not> vga_region a" "\<not> in_region p 58 a" "\<not> handler_stack (p + 58) depth a" for a
    using screen [OF that(1)] assms(8) [OF that(3)] entry_writes [OF assms(5) that(2), of "ucast n" ret_addr "ram m"]
    by (simp add: e)
  moreover have "kernel_frame (m\<lparr>ram := ram ?m1\<rparr>) ?m1" using m2(3) by (simp add: kernel_frame_def screen_only_def)
  moreover have "kernel_inv ?m1" using m2(2) by (simp add: kernel_inv_def)
  ultimately show ?thesis using m2(4) by (intro exI [of _ ?m1]) simp
qed

section \<open>Properties\<close>

text \<open>
  C4. An interrupt request is transparent to the program it interrupts in the running kernel.
  The hypotheses: the program's stack is outside the screen and the compiled handlers keep to the
  stack below it and to the two words of their argument that they may assign to; the tick counter
  is not at the largest \<^verbatim>\<open>int\<close> when the timer ticks; and the keyboard's controller is not without
  data for the million polls of its handler, which would panic.  Then the request returns to the
  interrupted instruction with all general registers, the flags and the stack pointer as they
  were (ES, FS and GS become DS), and no memory has changed but the screen and the stack below
  the interrupted stack pointer; the kernel's invariant holds and its tables, its memory managers
  and paging are untouched.
\<close>

theorem interrupt_transparent:
  assumes "kernel_inv m" "n = 1 \<Longrightarrow> \<not> keyboard_silent m" "unat n < 16" "n = 0 \<Longrightarrow> unat (ticks m) + 1 < 2 ^ 31"
    and "\<And>a. in_region (c_esp c - 58) 58 a \<Longrightarrow> \<not> vga_region a"
    and "depth < 2 ^ 31" "\<And>r a. \<not> handler_stack (c_esp c) depth a \<Longrightarrow> scratch r a = r a"
  shows "\<exists>m1. interrupt_request n ret_addr junk scratch c m = Done (c\<lparr>c_es := c_ds c, c_fs := c_ds c, c_gs := c_ds c\<rparr>) m1
    \<and> kernel_inv m1 \<and> iflag m1 = iflag m \<and> kernel_frame (m\<lparr>ram := ram m1\<rparr>) m1
    \<and> ticks m1 = ticks m + (if n = 0 then 1 else 0)
    \<and> (\<forall>a. \<not> vga_region a \<and> \<not> in_region (c_esp c - 58) 58 a \<and> \<not> handler_stack (c_esp c) depth a \<longrightarrow> ram m1 a = ram m a)"
proof -
  have e: "c_esp c = (c_esp c - 58) + 58" "c_esp c - 58 + 58 = c_esp c" by simp_all
  have sc: "scratch r a = r a" if "\<not> handler_stack (c_esp c - 58 + 58) depth a" for r a
    using that assms(7) by simp
  obtain m1 where m1: "interrupt_request n ret_addr junk scratch c m = Done (set_segments (c_ds c) c) m1" "kernel_inv m1"
    "kernel_frame (m\<lparr>ram := ram m1\<rparr>) m1" "ticks m1 = ticks m + (if n = 0 then 1 else 0)"
    "\<forall>a. \<not> vga_region a \<and> \<not> in_region (c_esp c - 58) 58 a \<and> \<not> handler_stack (c_esp c) depth a \<longrightarrow> ram m1 a = ram m a"
    using request_transparent [where c = c and p = "c_esp c - 58" and scratch = scratch and ret_addr = ret_addr and junk = junk,
      OF assms(1-4) e(1) assms(5,6) sc] unfolding e(2) by blast
  moreover have "iflag m1 = iflag m" using assms(1) m1(2) by (simp add: kernel_inv_def)
  ultimately show ?thesis by (intro exI [of _ m1]) (simp add: set_segments_def)
qed

theorem interrupt_transparent_witness:
  "\<forall>m c. \<exists>m1. interrupt_request 0 0 (1, 2, 3) (\<lambda>r. r(0xFC0 := 0)) (c\<lparr>c_esp := 0x1000, c_ds := 16, c_es := 16, c_fs := 16, c_gs := 16\<rparr>)
       (m\<lparr>isr_handlers := kernel_handlers (replicate 256 None), iflag := True, ticks := 41,
          con := \<lparr>con_attr = 7, curX = 0, curY = 0\<rparr>, ring := ring_buf_init, mouse := mouse_state_init, hw := (\<lambda>_ _. 0x1D)\<rparr>)
     = Done (c\<lparr>c_esp := 0x1000, c_ds := 16, c_es := 16, c_fs := 16, c_gs := 16\<rparr>) m1 \<and> ticks m1 = 42"
proof (intro allI)
  fix m :: machine and c :: cpu_t
  let ?c = "c\<lparr>c_esp := 0x1000, c_ds := 16, c_es := 16, c_fs := 16, c_gs := 16\<rparr>"
  let ?m = "m\<lparr>isr_handlers := kernel_handlers (replicate 256 None), iflag := True, ticks := 41,
          con := \<lparr>con_attr = 7, curX = 0, curY = 0\<rparr>, ring := ring_buf_init, mouse := mouse_state_init, hw := (\<lambda>_ _. 0x1D)\<rparr>"
  have i: "kernel_inv ?m"
    by (simp add: kernel_inv_def kernel_vars_def con_wf_def ring_wf_init mouse_wf_init)
  have z: "(0 :: u8) = 1 \<Longrightarrow> \<not> keyboard_silent ?m" by simp
  have r: "\<not> vga_region a" if "in_region (c_esp ?c - 58) 58 a" for a
  proof -
    have "in_region 0xFC6 58 a" using that by simp
    then obtain k where k: "k < 58" "a = 0xFC6 + of_nat k" by (blast dest: in_region_ex)
    then have "a = of_nat (0xFC6 + k)" by simp
    then have "unat a = 0xFC6 + k" using k(1) by (simp add: unat_of_nat_small del: of_nat_add)
    then show ?thesis using vga_region_bounds [of a] k(1) by auto
  qed
  have s: "\<not> handler_stack (c_esp ?c) 16 a \<Longrightarrow> (r(0xFC0 := 0)) a = r a" for r :: memory and a
    by (auto simp: handler_stack_def in_region_def)
  show "\<exists>m1. interrupt_request 0 0 (1, 2, 3) (\<lambda>r. r(0xFC0 := 0)) ?c ?m = Done ?c m1 \<and> ticks m1 = 42"
    using interrupt_transparent [where n = 0 and c = ?c and depth = 16 and scratch = "\<lambda>r. r(0xFC0 := 0)" and ret_addr = 0
        and junk = "(1, 2, 3)", OF i z] r s by auto
qed

end
