(* ===== verification/Screen_Sharing.thy ===== *)
theory Screen_Sharing
  imports Mouse
begin

text \<open>
  The console and the mouse share the screen: the console writes its characters wherever its
  cursor is, and the mouse handler keeps a copy of the one cell that the pointer covers.  The
  theory states what the picture without the pointer is after output and pointer movements.
\<close>

section \<open>Definitions\<close>

text \<open>A number of mouse interrupts, one after the other.\<close>

definition mouse_interrupts :: "nat \<Rightarrow> unit K" where
  "mouse_interrupts k = for_each (\<lambda>_. mouse_handler) [0..<k]"

text \<open>A character is written, and then the mouse interrupts \<open>k\<close> times.\<close>

definition putc_then_mouse :: "u8 \<Rightarrow> nat \<Rightarrow> unit K" where
  "putc_then_mouse ch k = bind (CON_putc ch) (\<lambda>_. mouse_interrupts k)"

section \<open>Lemmas\<close>

lemma mouse_con: "preserves (\<lambda>m. con m = c) mouse_handler"
  unfolding mouse_handler_def mouse_draw_def PS2_read_data_def VGA_Write_def VGA_Read_def
  by (auto intro!: frame split: option.splits)

lemma mouse_handler_picture:
  assumes "mouse_wf m"
  obtains m1 where "mouse_handler m = Done () m1" "mouse_wf m1" "con m1 = con m"
    "\<forall>x < 80. \<forall>y < 25. picture m1 x y = picture m x y"
proof -
  obtain b0 b1 b2 where "packet m = (b0, b1, b2)" by (metis prod_cases3)
  from mouse_handler_result [OF assms this] obtain m1 where m1: "mouse_handler m = Done () m1" "mouse_wf m1"
    "\<forall>x < 80. \<forall>y < 25. picture m1 x y = picture m x y" by blast
  moreover have "con m1 = con m" by (rule preserves_Done [OF mouse_con refl m1(1)])
  ultimately show thesis using that by blast
qed

lemma mouse_interrupts_picture:
  assumes "mouse_wf m"
  shows "\<exists>m1. mouse_interrupts k m = Done () m1 \<and> mouse_wf m1 \<and> con m1 = con m
    \<and> (\<forall>x < 80. \<forall>y < 25. picture m1 x y = picture m x y)"
proof -
  have "\<exists>m1. for_each (\<lambda>_. mouse_handler) is m = Done () m1 \<and> mouse_wf m1 \<and> con m1 = con m
      \<and> (\<forall>x < 80. \<forall>y < 25. picture m1 x y = picture m x y)" for "is" :: "nat list"
    using assms
  proof (induction "is" arbitrary: m)
    case Nil
    then show ?case by (simp add: ret_def)
  next
    case (Cons i "is")
    from mouse_handler_picture [OF Cons.prems] obtain m1 where m1: "mouse_handler m = Done () m1" "mouse_wf m1"
      "con m1 = con m" "\<forall>x < 80. \<forall>y < 25. picture m1 x y = picture m x y" by blast
    with Cons.IH [OF m1(2)] show ?case by (auto simp: bind_def)
  qed
  then show ?thesis by (simp add: mouse_interrupts_def)
qed

lemma console_step_mouse: "console_step m m1 \<Longrightarrow> mouse m1 = mouse m"
  unfolding console_step_def by (elim conjE, erule ssubst) simp

text \<open>A character that does not end its line changes one cell of the picture, or none.\<close>

lemma CON_putc_picture:
  assumes "con_wf m" "ch \<noteq> 10" "unat (curX (con m)) < 79"
  obtains m1 where "CON_putc ch m = Done () m1" "mouse m1 = mouse m"
    "\<And>x y. x < 80 \<Longrightarrow> y < 25 \<Longrightarrow> picture m1 x y
      = (if (x, y) = (unat (curX (con m)), unat (curY (con m))) \<and> pointer_at (mouse m) \<noteq> Some (x, y)
         then (ch, con_attr (con m)) else picture m x y)"
proof -
  obtain m1 where m1: "CON_putc ch m = Done () m1" "term_of m1 = term_putc ch (term_of m)" "console_step m m1"
    using CON_putc_term [OF assms(1), of ch] by blast
  have ms: "mouse m1 = mouse m" using m1(3) by (rule console_step_mouse)
  have "\<not> 25 \<le> unat (curY (con m))" using assms(1) by (simp add: con_wf_def u8_less not_le)
  then have cells: "cells (term_of m1) = (cells (term_of m))(tx (term_of m) := (cells (term_of m) (tx (term_of m)))
      (ty (term_of m) := (ch, tattr (term_of m))))"
    unfolding m1(2) using assms(2,3) by (simp add: term_putc_def term_adjust_def term_of_def)
  have "vga_cell x y (ram m1) = (if (x, y) = (unat (curX (con m)), unat (curY (con m)))
      then (ch, con_attr (con m)) else vga_cell x y (ram m))" if "x < 80" "y < 25" for x y
    using fun_cong [OF fun_cong [OF cells, of x], of y] that by (auto simp: term_of_def split: if_splits)
  then have "picture m1 x y = (if (x, y) = (unat (curX (con m)), unat (curY (con m))) \<and> pointer_at (mouse m) \<noteq> Some (x, y)
      then (ch, con_attr (con m)) else picture m x y)" if "x < 80" "y < 25" for x y
    using that ms by (auto simp: picture_def)
  with m1(1) ms show thesis by (rule that)
qed

section \<open>Properties\<close>

text \<open>
  C27. The console and the mouse pointer on one screen, for a character that is not a newline and
  is written before the last column, so that it does not end its line: followed by any number of
  mouse interrupts, it is shown in the picture at the place of the cursor when the pointer does not
  cover that place, and nothing else of the picture changes.  Where the pointer covers it the
  character is lost, since the handler restores its older copy of the cell, and the picture is
  unchanged.
\<close>

theorem console_pointer_picture:
  assumes "con_wf m" "mouse_wf m" "ch \<noteq> 10" "unat (curX (con m)) < 79"
  shows "\<exists>m1. putc_then_mouse ch k m = Done () m1 \<and> mouse_wf m1
    \<and> (\<forall>x < 80. \<forall>y < 25. picture m1 x y
        = (if (x, y) = (unat (curX (con m)), unat (curY (con m))) \<and> pointer_at (mouse m) \<noteq> Some (x, y)
           then (ch, con_attr (con m)) else picture m x y))"
proof -
  obtain m1 where m1: "CON_putc ch m = Done () m1" "mouse m1 = mouse m"
    "\<And>x y. x < 80 \<Longrightarrow> y < 25 \<Longrightarrow> picture m1 x y
      = (if (x, y) = (unat (curX (con m)), unat (curY (con m))) \<and> pointer_at (mouse m) \<noteq> Some (x, y)
         then (ch, con_attr (con m)) else picture m x y)"
    using CON_putc_picture [OF assms(1,3,4)] by metis
  have "mouse_wf m1" using assms(2) m1(2) by (simp add: mouse_wf_def)
  from mouse_interrupts_picture [OF this, of k] show ?thesis
    using m1(1,3) by (auto simp: putc_then_mouse_def bind_def)
qed

theorem console_pointer_picture_witness:
  "\<forall>m. \<exists>m1. putc_then_mouse 65 1 (m\<lparr>con := \<lparr>con_attr = 7, curX = 3, curY = 0\<rparr>, hw := (\<lambda>_ _. 0x18),
       mouse := mouse_state_init\<lparr>old_mouse_x := 3, old_mouse_y := 0, saved_char := \<lparr>vch = 66, vcol = 7\<rparr>\<rparr>\<rparr>) = Done () m1
     \<and> picture m1 3 0 = (66, 7)"
proof
  fix m :: machine
  let ?s = "mouse_state_init\<lparr>old_mouse_x := 3, old_mouse_y := 0, saved_char := \<lparr>vch = 66, vcol = 7\<rparr>\<rparr>"
  let ?m = "m\<lparr>con := \<lparr>con_attr = 7, curX = 3, curY = 0\<rparr>, hw := (\<lambda>_ _. 0x18), mouse := ?s\<rparr>"
  have p: "pointer_at ?s = Some (3, 0)" by (simp add: pointer_at_def on_screen_def)
  have "con_wf ?m" "mouse_wf ?m"
    by (simp_all add: con_wf_def mouse_wf_def p)
      (simp add: on_screen_def mouse_state_init_def VGA_TEXT_MODE_3_COLS_def VGA_TEXT_MODE_3_ROWS_def)
  from console_pointer_picture [OF this, of 65 1] obtain m1 where "putc_then_mouse 65 1 ?m = Done () m1"
    "picture m1 3 0 = picture ?m 3 0" by (auto simp: p)
  then show "\<exists>m1. putc_then_mouse 65 1 ?m = Done () m1 \<and> picture m1 3 0 = (66, 7)"
    by (intro exI [of _ m1]) (simp add: picture_def p)
qed

end
