(* ===== verification/Delivery.thy ===== *)
theory Delivery
  imports Interrupts
begin

text \<open>
  The delivery of an interrupt as the CPU does it: the descriptor tables as packed structures in
  memory, the two table registers, and the way from a vector to the first instruction of its
  stub.  The other theories use the tables as lists of records.
\<close>

section \<open>The tables in memory\<close>

text \<open>The packed structures, low byte first.\<close>

definition bytes16 :: "u16 \<Rightarrow> u8 list" where
  "bytes16 w = [ucast w, ucast (drop_bit 8 w)]"

definition segment_bytes :: "GDT_descriptor_t \<Rightarrow> u8 list" where
  "segment_bytes d = bytes16 (limit d) @ bytes16 (base_lo d) @ [base_mi d, attr d, limit_attr d, base_hi d]"

definition gate_bytes :: "IDT_descriptor_t \<Rightarrow> u8 list" where
  "gate_bytes d = bytes16 (g_base_lo d) @ bytes16 (selector d) @ [reserved d, flags d] @ bytes16 (g_base_hi d)"

definition holds :: "memory \<Rightarrow> u32 \<Rightarrow> u8 list \<Rightarrow> bool" where
  "holds r p bs \<longleftrightarrow> (\<forall>k < length bs. r (p + of_nat k) = bs ! k)"

section \<open>The CPU\<close>

text \<open>
  A code segment that a gate may name: base and limit of a present 32-bit code segment in the
  table, whose size in the register is the offset of its last byte; the low three bits of a
  selector are no part of the index, and the first descriptor is not used.
\<close>

definition cpu_code_segment :: "memory \<Rightarrow> DT_register_t \<Rightarrow> u16 \<Rightarrow> (u32 \<times> u32) option" where
  "cpu_code_segment r g sel =
     (let k = sel AND 0xFFF8;
          lo = load32 r (dt_offset g + ucast k);
          hi = load32 r (dt_offset g + ucast k + 4);
          l = (lo AND 0xFFFF) OR (hi AND 0xF0000)
      in if k \<noteq> 0 \<and> unat k + 7 \<le> unat (dt_size g) \<and> bit hi 15 \<and> bit hi 12 \<and> bit hi 11 \<and> bit hi 22
         then Some (drop_bit 16 lo OR push_bit 16 (hi AND 0xFF) OR (hi AND 0xFF000000),
           if bit hi 23 then push_bit 12 l OR 0xFFF else l)
         else None)"

text \<open>The gate of a vector: a present 32-bit interrupt gate, with its selector and offset.\<close>

definition cpu_gate :: "memory \<Rightarrow> DT_register_t \<Rightarrow> nat \<Rightarrow> (u16 \<times> u32) option" where
  "cpu_gate r i n =
     (let lo = load32 r (dt_offset i + of_nat (8 * n));
          hi = load32 r (dt_offset i + of_nat (8 * n) + 4)
      in if 8 * n + 7 \<le> unat (dt_size i) \<and> bit hi 15 \<and> drop_bit 8 hi AND 0x1F = 0xE
         then Some (ucast (drop_bit 16 lo), (lo AND 0xFFFF) OR (hi AND 0xFFFF0000)) else None)"

text \<open>The code selector and the linear address at which the handler starts; \<open>None\<close> is a fault.\<close>

definition cpu_deliver :: "memory \<Rightarrow> DT_register_t \<Rightarrow> DT_register_t \<Rightarrow> nat \<Rightarrow> (u16 \<times> u32) option" where
  "cpu_deliver r g i n = (case cpu_gate r i n of
       None \<Rightarrow> None
     | Some (sel, off) \<Rightarrow> (case cpu_code_segment r g sel of
         None \<Rightarrow> None
       | Some (base, lim) \<Rightarrow> if off \<le> lim then Some (sel, base + off) else None))"

section \<open>Lemmas: reading a descriptor\<close>

lemma length_bytes [simp]: "length (bytes16 w) = 2" "length (segment_bytes d) = 8" "length (gate_bytes g) = 8"
  by (simp_all add: bytes16_def segment_bytes_def gate_bytes_def)

lemma holds_Cons: "holds r p (b # bs) \<longleftrightarrow> r p = b \<and> holds r (p + 1) bs"
proof
  assume h: "holds r p (b # bs)"
  have "r (p + 1 + of_nat k) = bs ! k" if "k < length bs" for k
    using h that unfolding holds_def by (auto dest!: spec [of _ "Suc k"] simp: add.assoc)
  then show "r p = b \<and> holds r (p + 1) bs" using h by (auto simp: holds_def dest!: spec [of _ 0])
next
  assume h: "r p = b \<and> holds r (p + 1) bs"
  show "holds r p (b # bs)"
    unfolding holds_def
  proof (intro allI impI)
    fix k
    assume "k < length (b # bs)"
    then show "r (p + of_nat k) = (b # bs) ! k" using h by (cases k) (auto simp: holds_def add.assoc)
  qed
qed

lemma holds_append: "holds r p (as @ bs) \<longleftrightarrow> holds r p as \<and> holds r (p + of_nat (length as)) bs"
  by (induction as arbitrary: p) (auto simp: holds_Cons add.assoc, simp add: holds_def)

text \<open>One descriptor of a table of descriptors of eight bytes.\<close>

lemma holds_entry:
  assumes "\<And>d. length (f d) = 8" "holds r p (concat (map f ds))" "i < length ds"
  shows "holds r (p + of_nat (8 * i)) (f (ds ! i))"
  using assms(2,3)
proof (induction ds arbitrary: p i)
  case (Cons d ds)
  then have h: "holds r p (f d)" "holds r (p + 8) (concat (map f ds))" by (simp_all add: holds_append assms(1))
  show ?case
  proof (cases i)
    case (Suc j)
    with Cons.IH [OF h(2), of j] Cons.prems(2) show ?thesis by (simp add: algebra_simps)
  qed (use h in simp)
qed simp

lemma holds_words:
  assumes "holds r p [a, b, c, d, e, f, g, h]"
  shows "load32 r p = ucast a OR push_bit 8 (ucast b) OR push_bit 16 (ucast c) OR push_bit 24 (ucast d)"
    "load32 r (p + 4) = ucast e OR push_bit 8 (ucast f) OR push_bit 16 (ucast g) OR push_bit 24 (ucast h)"
  using assms by (simp_all add: holds_Cons load32_def add.assoc)

text \<open>The four bytes of a word.\<close>

definition word4 :: "u8 \<Rightarrow> u8 \<Rightarrow> u8 \<Rightarrow> u8 \<Rightarrow> u32" where
  "word4 a b c d = ucast a OR push_bit 8 (ucast b) OR push_bit 16 (ucast c) OR push_bit 24 (ucast d)"

lemma bit_word4:
  "bit (word4 a b c d) n \<longleftrightarrow> n < 32 \<and> (if n < 8 then bit a n else if n < 16 then bit b (n - 8)
     else if n < 24 then bit c (n - 16) else bit d (n - 24))"
proof -
  consider "n < 8" | "8 \<le> n" "n < 16" | "16 \<le> n" "n < 24" | "24 \<le> n" "n < 32" | "32 \<le> n" by linarith
  then show ?thesis
    by cases (auto simp: word4_def bit_simps dest: bit_imp_le_length)
qed

lemma bit_high_masks:
  "bit (0xFFFF0000 :: int) n \<longleftrightarrow> 16 \<le> n \<and> n < 32"
  "bit (0xFF000000 :: int) n \<longleftrightarrow> 24 \<le> n \<and> n < 32"
  "bit (0xFF0000 :: int) n \<longleftrightarrow> 16 \<le> n \<and> n < 24"
  "bit (0xF0000 :: int) n \<longleftrightarrow> 16 \<le> n \<and> n < 20"
  "bit (0x1F :: int) n \<longleftrightarrow> n < 5"
proof -
  have m: "0xFFFF0000 = push_bit 16 (0xFFFF :: int)" "0xFF000000 = push_bit 24 (0xFF :: int)"
    "0xFF0000 = push_bit 16 (0xFF :: int)" "0xF0000 = push_bit 16 (0xF :: int)" "0x1F = (mask 5 :: int)"
    by (simp_all add: mask_eq_exp_minus_1)
  show "bit (0xFFFF0000 :: int) n \<longleftrightarrow> 16 \<le> n \<and> n < 32" "bit (0xFF000000 :: int) n \<longleftrightarrow> 24 \<le> n \<and> n < 32"
    "bit (0xFF0000 :: int) n \<longleftrightarrow> 16 \<le> n \<and> n < 24" "bit (0xF0000 :: int) n \<longleftrightarrow> 16 \<le> n \<and> n < 20"
    "bit (0x1F :: int) n \<longleftrightarrow> n < 5"
    unfolding m bit_push_bit_iff_int bit_mask_iff by (auto simp: bit_low_masks)
qed

lemma gate_words:
  assumes "holds r p (gate_bytes d)"
  shows "ucast (drop_bit 16 (load32 r p)) = selector d"
    "(load32 r p AND 0xFFFF) OR (load32 r (p + 4) AND 0xFFFF0000) = gate_offset d"
    "bit (load32 r (p + 4)) 15 = gate_present d"
    "drop_bit 8 (load32 r (p + 4)) AND 0x1F = ucast (gate_type d)"
proof -
  have w: "load32 r p = word4 (ucast (g_base_lo d)) (ucast (drop_bit 8 (g_base_lo d))) (ucast (selector d)) (ucast (drop_bit 8 (selector d)))"
    "load32 r (p + 4) = word4 (reserved d) (flags d) (ucast (g_base_hi d)) (ucast (drop_bit 8 (g_base_hi d)))"
    using holds_words [OF assms [unfolded gate_bytes_def bytes16_def, simplified]] by (simp_all add: word4_def)
  show "ucast (drop_bit 16 (load32 r p)) = selector d"
    by (rule bit_word_eqI) (auto simp: w bit_word4 bit_simps)
  show "(load32 r p AND 0xFFFF) OR (load32 r (p + 4) AND 0xFFFF0000) = gate_offset d"
    by (rule bit_word_eqI) (auto simp: w bit_word4 gate_offset_def bit_simps bit_low_masks bit_high_masks dest: bit_imp_le_length)
  show "bit (load32 r (p + 4)) 15 = gate_present d" by (simp add: w bit_word4 gate_present_def)
  show "drop_bit 8 (load32 r (p + 4)) AND 0x1F = ucast (gate_type d)"
    by (rule bit_word_eqI) (auto simp: w bit_word4 gate_type_def bit_simps bit_low_masks bit_high_masks dest: bit_imp_le_length)
qed

lemma segment_words:
  assumes "holds r p (segment_bytes d)"
  shows "drop_bit 16 (load32 r p) OR push_bit 16 (load32 r (p + 4) AND 0xFF) OR (load32 r (p + 4) AND 0xFF000000) = seg_base d"
    "(load32 r p AND 0xFFFF) OR (load32 r (p + 4) AND 0xF0000) = ucast (limit d) OR push_bit 16 (ucast (limit_attr d AND 0xF))"
    "bit (load32 r (p + 4)) 15 = seg_present d"
    "bit (load32 r (p + 4)) 12 \<and> bit (load32 r (p + 4)) 11 \<longleftrightarrow> seg_is_code d"
    "bit (load32 r (p + 4)) 22 = bit (limit_attr d) 6" "bit (load32 r (p + 4)) 23 = seg_granularity d"
proof -
  have w: "load32 r p = word4 (ucast (limit d)) (ucast (drop_bit 8 (limit d))) (ucast (base_lo d)) (ucast (drop_bit 8 (base_lo d)))"
    "load32 r (p + 4) = word4 (base_mi d) (attr d) (limit_attr d) (base_hi d)"
    using holds_words [OF assms [unfolded segment_bytes_def bytes16_def, simplified]] by (simp_all add: word4_def)
  show "drop_bit 16 (load32 r p) OR push_bit 16 (load32 r (p + 4) AND 0xFF) OR (load32 r (p + 4) AND 0xFF000000) = seg_base d"
    by (rule bit_word_eqI) (auto simp: w bit_word4 seg_base_def bit_simps bit_low_masks bit_high_masks dest: bit_imp_le_length)
  show "(load32 r p AND 0xFFFF) OR (load32 r (p + 4) AND 0xF0000) = ucast (limit d) OR push_bit 16 (ucast (limit_attr d AND 0xF))"
    by (rule bit_word_eqI) (auto simp: w bit_word4 bit_simps bit_low_masks bit_high_masks dest: bit_imp_le_length)
  show "bit (load32 r (p + 4)) 15 = seg_present d"
    "bit (load32 r (p + 4)) 12 \<and> bit (load32 r (p + 4)) 11 \<longleftrightarrow> seg_is_code d"
    "bit (load32 r (p + 4)) 22 = bit (limit_attr d) 6" "bit (load32 r (p + 4)) 23 = seg_granularity d"
    by (simp_all add: w bit_word4 seg_present_def seg_is_code_def seg_granularity_def)
qed

section \<open>Lemmas: the kernel's tables\<close>

lemma deliver_kernel_gate:
  assumes "holds r (dt_offset i) (concat (map gate_bytes ts))" "n < length ts" "ts ! n = kernel_gate f"
    and "8 * n + 7 \<le> unat (dt_size i)"
  shows "cpu_gate r i n = Some (8, f)"
proof -
  have "holds r (dt_offset i + of_nat (8 * n)) (gate_bytes (kernel_gate f))"
    using holds_entry [OF _ assms(1,2)] assms(3) by simp
  from gate_words [OF this] show ?thesis
    using assms(4) by (simp add: cpu_gate_def Let_def)
qed

text \<open>The code segment of the kernel: flat, with the selector 8.\<close>

lemma kernel_code_segment:
  assumes "holds r (dt_offset g) (concat (map segment_bytes (GDT_set_tss_base ptr gdtd_init)))" "dt_size g = 47"
  shows "cpu_code_segment r g 8 = Some (0, 0xFFFFFFFF)"
proof -
  let ?d = "gdtd_init ! 1"
  have "holds r (dt_offset g + of_nat (8 * 1)) (segment_bytes (GDT_set_tss_base ptr gdtd_init ! 1))"
    using assms(1) by (rule holds_entry [rotated]) (simp_all add: GDT_set_tss_base_def)
  then have h: "holds r (dt_offset g + 8) (segment_bytes ?d)" by (simp add: GDT_set_tss_base_other)
  have d: "seg_base ?d = 0" "seg_present ?d" "seg_is_code ?d" "bit (limit_attr ?d) 6" "seg_granularity ?d"
    "ucast (limit ?d) OR push_bit 16 (ucast (limit_attr ?d AND 0xF)) = (0xFFFFF :: u32)"
    by (simp_all add: gdtd_init_def seg_defs gdt_macros)
  have k: "(8 :: u16) AND 0xFFF8 = 8" by simp
  show ?thesis
    using segment_words [OF h] d assms(2)
    unfolding cpu_code_segment_def Let_def k by simp
qed

lemma boot_tables:
  assumes "length (idtd m) = 256" "gdtd m = gdtd_init"
  shows "\<exists>m1. exec [init_descriptor_tables, ISR_init, IRQ_init] m = Done () m1
    \<and> trace m1 = trace m @ [Cli, Lgdt \<lparr>dt_size = 47, dt_offset = symaddr m Sym_gdtd\<rparr>, Reload_segments 8 16,
        Lidt \<lparr>dt_size = 2047, dt_offset = symaddr m Sym_idtd\<rparr>]
    \<and> gdtd m1 = GDT_set_tss_base (symaddr m Sym_g_tss) gdtd_init
    \<and> idtd m1 = map (\<lambda>n. kernel_gate (symaddr m (vector_symbol n))) [0..<256]"
proof -
  obtain m1 where m1: "init_descriptor_tables m = Done () m1"
    "idtd m1 = replicate 256 (kernel_gate (symaddr m Sym_IDT_default_handler))"
    "gdtd m1 = GDT_set_tss_base (symaddr m Sym_g_tss) (gdtd m)"
    "m1 = m\<lparr>gdtd := gdtd m1, idtd := idtd m1, iflag := False,
        trace := trace m @ [Cli, Lgdt \<lparr>dt_size = 47, dt_offset = symaddr m Sym_gdtd\<rparr>,
          Reload_segments 8 16, Lidt \<lparr>dt_size = 2047, dt_offset = symaddr m Sym_idtd\<rparr>]\<rparr>"
    using init_descriptor_tables_done [OF assms(1)] by blast
  have f: "symaddr m1 = symaddr m" "trace m1 = trace m @ [Cli, Lgdt \<lparr>dt_size = 47, dt_offset = symaddr m Sym_gdtd\<rparr>,
          Reload_segments 8 16, Lidt \<lparr>dt_size = 2047, dt_offset = symaddr m Sym_idtd\<rparr>]"
    by (subst m1(4), simp)+
  have "exec [init_descriptor_tables, ISR_init, IRQ_init] m = Done ()
      (m1\<lparr>idtd := map (\<lambda>n. kernel_gate (symaddr m (vector_symbol n))) [0..<256]\<rparr>)"
    using all_gates [where g = "symaddr m", OF m1(2)]
    by (simp add: bind_def m1(1) f(1) ISR_init_gates IRQ_init_gates set_gates_done ret_def del: upt_rec_numeral)
  then show ?thesis
    using f(2) m1(3) assms(2) by (simp del: upt_rec_numeral)
qed

section \<open>Properties\<close>

text \<open>
  C13. From a vector to its handler as the CPU goes: after the boot has built the tables, the CPU
  with the two registers it was given, reading the tables from any memory that holds their
  packed structures, reaches for every vector below 256 the entry point of its own stub through
  the kernel's code segment, without a fault; a vector above is refused.
\<close>

theorem interrupt_delivery:
  assumes "length (idtd m) = 256" "gdtd m = gdtd_init"
  shows "\<exists>m1 g i. exec [init_descriptor_tables, ISR_init, IRQ_init] m = Done () m1
    \<and> trace m1 = trace m @ [Cli, Lgdt g, Reload_segments 8 16, Lidt i]
    \<and> (\<forall>r n. holds r (dt_offset g) (concat (map segment_bytes (gdtd m1)))
        \<longrightarrow> holds r (dt_offset i) (concat (map gate_bytes (idtd m1)))
        \<longrightarrow> cpu_deliver r g i n = (if n < 256 then Some (8, symaddr m (if n < 22 \<and> n \<noteq> 15 then ISR_INT n
              else if 32 \<le> n \<and> n < 48 then IRQ_INT (n - 32) else Sym_IDT_default_handler)) else None))"
proof -
  let ?g = "\<lparr>dt_size = 47, dt_offset = symaddr m Sym_gdtd\<rparr>" and ?i = "\<lparr>dt_size = 2047, dt_offset = symaddr m Sym_idtd\<rparr>"
  obtain m1 where m1: "exec [init_descriptor_tables, ISR_init, IRQ_init] m = Done () m1"
    "trace m1 = trace m @ [Cli, Lgdt ?g, Reload_segments 8 16, Lidt ?i]"
    "gdtd m1 = GDT_set_tss_base (symaddr m Sym_g_tss) gdtd_init"
    "idtd m1 = map (\<lambda>n. kernel_gate (symaddr m (vector_symbol n))) [0..<256]"
    using boot_tables [OF assms] by blast
  have deliver: "cpu_deliver r ?g ?i n = (if n < 256 then Some (8, symaddr m (vector_symbol n)) else None)"
    if h: "holds r (dt_offset ?g) (concat (map segment_bytes (gdtd m1)))" "holds r (dt_offset ?i) (concat (map gate_bytes (idtd m1)))" for r n
  proof (cases "n < 256")
    case True
    have len: "n < length (idtd m1)" using True by (simp add: m1(4) del: upt_rec_numeral)
    have entry: "idtd m1 ! n = kernel_gate (symaddr m (vector_symbol n))" using True by (simp add: m1(4) del: upt_rec_numeral)
    have "cpu_gate r ?i n = Some (8, symaddr m (vector_symbol n))"
      using True by (intro deliver_kernel_gate [OF h(2) len entry]) simp
    moreover have "cpu_code_segment r ?g 8 = Some (0, 0xFFFFFFFF)"
      using h(1) unfolding m1(3) by (rule kernel_code_segment) simp
    moreover have "x \<le> 0xFFFFFFFF" for x :: u32
      using unat_le_2p [of x] by (simp add: word_le_nat_alt)
    ultimately show ?thesis using True by (simp add: cpu_deliver_def)
  next
    case False
    then show ?thesis by (simp add: cpu_deliver_def cpu_gate_def)
  qed
  show ?thesis
    using m1(1,2) deliver by (intro exI [of _ m1] exI [of _ ?g] exI [of _ ?i]) (simp add: vector_symbol_def)
qed

text \<open>A memory with two regions of bytes.\<close>

lemma holds_two:
  assumes "\<And>k. k < length bs \<Longrightarrow> length as \<le> unat (q + of_nat k - p)" "length as < 2 ^ 32" "length bs < 2 ^ 32"
    and "r = (\<lambda>a. if in_region p (length as) a then as ! unat (a - p) else bs ! unat (a - q))"
  shows "holds r p as \<and> holds r q bs"
proof -
  have "\<not> in_region p (length as) (q + of_nat k)" if "k < length bs" for k
    using assms(1) [OF that] by (simp add: in_region_def)
  then show ?thesis
    using assms(2,3) unfolding holds_def assms(4) by (auto simp: in_region_def unat_of_nat_small)
qed

theorem interrupt_delivery_witness:
  "\<forall>m. \<exists>m1 r. exec [init_descriptor_tables, ISR_init, IRQ_init]
       (m\<lparr>gdtd := gdtd_init, idtd := replicate 256 idt_descriptor_zero, trace := [],
          symaddr := (\<lambda>s. if s = Sym_gdtd then 0x1000 else if s = Sym_idtd then 0x2000 else if s = ISR_INT 14 then 0x100E00 else 0)\<rparr>)
       = Done () m1
     \<and> cpu_deliver r \<lparr>dt_size = 47, dt_offset = 0x1000\<rparr> \<lparr>dt_size = 2047, dt_offset = 0x2000\<rparr> 14 = Some (8, 0x100E00)"
proof
  fix m :: machine
  let ?m = "m\<lparr>gdtd := gdtd_init, idtd := replicate 256 idt_descriptor_zero, trace := [],
          symaddr := (\<lambda>s. if s = Sym_gdtd then 0x1000 else if s = Sym_idtd then 0x2000 else if s = ISR_INT 14 then 0x100E00 else 0)\<rparr>"
  obtain ma where a: "exec [init_descriptor_tables, ISR_init, IRQ_init] ?m = Done () ma"
    "trace ma = trace ?m @ [Cli, Lgdt \<lparr>dt_size = 47, dt_offset = symaddr ?m Sym_gdtd\<rparr>, Reload_segments 8 16,
        Lidt \<lparr>dt_size = 2047, dt_offset = symaddr ?m Sym_idtd\<rparr>]"
    "gdtd ma = GDT_set_tss_base (symaddr ?m Sym_g_tss) gdtd_init"
    "idtd ma = map (\<lambda>n. kernel_gate (symaddr ?m (vector_symbol n))) [0..<256]"
    using boot_tables [of ?m] by auto
  obtain m1 g i where b: "exec [init_descriptor_tables, ISR_init, IRQ_init] ?m = Done () m1"
    "trace m1 = trace ?m @ [Cli, Lgdt g, Reload_segments 8 16, Lidt i]"
    "\<forall>r n. holds r (dt_offset g) (concat (map segment_bytes (gdtd m1)))
        \<longrightarrow> holds r (dt_offset i) (concat (map gate_bytes (idtd m1)))
        \<longrightarrow> cpu_deliver r g i n = (if n < 256 then Some (8, symaddr ?m (if n < 22 \<and> n \<noteq> 15 then ISR_INT n
              else if 32 \<le> n \<and> n < 48 then IRQ_INT (n - 32) else Sym_IDT_default_handler)) else None)"
    using interrupt_delivery [of ?m] by auto
  have m1: "m1 = ma" using a(1) b(1) by simp
  have gi: "g = \<lparr>dt_size = 47, dt_offset = 0x1000\<rparr>" "i = \<lparr>dt_size = 2047, dt_offset = 0x2000\<rparr>"
    using a(2) b(2) by (simp_all add: m1)
  define as where "as = concat (map segment_bytes (gdtd m1))"
  define bs where "bs = concat (map gate_bytes (idtd m1))"
  define r where "r = (\<lambda>a :: u32. if in_region 0x1000 (length as) a then as ! unat (a - 0x1000) else bs ! unat (a - 0x2000))"
  have len: "length as = 48" "length bs = 2048"
    by (simp_all add: as_def bs_def m1 a(3,4) length_concat comp_def GDT_set_tss_base_def sum_list_triv del: upt_rec_numeral)
  have "length as \<le> unat (0x2000 + of_nat k - 0x1000 :: u32)" if "k < length bs" for k
  proof -
    have "(0x2000 + of_nat k - 0x1000 :: u32) = of_nat (0x1000 + k)" by simp
    then have "unat (0x2000 + of_nat k - 0x1000 :: u32) = 0x1000 + k"
      using that by (simp only: len) (subst unat_of_nat_small, simp_all)
    then show ?thesis by (simp add: len)
  qed
  then have "holds r 0x1000 as \<and> holds r 0x2000 bs"
    by (intro holds_two r_def) (simp_all add: len)
  then have "cpu_deliver r g i 14 = Some (8, 0x100E00)"
    using b(3) [rule_format, of r 14] by (simp add: gi as_def bs_def)
  then show "\<exists>m1 r. exec [init_descriptor_tables, ISR_init, IRQ_init] ?m = Done () m1
     \<and> cpu_deliver r \<lparr>dt_size = 47, dt_offset = 0x1000\<rparr> \<lparr>dt_size = 2047, dt_offset = 0x2000\<rparr> 14 = Some (8, 0x100E00)"
    unfolding gi using b(1) by blast
qed

end
