(* ===== verification/Spec2Isabelle.thy ===== *)
theory Spec2Isabelle
  imports Prelude Memory Ring_Buffer Descriptor_Tables Machine Bitset Strings Boot_Info Vga Console
    Pmm Vmm Pic Interrupts Pit Dma Ps2 Mouse Keyboard Fdc Fdc_Read Fdc_Reset
    Start Running Boot_Memory Trap_Frame Transparency Screen_Sharing Delivery
begin

text \<open>
  A model of the BROS kernel, the 32-bit x86 kernel under \<^verbatim>\<open>src/kernel/src\<close>, with the theorems
  that say what its components do.  All paths below are relative to that directory.

  \<^bold>\<open>The program.\<close>  A boot loader leaves the kernel at 1 MiB with a description of the memory and
  jumps to \<^verbatim>\<open>_start\<close>.  \<^verbatim>\<open>_start.c\<close> checks what it was given and starts the components in
  order: the console, the descriptor tables, the interrupt controllers, the timer, the PS/2
  controller with keyboard and mouse, the physical and the virtual memory manager, and the
  floppy driver; \<^verbatim>\<open>main.c\<close> greets and halts for ever.  From then on everything happens in
  interrupt handlers.  The components share the screen memory, the port space, the table of
  interrupt handlers, and the static variables of their C files.

  \<^bold>\<open>The machine.\<close>  Theory \<^theory_text>\<open>Machine\<close> has one record \<open>machine\<close> with the physical memory as a
  function from 32-bit addresses to bytes (theory \<^theory_text>\<open>Memory\<close>, with \<^verbatim>\<open>memset\<close> and
  \<^verbatim>\<open>memcpy\<close>), the CPU state the source touches (interrupt flag, CR0, CR2, CR3), the static
  variables of every C file, the trace of port accesses and privileged instructions, and the
  environment: the devices' answers as a function of the trace (\<open>hw\<close>), the addresses the linker
  assigns, and the schedule of the interrupts to come.  Effectful C functions are programs
  \<open>'a K\<close> over the machine, whose outcome is \<open>Done\<close> with a value or \<open>Stop\<close> with a reason: a kernel
  panic, undefined behaviour of C, or a wait that never ends.  Pure C functions are HOL functions;
  the ones that can have undefined behaviour return an option.  Integers have their width; \<^verbatim>\<open>int\<close>
  is the mathematical integer with the overflow checks of C written out.

  \<^bold>\<open>Theories and sources.\<close>
  \<^item> \<^theory_text>\<open>Prelude\<close>: the types of the model, the collections \<open>run\<close> (execution) and \<open>frame\<close>
    (preservation), and lemmas on words and lists.
  \<^item> \<^theory_text>\<open>Bitset\<close> (\<^verbatim>\<open>lib/bitset.c\<close>): the operations, the interface \<open>bit_array\<close> they
    implement, and the search with the start position it really uses.
  \<^item> \<^theory_text>\<open>Strings\<close> (\<^verbatim>\<open>lib/string.c\<close>, \<^verbatim>\<open>lib/stdlib.c\<close>, \<^verbatim>\<open>lib/ctype.c\<close>): conversions of
    numbers and strings against digit lists.
  \<^item> \<^theory_text>\<open>Descriptor_Tables\<close>, \<^theory_text>\<open>Interrupts\<close> (\<^verbatim>\<open>arch/x86/descriptors.{h,c}\<close>,
    \<^verbatim>\<open>arch/x86/ISR_IRQ.{h,c}\<close>, \<^verbatim>\<open>ISR.S\<close>, \<^verbatim>\<open>IRQ.S\<close>): segment and gate descriptors read as the
    hardware reads them, dispatch, waiting for interrupts, and the interface
    \<open>interrupt_service\<close> between the stubs and the handlers.
  \<^item> \<^theory_text>\<open>Trap_Frame\<close> (\<^verbatim>\<open>ISR.S\<close>, \<^verbatim>\<open>IRQ.S\<close>, \<^verbatim>\<open>arch/x86/ISR_IRQ.h\<close>, \<^verbatim>\<open>arch/x86/cpuid.c\<close>): the stubs
    instruction by instruction on the registers of a CPU and its stack, and the frame they build
    against the C structure.
  \<^item> \<^theory_text>\<open>Delivery\<close> (\<^verbatim>\<open>arch/x86/descriptors.h\<close>): the tables as packed structures in memory, and the
    CPU's way from a vector through them to the stub.
  \<^item> \<^theory_text>\<open>Boot_Memory\<close> (\<^verbatim>\<open>bios/boot_info.{h,c}\<close>): the boot information as packed structures in
    memory, and the sanitizer on them as a refinement of the one on records.
  \<^item> \<^theory_text>\<open>Screen_Sharing\<close>: the console and the mouse pointer on one screen.
  \<^item> \<^theory_text>\<open>Vga\<close>, \<^theory_text>\<open>Console\<close> (\<^verbatim>\<open>bios/vga.c\<close>, \<^verbatim>\<open>lib/conio.c\<close>, \<^verbatim>\<open>sys/panic.c\<close>): the text
    screen (interface \<open>text_screen\<close>) and the console as a refinement of a terminal, formatted
    output against the texts of its pieces, the panic and what it leaves alone (\<open>panicked\<close>).
  \<^item> \<^theory_text>\<open>Boot_Info\<close>, \<^theory_text>\<open>Pmm\<close>, \<^theory_text>\<open>Vmm\<close> (\<^verbatim>\<open>bios/boot_info.c\<close>, \<^verbatim>\<open>arch/x86/mmu\<close>): the memory
    map, the frame allocator with its invariant, the interface \<open>frame_allocator\<close> and the frames it
    picks (\<open>pick_frames\<close>), and the page tables against the CPU's page walk.
  \<^item> \<^theory_text>\<open>Pic\<close>, \<^theory_text>\<open>Pit\<close>, \<^theory_text>\<open>Dma\<close> (\<^verbatim>\<open>arch/x86/PIC.c\<close>, \<^verbatim>\<open>arch/x86/PIT.c\<close>,
    \<^verbatim>\<open>drivers/dma.c\<close>): each against a model of its chip (8259, 8253, 8237) that reads the trace.
  \<^item> \<^theory_text>\<open>Ring_Buffer\<close>, \<^theory_text>\<open>Ps2\<close>, \<^theory_text>\<open>Mouse\<close>, \<^theory_text>\<open>Keyboard\<close> (\<^verbatim>\<open>drivers/ps2.c\<close>): the scancode buffer as
    a bounded queue (interface \<open>bounded_queue\<close>), the controller against a model of the 8042 with
    its two devices, the mouse pointer as a layer over a picture, and the key decoder against a
    reference decoder of the bytes before a key (\<open>before_key\<close>, \<open>with_modifiers\<close>).
  \<^item> \<^theory_text>\<open>Fdc\<close>, \<^theory_text>\<open>Fdc_Read\<close>, \<^theory_text>\<open>Fdc_Reset\<close> (\<^verbatim>\<open>drivers/fdc.c\<close>): the floppy driver, with its waits,
    retries and errors; the read of a sector and the reset of a drive from end to end, over the
    floppy controller, the timer and the DMA controller.
  \<^item> \<^theory_text>\<open>Start\<close> (\<^verbatim>\<open>_start.c\<close>, \<^verbatim>\<open>main.c\<close>): the boot sequence over all of the above.
  \<^item> \<^theory_text>\<open>Running\<close>: the kernel after the boot as a step relation over interrupt requests,
    exceptions and rounds of the idle loop, with the invariant of all reachable states and the
    service of every schedule of requests.  Of the handlers of requests only the keyboard's can panic, when
    its controller has no data for a whole poll (\<open>dry_poll\<close>).
  \<^item> \<^theory_text>\<open>Transparency\<close>: an interrupt request of the running kernel together with its stub, as the
    interrupted program sees it.

  \<^bold>\<open>What the lemmas show.\<close>  Each theory first gives the definitions in the order of the code, then
  a reference (an abstract state, a device, a decoder), then lemmas that run each operation on
  every branch, then its properties.  Frame lemmas say what an operation leaves alone
  (\<open>console_step\<close>, \<open>pmm_step\<close>, \<open>timer_step\<close>, \<open>fdc_io\<close>, \<open>kernel_frame\<close>); the boot theorem is put together from them.

  \<^bold>\<open>Bounds and fuel.\<close>  A loop of the source with a bound runs with that bound: 1,000,000 polls of
  the PS/2 controller, 500 of the floppy controller, ten attempts of a seek or calibration.  A
  loop that waits for an interrupt handler (\<^verbatim>\<open>sleep\<close>, \<^verbatim>\<open>_fdc_wait_irq\<close>, the inner loop of
  \<^verbatim>\<open>PS2_get_scancode\<close>, the idle loop) takes groups of interrupts from the schedule; when
  interrupts are off or the schedule is exhausted its outcome is \<open>Stop Hang\<close>.  The outer loop of
  \<^verbatim>\<open>PS2_get_scancode\<close> has two rounds of fuel, which is enough because the buffer is not empty after
  the inner loop.  \<^verbatim>\<open>PS2_get_char\<close> takes the number of scancodes it may read as an argument; its
  theorem holds for every such number that covers the sequence read.

  \<^bold>\<open>Simplifications.\<close>  Interrupts are taken at the points where the code waits for them, one
  handler at a time; the one other interleaving that matters, a push of the keyboard handler
  inside a pop, is \<open>pop_interrupted\<close> in \<^theory_text>\<open>Ring_Buffer\<close>.  The boot information is a record of the
  machine and not a part of its memory; \<^theory_text>\<open>Boot_Memory\<close> shows that the record is what the memory
  holds, before and after \<^verbatim>\<open>_start_boot_info\<close>.  The machine's stubs (\<open>ISR_stub\<close>, \<open>IRQ_stub\<close>) keep the
  interrupt flag and leave the registers to \<^theory_text>\<open>Trap_Frame\<close>; \<^theory_text>\<open>Transparency\<close> runs both together, with
  what compiled C code may do to the stack and to EAX, ECX and EDX as parameters.  The linker's addresses are a parameter.  Pointers into
  the kernel's own image (static variables, local buffers) are fields or values of the model;
  local buffers keep their size, and writing past it is undefined behaviour.  \<^verbatim>\<open>__FILE__\<close> is the
  path given to the compiler, \<^verbatim>\<open>src/...\<close>.

  \<^bold>\<open>Not modelled.\<close>  The 16-bit boot loader (assembly under \<^verbatim>\<open>src/BIOS_bootloader\<close>), whose result
  is the boot information; \<^verbatim>\<open>GDT.S\<close> and \<^verbatim>\<open>lib/stdlib.S\<close>, which the C code does not use; the
  empty units \<^verbatim>\<open>APIC.c\<close> and \<^verbatim>\<open>keyboard.c\<close>; the register moves and jumps of \<^verbatim>\<open>_start\<close>, which are not state of the model.
\<close>

end
